(* ===== verification/Varta_Prelude.thy ===== *)
theory Varta_Prelude
  imports Complex_Main "HOL-Library.Word"
begin

unbundle bit_operations_syntax

section \<open>Prelude: the JavaScript values the client computes with\<close>

text \<open>
  Shared by every component theory: machine-word type synonyms, JavaScript numbers and the
  abstract operation \<open>ToUint32\<close> (the source's \<open>x >>> 0\<close>), exceptions as values, the part of
  Node's \<open>Buffer\<close> the sources call (byte stores, little-endian integer reads and writes,
  \<open>subarray\<close>, \<open>copy\<close>), string helpers (\<open>toLowerCase\<close>, \<open>includes\<close>, \<open>toString(16)\<close>,
  \<open>padStart\<close>), and the lemma collections that carry the component proofs.
  A JavaScript string is modelled by its Latin-1 characters, a \<open>bigint\<close> by an \<^typ>\<open>int\<close>.
\<close>

named_theorems buffer_simps \<open>lengths and slices of buffers\<close>
named_theorems layout_defs \<open>layout constants of the wire formats\<close>

type_synonym byte = "8 word"
type_synonym bytes = "8 word list"
type_synonym u32 = "32 word"
type_synonym u64 = "64 word"

subsection \<open>Numbers\<close>

text \<open>
  A JavaScript number is an IEEE double: a rational, an infinity or NaN. The sources never
  tell \<open>-0\<close> from \<open>0\<close>.
\<close>

datatype jsnum = JNaN | JPosInf | JNegInf | JNum rat

abbreviation js_int :: "int \<Rightarrow> jsnum" where
  "js_int n \<equiv> JNum (of_int n)"

definition math_trunc :: "rat \<Rightarrow> int" where
  "math_trunc x = (if x < 0 then \<lceil>x\<rceil> else \<lfloor>x\<rfloor>)"

text \<open>\<open>x >>> 0\<close>: truncate towards zero, then reduce modulo \<open>2 ^ 32\<close>; NaN and infinities give 0.\<close>

fun to_uint32 :: "jsnum \<Rightarrow> u32" where
  "to_uint32 (JNum x) = word_of_int (math_trunc x)"
| "to_uint32 _ = 0"

lemma math_trunc_of_int [simp]: "math_trunc (of_int n) = n"
  by (simp add: math_trunc_def)

lemma math_trunc_numeral [simp]:
  "math_trunc 0 = 0" "math_trunc 1 = 1" "math_trunc (numeral k) = numeral k"
  by (simp_all add: math_trunc_def)

lemma to_uint32_int: "to_uint32 (js_int n) = word_of_int n"
  by simp

lemma math_trunc_unsigned [simp]: "math_trunc (unsigned (w :: 'a::len word)) = uint w"
  using math_trunc_of_int [of "uint w"] by (simp only: of_int_uint)

lemma to_uint32_uint: "to_uint32 (js_int (uint (w :: u32))) = w"
  by (simp only: to_uint32_int word_of_int_uint)

subsection \<open>Exclusive or\<close>

lemma xor_cancel_right: "(a :: 'a::len word) XOR c = b XOR c \<longleftrightarrow> a = b"
proof
  assume "a XOR c = b XOR c"
  then have "(a XOR c) XOR c = (b XOR c) XOR c" by (rule arg_cong)
  then show "a = b" by (simp only: xor.assoc xor_self_eq xor.right_neutral)
qed (simp only:)

lemma xor_cancel_left: "(c :: 'a::len word) XOR a = c XOR b \<longleftrightarrow> a = b"
  by (simp only: xor.commute [of c] xor_cancel_right)

lemma xor_eq_0_iff_word: "(a :: 'a::len word) XOR b = 0 \<longleftrightarrow> a = b"
  using xor_cancel_right [of a b b] by (simp only: xor_self_eq)

subsection \<open>Exceptions\<close>

text \<open>
  A thrown value, with the fields the sources read: \<open>name\<close>, \<open>message\<close> and the two optional
  fields of Node's \<open>ErrnoException\<close>. The message of an error that Node itself throws is kept
  to its fixed part.
\<close>

record js_error =
  e_name :: string
  e_message :: string
  e_code :: "string option"
  e_errno :: "int option"

definition new_Error :: "string \<Rightarrow> js_error" where
  "new_Error msg = \<lparr>e_name = ''Error'', e_message = msg, e_code = None, e_errno = None\<rparr>"

definition new_RangeError :: "string \<Rightarrow> js_error" where
  "new_RangeError msg = \<lparr>e_name = ''RangeError'', e_message = msg, e_code = None, e_errno = None\<rparr>"

definition node_RangeError :: "string \<Rightarrow> string \<Rightarrow> js_error" where
  "node_RangeError cd msg =
     \<lparr>e_name = ''RangeError'', e_message = msg, e_code = Some cd, e_errno = None\<rparr>"

definition ERR_OUT_OF_RANGE :: js_error where
  "ERR_OUT_OF_RANGE = node_RangeError ''ERR_OUT_OF_RANGE'' ''value out of range''"

text \<open>Sequencing: an exception skips the rest of the function.\<close>

definition js_bind :: "js_error + 'a \<Rightarrow> ('a \<Rightarrow> js_error + 'b) \<Rightarrow> js_error + 'b" where
  "js_bind m f = (case m of Inl e \<Rightarrow> Inl e | Inr x \<Rightarrow> f x)"

lemma js_bind_simps [simp]: "js_bind (Inl e) f = Inl e" "js_bind (Inr x) f = f x"
  by (simp_all add: js_bind_def)

lemma js_bind_Inr_iff: "js_bind m f = Inr y \<longleftrightarrow> (\<exists>x. m = Inr x \<and> f x = Inr y)"
  by (cases m) simp_all

subsection \<open>Little-endian integers\<close>

fun le_bytes :: "nat \<Rightarrow> 'a::len word \<Rightarrow> bytes" where
  "le_bytes 0 w = []"
| "le_bytes (Suc n) w = ucast w # le_bytes n (drop_bit 8 w)"

fun le_word :: "bytes \<Rightarrow> 'a::len word" where
  "le_word [] = 0"
| "le_word (b # bs) = ucast b OR push_bit 8 (le_word bs)"

lemma length_le_bytes [simp]: "length (le_bytes n w) = n"
  by (induction n arbitrary: w) simp_all

lemma le_word_le_bytes: "le_word (le_bytes n w) = take_bit (8 * n) (w :: 'a::len word)"
proof (induction n arbitrary: w)
  case 0
  show ?case by simp
next
  case (Suc n)
  show ?case
    by (rule bit_word_eqI) (auto simp: Suc.IH bit_simps)
qed

lemma bit_le_word: "bit (le_word bs :: 'a::len word) n \<Longrightarrow> n < 8 * length bs"
proof (induction bs arbitrary: n)
  case Nil
  then show ?case by simp
next
  case (Cons b bs)
  then show ?case
    by (force simp: bit_simps dest: bit_imp_le_length Cons.IH)
qed

lemma le_bytes_le_word:
  "8 * length bs \<le> LENGTH('a::len) \<Longrightarrow> le_bytes (length bs) (le_word bs :: 'a word) = bs"
proof (induction bs)
  case Nil
  show ?case by simp
next
  case (Cons b bs)
  have no_high: "\<not> bit b (8 + n)" for n
    by (auto dest: bit_imp_le_length)
  have head: "ucast (le_word (b # bs) :: 'a word) = b"
    using Cons.prems by (auto intro!: bit_word_eqI simp: bit_simps)
  have "bit (drop_bit 8 (le_word (b # bs) :: 'a word)) n = bit (le_word bs :: 'a word) n" for n
    using Cons.prems no_high [of n] by (auto simp: bit_simps dest: bit_le_word)
  then have tail: "drop_bit 8 (le_word (b # bs) :: 'a word) = le_word bs"
    by (auto intro: bit_word_eqI)
  show ?case
    using Cons head tail by simp
qed

subsection \<open>Buffers\<close>

text \<open>
  \<open>splice_at buf off bs\<close> stores \<open>bs\<close> at offset \<open>off\<close>; \<open>subarray buf a b\<close> is the view of the
  bytes \<open>a\<close> to \<open>b\<close>. A store past the end of a typed array is dropped, as \<open>xs[i := v]\<close> is.
\<close>

definition splice_at :: "bytes \<Rightarrow> nat \<Rightarrow> bytes \<Rightarrow> bytes" where
  "splice_at buf off bs = take off buf @ bs @ drop (off + length bs) buf"

definition subarray :: "bytes \<Rightarrow> nat \<Rightarrow> nat \<Rightarrow> bytes" where
  "subarray buf a b = take (b - a) (drop a buf)"

definition buffer_alloc :: "nat \<Rightarrow> bytes" where
  "buffer_alloc n = replicate n 0"

lemma length_splice_at [buffer_simps]:
  "off + length bs \<le> length buf \<Longrightarrow> length (splice_at buf off bs) = length buf"
  by (simp add: splice_at_def)

lemma length_subarray [buffer_simps]:
  "b \<le> length buf \<Longrightarrow> length (subarray buf a b) = b - a"
  by (simp add: subarray_def)

lemma length_buffer_alloc [buffer_simps]: "length (buffer_alloc n) = n"
  by (simp add: buffer_alloc_def)

lemma buffer_alloc_0 [simp]: "buffer_alloc 0 = []"
  by (simp add: buffer_alloc_def)

lemma subarray_splice_at_same [buffer_simps]:
  "off + length bs \<le> length buf \<Longrightarrow> b = off + length bs \<Longrightarrow> subarray (splice_at buf off bs) off b = bs"
  by (simp add: splice_at_def subarray_def)

lemma subarray_splice_at_before [buffer_simps]:
  "b \<le> off \<Longrightarrow> off + length bs \<le> length buf \<Longrightarrow> subarray (splice_at buf off bs) a b = subarray buf a b"
  by (auto simp: splice_at_def subarray_def drop_take min_def)

lemma subarray_splice_at_after [buffer_simps]:
  "off + length bs \<le> a \<Longrightarrow> off + length bs \<le> length buf \<Longrightarrow>
     subarray (splice_at buf off bs) a b = subarray buf a b"
  by (simp add: splice_at_def subarray_def)

lemma subarray_update_outside [buffer_simps]:
  "i < a \<or> b \<le> i \<Longrightarrow> subarray (buf[i := v]) a b = subarray buf a b"
  by (cases "i < a") (auto simp: subarray_def drop_update_swap drop_update_cancel not_less)

lemma nth_splice_at_outside [buffer_simps]:
  "i < off \<or> off + length bs \<le> i \<Longrightarrow> off + length bs \<le> length buf \<Longrightarrow> i < length buf \<Longrightarrow>
     splice_at buf off bs ! i = buf ! i"
  by (auto simp: splice_at_def nth_append)

lemma nth_subarray [buffer_simps]:
  "a + i < b \<Longrightarrow> b \<le> length buf \<Longrightarrow> subarray buf a b ! i = buf ! (a + i)"
  by (simp add: subarray_def)

lemma subarray_all [buffer_simps]: "b = length buf \<Longrightarrow> subarray buf 0 b = buf"
  by (simp add: subarray_def)

lemma subarray_append:
  "a \<le> b \<Longrightarrow> b \<le> c \<Longrightarrow> c \<le> length buf \<Longrightarrow> subarray buf a b @ subarray buf b c = subarray buf a c"
proof -
  assume *: "a \<le> b" "b \<le> c" "c \<le> length buf"
  have "take (b - a) (drop a buf) @ take (c - b) (drop (b - a) (drop a buf))
      = take ((b - a) + (c - b)) (drop a buf)"
    by (rule take_add [symmetric])
  with * show ?thesis by (simp add: subarray_def)
qed

text \<open>
  Node checks the value against the width and the offset against the length before it
  stores anything. The 32-bit writers are only ever given \<open>x >>> 0\<close>, which is in range.
\<close>

definition writeUInt32LE :: "bytes \<Rightarrow> u32 \<Rightarrow> nat \<Rightarrow> js_error + bytes" where
  "writeUInt32LE buf v off =
     (if length buf < off + 4 then Inl ERR_OUT_OF_RANGE
      else Inr (splice_at buf off (le_bytes 4 v)))"

definition writeBigUInt64LE :: "bytes \<Rightarrow> int \<Rightarrow> nat \<Rightarrow> js_error + bytes" where
  "writeBigUInt64LE buf v off =
     (if v < 0 \<or> 2 ^ 64 \<le> v then Inl ERR_OUT_OF_RANGE
      else if length buf < off + 8 then Inl ERR_OUT_OF_RANGE
      else Inr (splice_at buf off (le_bytes 8 (word_of_int v :: u64))))"

text \<open>Filling a buffer from the front: after each store the written part is a prefix.\<close>

lemma splice_at_next: "length p = n \<Longrightarrow> splice_at (p @ drop n buf) n bs = (p @ bs) @ drop (n + length bs) buf"
  by (simp add: splice_at_def add.commute)

lemma writeUInt32LE_next:
  "length p = n \<Longrightarrow> n + 4 \<le> length buf \<Longrightarrow>
     writeUInt32LE (p @ drop n buf) v n = Inr ((p @ le_bytes 4 v) @ drop (n + 4) buf)"
  by (simp add: writeUInt32LE_def splice_at_next del: append_assoc)

lemma writeBigUInt64LE_next:
  "length p = n \<Longrightarrow> n + 8 \<le> length buf \<Longrightarrow>
     writeBigUInt64LE (p @ drop n buf) v n =
       (if v < 0 \<or> 2 ^ 64 \<le> v then Inl ERR_OUT_OF_RANGE
        else Inr ((p @ le_bytes 8 (word_of_int v :: u64)) @ drop (n + 8) buf))"
  by (simp add: writeBigUInt64LE_def splice_at_next del: append_assoc)

lemma store_first_four:
  "4 \<le> length buf \<Longrightarrow> buf[0 := a, 1 := b, 2 := c, 3 := d] = [a, b, c, d] @ drop 4 buf"
  by (cases buf; cases "tl buf"; cases "tl (tl buf)"; cases "tl (tl (tl buf))")
    (auto simp: numeral_eq_Suc)

lemma subarray_prefix [buffer_simps]: "length p = n \<Longrightarrow> subarray (p @ r) 0 n = p"
  by (simp add: subarray_def)

lemma subarray_middle [buffer_simps]:
  "length p = a \<Longrightarrow> length q = b - a \<Longrightarrow> subarray (p @ q @ r) a b = q"
  by (simp add: subarray_def)

lemma subarray_at: "w = p @ q @ r \<Longrightarrow> length p = a \<Longrightarrow> b = a + length q \<Longrightarrow> subarray w a b = q"
  by (simp add: subarray_def)

text \<open>The readers are only called on buffers whose length has been checked.\<close>

definition readUInt32LE :: "bytes \<Rightarrow> nat \<Rightarrow> u32" where
  "readUInt32LE buf off = le_word (subarray buf off (off + 4))"

definition readBigUInt64LE :: "bytes \<Rightarrow> nat \<Rightarrow> int" where
  "readBigUInt64LE buf off = uint (le_word (subarray buf off (off + 8)) :: u64)"

text \<open>
  \<open>src.copy(target, targetStart)\<close> stores as many bytes of \<open>src\<close> as fit.
\<close>

definition buffer_copy :: "bytes \<Rightarrow> bytes \<Rightarrow> nat \<Rightarrow> bytes" where
  "buffer_copy src target start =
     (if length target \<le> start then target
      else splice_at target start (take (length target - start) src))"

lemma buffer_copy_fits [buffer_simps]:
  "start + length src \<le> length target \<Longrightarrow> buffer_copy src target start = splice_at target start src"
  by (cases src) (auto simp: buffer_copy_def splice_at_def)

lemma buffer_copy_next:
  "length p = n \<Longrightarrow> n + length src \<le> length buf \<Longrightarrow>
     buffer_copy src (p @ drop n buf) n = (p @ src) @ drop (n + length src) buf"
  by (simp add: buffer_copy_fits splice_at_next)

lemma buffer_copy_first:
  "length src \<le> length buf \<Longrightarrow> buffer_copy src buf 0 = src @ drop (length src) buf"
  using buffer_copy_next [of "[]" 0 src buf] by simp

subsection \<open>Fixed-width codecs\<close>

text \<open>
  The contract between the frame codecs and the integer encodings: every value takes
  \<open>width\<close> bytes and reading inverts writing, in both directions.
\<close>

locale fixed_codec =
  fixes width :: nat
    and enc :: "'v \<Rightarrow> bytes"
    and dec :: "bytes \<Rightarrow> 'v"
  assumes length_enc: "length (enc v) = width"
    and dec_enc: "dec (enc v) = v"
    and enc_dec: "length bs = width \<Longrightarrow> enc (dec bs) = bs"
begin

lemma enc_inj: "enc v = enc w \<longleftrightarrow> v = w"
  using dec_enc by metis

lemma enc_eq_iff: "length bs = width \<Longrightarrow> enc v = bs \<longleftrightarrow> v = dec bs"
  using dec_enc enc_dec by metis

lemma dec_inj: "length bs = width \<Longrightarrow> length cs = width \<Longrightarrow> dec bs = dec cs \<longleftrightarrow> bs = cs"
  using enc_dec by metis

lemma read_written:
  "off + width \<le> length buf \<Longrightarrow> dec (subarray (splice_at buf off (enc v)) off (off + width)) = v"
  by (simp add: buffer_simps length_enc dec_enc)

lemma write_read:
  "off + width \<le> length buf \<Longrightarrow> splice_at buf off (enc (dec (subarray buf off (off + width)))) = buf"
proof -
  assume fits: "off + width \<le> length buf"
  then have "enc (dec (subarray buf off (off + width))) = subarray buf off (off + width)"
    by (simp add: enc_dec buffer_simps)
  with fits show ?thesis
    by (simp add: splice_at_def subarray_def) (metis add.commute append_take_drop_id drop_drop)
qed

end

interpretation le32: fixed_codec 4 "le_bytes 4 :: u32 \<Rightarrow> bytes" le_word
proof
  show "le_bytes 4 (le_word bs :: u32) = bs" if "length bs = 4" for bs
    using le_bytes_le_word [of bs, where 'a = 32] that by simp
qed (simp_all add: le_word_le_bytes take_bit_word_eq_self)

interpretation le64: fixed_codec 8 "le_bytes 8 :: u64 \<Rightarrow> bytes" le_word
proof
  show "le_bytes 8 (le_word bs :: u64) = bs" if "length bs = 8" for bs
    using le_bytes_le_word [of bs, where 'a = 64] that by simp
qed (simp_all add: le_word_le_bytes take_bit_word_eq_self)

subsection \<open>Strings\<close>

text \<open>\<open>buf.write(s, 0, "binary")\<close> stores one byte per character.\<close>

definition latin1 :: "string \<Rightarrow> bytes" where
  "latin1 s = map (\<lambda>c. of_nat (of_char c)) s"

lemma length_latin1 [simp]: "length (latin1 s) = length s"
  by (simp add: latin1_def)

definition char_to_lower :: "char \<Rightarrow> char" where
  "char_to_lower c =
     (let n = of_char c :: nat
      in if (65 \<le> n \<and> n \<le> 90) \<or> (192 \<le> n \<and> n \<le> 222 \<and> n \<noteq> 215) then char_of (n + 32) else c)"

definition toLowerCase :: "string \<Rightarrow> string" where
  "toLowerCase s = map char_to_lower s"

fun str_includes :: "string \<Rightarrow> string \<Rightarrow> bool" where
  "str_includes [] pat = (pat = [])"
| "str_includes (c # s) pat = (take (length pat) (c # s) = pat \<or> str_includes s pat)"

definition digit_char :: "nat \<Rightarrow> char" where
  "digit_char d = (if d < 10 then char_of (48 + d) else char_of (87 + d))"

fun radix_string :: "nat \<Rightarrow> nat \<Rightarrow> string" where
  "radix_string r n =
     (if r < 2 \<or> n < r then [digit_char n] else radix_string r (n div r) @ [digit_char (n mod r)])"

declare radix_string.simps [simp del]

definition hex_string :: "nat \<Rightarrow> string" where
  "hex_string n = radix_string 16 n"

definition int_string :: "int \<Rightarrow> string" where
  "int_string n = (if n < 0 then ''-'' @ radix_string 10 (nat (- n)) else radix_string 10 (nat n))"

text \<open>\<open>parseInt(s, 10)\<close>: leading white space, a sign, and as many digits as there are.\<close>

definition js_space :: "char \<Rightarrow> bool" where
  "js_space c \<longleftrightarrow> of_char c \<in> {9 :: nat, 10, 11, 12, 13, 32, 160}"

definition digit_value :: "char \<Rightarrow> int" where
  "digit_value c = of_char c - 48"

definition is_digit :: "char \<Rightarrow> bool" where
  "is_digit c \<longleftrightarrow> 48 \<le> (of_char c :: nat) \<and> (of_char c :: nat) \<le> 57"

definition parseInt :: "string \<Rightarrow> jsnum" where
  "parseInt s =
     (let s1 = dropWhile js_space s;
          neg = (s1 \<noteq> [] \<and> hd s1 = CHR ''-'');
          s2 = (if s1 \<noteq> [] \<and> (hd s1 = CHR ''-'' \<or> hd s1 = CHR ''+'') then tl s1 else s1);
          ds = takeWhile is_digit s2;
          n = foldl (\<lambda>a c. 10 * a + digit_value c) 0 ds
      in if ds = [] then JNaN else js_int (if neg then - n else n))"

definition padStart :: "string \<Rightarrow> nat \<Rightarrow> char \<Rightarrow> string" where
  "padStart s n c = replicate (n - length s) c @ s"

lemma length_toLowerCase [simp]: "length (toLowerCase s) = length s"
  by (simp add: toLowerCase_def)

lemma str_includes_iff: "str_includes s pat \<longleftrightarrow> (\<exists>pre post. s = pre @ pat @ post)"
proof (induction s)
  case Nil
  show ?case by simp
next
  case (Cons c s)
  have "take (length pat) (c # s) = pat \<longleftrightarrow> (\<exists>post. c # s = pat @ post)"
    by (metis append_eq_conv_conj append_take_drop_id)
  moreover have "(\<exists>pre post. c # s = pre @ pat @ post) \<longleftrightarrow>
      (\<exists>post. c # s = pat @ post) \<or> (\<exists>pre post. s = pre @ pat @ post)"
    by (auto simp: Cons_eq_append_conv)
  ultimately show ?case using Cons.IH by simp
qed

end
