(* ===== verification/Crc32c.thy ===== *)
theory Crc32c
  imports Varta_Prelude
begin

section \<open>CRC-32C (the checksum part of \<open>vlp.ts\<close>)\<close>

text \<open>
  Models \<open>POLY_REFLECTED\<close>, \<open>CRC_TABLE\<close> and \<open>crc32c\<close> of \<open>clients/node/src/vlp.ts\<close>. The
  reference definition is the bit-serial shift register of RFC 3720; the table-driven routine
  is proved equal to it. The register step is linear and injective, which gives error
  detection: two messages that differ only inside a window of four bytes never have the
  same checksum.
\<close>

definition POLY_REFLECTED :: u32 where
  "POLY_REFLECTED = 0x82f63b78"

text \<open>One iteration of the inner table loop: shift right, subtract the polynomial on a carry.\<close>

definition crc_shift :: "u32 \<Rightarrow> u32" where
  "crc_shift c = (if c AND 1 \<noteq> 0 then drop_bit 1 c XOR POLY_REFLECTED else drop_bit 1 c)"

text \<open>\<open>for (let k = 0; k < 8; k++)\<close>\<close>

fun crc_shifts :: "nat \<Rightarrow> u32 \<Rightarrow> u32" where
  "crc_shifts 0 c = c"
| "crc_shifts (Suc k) c = crc_shifts k (crc_shift c)"

definition CRC_TABLE :: "u32 list" where
  "CRC_TABLE = map (\<lambda>i. crc_shifts 8 (of_nat i)) [0..<256]"

text \<open>The loop body of \<open>crc32c\<close>, and the loop over the data.\<close>

definition crc_update :: "u32 \<Rightarrow> byte \<Rightarrow> u32" where
  "crc_update crc b =
     (let idx = (crc XOR ucast b) AND 0xff
      in CRC_TABLE ! unat idx XOR drop_bit 8 crc)"

definition crc32c :: "bytes \<Rightarrow> u32" where
  "crc32c data = foldl crc_update 0xffffffff data XOR 0xffffffff"

subsection \<open>The shift register\<close>

lemma crc_shift_odd: "crc_shift c = (if bit c 0 then drop_bit 1 c XOR POLY_REFLECTED else drop_bit 1 c)"
  by (simp add: crc_shift_def and_one_eq bit_0 odd_iff_mod_2_eq_one)

lemma crc_shift_xor: "crc_shift (a XOR b) = crc_shift a XOR crc_shift b"
  by (rule bit_word_eqI) (auto simp: crc_shift_odd bit_xor_iff bit_drop_bit_eq)

lemma crc_shift_0 [simp]: "crc_shift 0 = 0"
  by (simp add: crc_shift_odd)

lemma crc_shift_top: "bit (crc_shift c) 31 \<longleftrightarrow> bit c 0"
proof -
  have poly: "bit POLY_REFLECTED 31" by (simp add: POLY_REFLECTED_def)
  have "\<not> bit (drop_bit 1 c) 31"
    using bit_imp_le_length [of c 32] by (auto simp: bit_simps)
  with poly show ?thesis by (auto simp: crc_shift_odd bit_simps)
qed

lemma crc_shift_eq_0_iff: "crc_shift c = 0 \<longleftrightarrow> c = 0"
proof
  assume z: "crc_shift c = 0"
  then have even: "\<not> bit c 0" using crc_shift_top [of c] by simp
  with z have "drop_bit 1 c = 0" by (simp add: crc_shift_odd)
  then have "\<not> bit (drop_bit 1 c) n" for n by simp
  then have "\<not> bit c (Suc n)" for n by (simp add: bit_drop_bit_eq)
  with even have "\<not> bit c n" for n by (cases n) auto
  then show "c = 0" by (simp add: bit_eq_iff)
qed simp

lemma crc_shifts_xor: "crc_shifts k (a XOR b) = crc_shifts k a XOR crc_shifts k b"
  by (induction k arbitrary: a b) (simp_all add: crc_shift_xor)

lemma crc_shifts_add: "crc_shifts (j + k) c = crc_shifts k (crc_shifts j c)"
  by (induction j arbitrary: c) simp_all

lemma crc_shifts_0 [simp]: "crc_shifts k 0 = 0"
  by (induction k) simp_all

lemma crc_shifts_eq_0_iff: "crc_shifts k c = 0 \<longleftrightarrow> c = 0"
  by (induction k arbitrary: c) (simp_all add: crc_shift_eq_0_iff)

lemma crc_shifts_inj: "crc_shifts k a = crc_shifts k b \<longleftrightarrow> a = b"
  using crc_shifts_eq_0_iff [of k "a XOR b"] by (simp add: crc_shifts_xor xor_eq_0_iff_word)

lemma crc_shifts_low_zero: "take_bit k c = 0 \<Longrightarrow> crc_shifts k c = drop_bit k c"
proof (induction k arbitrary: c)
  case 0
  show ?case by simp
next
  case (Suc k)
  from Suc.prems have "\<not> bit (take_bit (Suc k) c) n" for n by simp
  then have zero: "\<not> bit c n" if "n < Suc k" for n
    using that by (auto simp: bit_take_bit_iff)
  have "take_bit k (drop_bit 1 c) = 0"
    using zero by (auto intro!: bit_word_eqI simp: bit_simps)
  with zero [of 0] show ?case
    using Suc.IH [of "drop_bit 1 c"] by (simp add: crc_shift_odd)
qed

subsection \<open>The table-driven step\<close>

lemma low_byte_split: "(x :: u32) = take_bit 8 x XOR push_bit 8 (drop_bit 8 x)"
  by (rule bit_word_eqI) (auto simp: bit_simps)

lemma take_bit_push_bit_same: "take_bit k (push_bit k (x :: u32)) = 0"
  by (rule bit_word_eqI) (auto simp: bit_simps)

lemma unat_low_byte: "unat (take_bit 8 (x :: u32)) < 256"
  using take_bit_nat_less_exp [of 8 "unat x"] by (simp add: unsigned_take_bit_eq)

lemma crc_shifts_8: "crc_shifts 8 x = crc_shifts 8 (take_bit 8 x) XOR drop_bit 8 x"
proof -
  have "crc_shifts 8 (push_bit 8 (drop_bit 8 x)) = drop_bit 8 (push_bit 8 (drop_bit 8 x))"
    by (rule crc_shifts_low_zero) (rule take_bit_push_bit_same)
  also have "\<dots> = drop_bit 8 x"
    by (rule bit_word_eqI) (auto simp: bit_simps dest: bit_imp_le_length)
  finally have high: "crc_shifts 8 (push_bit 8 (drop_bit 8 x)) = drop_bit 8 x" .
  have "crc_shifts 8 x = crc_shifts 8 (take_bit 8 x XOR push_bit 8 (drop_bit 8 x))"
    by (rule arg_cong [OF low_byte_split])
  also have "\<dots> = crc_shifts 8 (take_bit 8 x) XOR drop_bit 8 x"
    by (simp only: crc_shifts_xor high)
  finally show ?thesis .
qed

lemma CRC_TABLE_nth: "i < 256 \<Longrightarrow> CRC_TABLE ! i = crc_shifts 8 (of_nat i)"
  by (simp add: CRC_TABLE_def)

lemma crc_update_shifts: "crc_update crc b = crc_shifts 8 (crc XOR ucast b)"
proof -
  let ?x = "crc XOR ucast b"
  have idx: "?x AND 0xff = take_bit 8 ?x"
    using take_bit_eq_mask [of 8 ?x] by (simp add: mask_eq_exp_minus_1)
  have entry: "CRC_TABLE ! unat (take_bit 8 ?x) = crc_shifts 8 (take_bit 8 ?x)"
    using CRC_TABLE_nth [OF unat_low_byte, of ?x] by (simp only: of_nat_unat ucast_id)
  have high: "drop_bit 8 crc = drop_bit 8 ?x"
    by (rule bit_word_eqI) (auto simp: bit_simps dest: bit_imp_le_length)
  have "crc_update crc b = crc_shifts 8 (take_bit 8 ?x) XOR drop_bit 8 ?x"
    by (simp only: crc_update_def Let_def idx entry high)
  then show ?thesis by (simp only: crc_shifts_8 [of ?x])
qed

lemma crc_update_inj: "crc_update s b = crc_update t b \<longleftrightarrow> s = t"
proof -
  have "crc_update s b = crc_update t b \<longleftrightarrow> s XOR ucast b = t XOR ucast b"
    by (simp add: crc_update_shifts crc_shifts_inj)
  also have "\<dots> \<longleftrightarrow> s = t"
    by (rule xor_cancel_right)
  finally show ?thesis .
qed

lemma crc_fold_inj: "foldl crc_update s bs = foldl crc_update t bs \<longleftrightarrow> s = t"
  by (induction bs arbitrary: s t) (simp_all add: crc_update_inj)

text \<open>A run of up to four bytes is one 32-bit word fed to the register.\<close>

lemma crc_fold_word:
  "length bs \<le> 4 \<Longrightarrow> foldl crc_update s bs = crc_shifts (8 * length bs) (s XOR le_word bs)"
proof (induction bs arbitrary: s)
  case Nil
  show ?case by simp
next
  case (Cons b bs)
  let ?W = "le_word bs :: u32"
  have "n < 24" if "bit ?W n" for n
    using bit_le_word [OF that] Cons.prems by simp
  then have "drop_bit 8 (push_bit 8 ?W) = ?W"
    by (auto intro!: bit_word_eqI simp: bit_simps)
  then have push: "crc_shifts 8 (push_bit 8 ?W) = ?W"
    using crc_shifts_low_zero [OF take_bit_push_bit_same, of 8 ?W] by (simp only:)
  have word: "s XOR le_word (b # bs) = (s XOR ucast b) XOR push_bit 8 ?W"
    by (rule bit_word_eqI) (auto simp: bit_simps dest: bit_imp_le_length)
  have "foldl crc_update s (b # bs) = crc_shifts (8 * length bs) (crc_update s b XOR ?W)"
    using Cons by simp
  also have "crc_update s b XOR ?W = crc_shifts 8 (s XOR le_word (b # bs))"
    by (simp only: word crc_shifts_xor crc_update_shifts push)
  finally show ?case
    using crc_shifts_add [of 8 "8 * length bs" "s XOR le_word (b # bs)"] by simp
qed

lemma le_word_inj4:
  "length bs = length cs \<Longrightarrow> length bs \<le> 4 \<Longrightarrow> (le_word bs :: u32) = le_word cs \<longleftrightarrow> bs = cs"
proof -
  assume *: "length bs = length cs" "length bs \<le> 4"
  have "le_bytes (length bs) (le_word bs :: u32) = bs"
    by (rule le_bytes_le_word) (use * in simp)
  moreover have "le_bytes (length cs) (le_word cs :: u32) = cs"
    by (rule le_bytes_le_word) (use * in simp)
  ultimately show ?thesis using * by metis
qed

text \<open>
  The residue: a message followed by its checksum in little-endian order drives the register
  to one fixed value, and no other four-byte trailer does.
\<close>

lemma crc_residue:
  assumes "length t = 4"
  shows "foldl crc_update 0xffffffff (body @ t) = crc_shifts 32 0xffffffff \<longleftrightarrow>
     (le_word t :: u32) = crc32c body"
proof -
  let ?s = "foldl crc_update 0xffffffff body"
  have "foldl crc_update 0xffffffff (body @ t) = crc_shifts 32 (?s XOR le_word t)"
    using assms by (simp add: crc_fold_word)
  then have "foldl crc_update 0xffffffff (body @ t) = crc_shifts 32 0xffffffff \<longleftrightarrow>
      ?s XOR le_word t = 0xffffffff"
    by (simp only: crc_shifts_inj)
  also have "\<dots> \<longleftrightarrow> ?s XOR (?s XOR le_word t) = ?s XOR 0xffffffff"
    by (simp only: xor_cancel_left)
  also have "\<dots> \<longleftrightarrow> (le_word t :: u32) = crc32c body"
    by (simp only: crc32c_def xor.assoc [symmetric] xor_self_eq xor.left_neutral)
  finally show ?thesis .
qed

lemma crc_window_residue:
  assumes "length w = length w'" "length w \<le> 4"
  shows "foldl crc_update s (pre @ w @ post) = foldl crc_update s (pre @ w' @ post) \<longleftrightarrow> w = w'"
  using assms by (simp add: crc_fold_inj crc_fold_word crc_shifts_inj xor_cancel_left le_word_inj4)

lemma crc_window:
  assumes "length w = length w'" "length w \<le> 4"
  shows "crc32c (pre @ w @ post) = crc32c (pre @ w' @ post) \<longleftrightarrow> w = w'"
  using crc_window_residue [OF assms] by (simp only: crc32c_def xor_cancel_right)

subsection \<open>The bit-serial reference\<close>

text \<open>
  The register of RFC 3720: each message bit, least significant first, is added to the low
  end of the register, which is then shifted once.
\<close>

definition crc_feed :: "u32 \<Rightarrow> bool \<Rightarrow> u32" where
  "crc_feed s m = crc_shift (s XOR of_bool m)"

definition byte_bits :: "byte \<Rightarrow> bool list" where
  "byte_bits b = map (bit b) [0..<8]"

definition crc32c_serial :: "bytes \<Rightarrow> u32" where
  "crc32c_serial data =
     foldl crc_feed 0xffffffff (concat (map byte_bits data)) XOR 0xffffffff"

lemma crc_shifts_Suc: "crc_shifts (Suc k) c = crc_shift (crc_shifts k c)"
  using crc_shifts_add [of k 1 c] by simp

lemma crc_feed_bits:
  "k \<le> 32 \<Longrightarrow> foldl crc_feed s (map (bit w) [0..<k]) = crc_shifts k (s XOR take_bit k (w :: u32))"
proof (induction k)
  case 0
  show ?case by simp
next
  case (Suc k)
  let ?m = "of_bool (bit w k) :: u32"
  have split: "take_bit (Suc k) w = take_bit k w XOR push_bit k ?m"
    by (rule bit_word_eqI) (use Suc.prems in \<open>auto simp: bit_simps less_Suc_eq\<close>)
  have low: "crc_shifts k (push_bit k ?m) = ?m"
  proof -
    have "crc_shifts k (push_bit k ?m) = drop_bit k (push_bit k ?m)"
      by (rule crc_shifts_low_zero) (rule take_bit_push_bit_same)
    also have "\<dots> = ?m"
      by (rule bit_word_eqI) (use Suc.prems in \<open>auto simp: bit_simps\<close>)
    finally show ?thesis .
  qed
  have "foldl crc_feed s (map (bit w) [0..<Suc k]) =
      crc_feed (foldl crc_feed s (map (bit w) [0..<k])) (bit w k)"
    by simp
  also have "\<dots> = crc_feed (crc_shifts k (s XOR take_bit k w)) (bit w k)"
    using Suc by simp
  also have "\<dots> = crc_shift (crc_shifts k (s XOR take_bit k w) XOR crc_shifts k (push_bit k ?m))"
    by (simp only: crc_feed_def low)
  also have "\<dots> = crc_shifts (Suc k) (s XOR take_bit (Suc k) w)"
    by (simp only: split crc_shifts_Suc crc_shifts_xor crc_shift_xor xor.assoc)
  finally show ?case .
qed

lemma crc_feed_byte: "foldl crc_feed s (byte_bits b) = crc_update s b"
proof -
  have bits: "byte_bits b = map (bit (ucast b :: u32)) [0..<8]"
    by (auto simp: byte_bits_def bit_simps)
  have low: "take_bit 8 (ucast b :: u32) = ucast b"
    by (rule bit_word_eqI) (auto simp: bit_simps dest: bit_imp_le_length)
  have "(8 :: nat) \<le> 32" by simp
  from crc_feed_bits [OF this, of s "ucast b"] show ?thesis
    by (simp only: bits low crc_update_shifts)
qed

text \<open>C39: the table-driven checksum of the code equals the bit-serial CRC-32C (reflected
  Castagnoli polynomial, initial value and final XOR all ones) of every byte sequence.\<close>

theorem crc32c_eq_serial: "crc32c data = crc32c_serial data"
proof -
  have "foldl crc_feed s (concat (map byte_bits data)) = foldl crc_update s data" for s
    by (induction data arbitrary: s) (simp_all add: crc_feed_byte)
  then show ?thesis by (simp add: crc32c_def crc32c_serial_def)
qed

end
