(* ===== verification/Vlp.thy ===== *)
theory Vlp
  imports Crc32c
begin

section \<open>VLP v0.2 frames (\<open>clients/node/src/vlp.ts\<close>)\<close>

text \<open>
  The 32-byte frame codec: status names and numbers, \<open>encode\<close>/\<open>encodeInto\<close> and \<open>decode\<close> with
  every error branch. The lemmas give the byte layout, that decoding is exactly the inverse
  of encoding on the frames the protocol allows, the order of the decoder's checks, and that
  the checksum catches every corruption of up to four adjacent bytes.
\<close>

subsection \<open>Constants and data\<close>

definition MAGIC :: bytes where [layout_defs]: "MAGIC = [0x56, 0x41]"
definition VERSION :: byte where [layout_defs]: "VERSION = 0x02"
definition NONCE_TERMINAL :: int where "NONCE_TERMINAL = 0xffffffffffffffff"
definition TIMESTAMP_INVALID :: int where "TIMESTAMP_INVALID = 0xffffffffffffffff"
definition FRAME_BYTES :: nat where [layout_defs]: "FRAME_BYTES = 32"

datatype Status = Ok | Degraded | Critical | Stall

fun status_value :: "Status \<Rightarrow> int" where
  "status_value Ok = 0"
| "status_value Degraded = 1"
| "status_value Critical = 2"
| "status_value Stall = 3"

text \<open>\<open>Status | number | string\<close>: at run time an enum member is its number.\<close>

datatype StatusLike = StatusNumber jsnum | StatusName string

abbreviation StatusEnum :: "Status \<Rightarrow> StatusLike" where
  "StatusEnum s \<equiv> StatusNumber (js_int (status_value s))"

datatype DecodeErrorKind =
    BadMagic | BadVersion | BadCrc | BadStatus | StallOnWire | BadPid | BadTimestamp | BadNonce

fun kind_string :: "DecodeErrorKind \<Rightarrow> string" where
  "kind_string BadMagic = ''BadMagic''"
| "kind_string BadVersion = ''BadVersion''"
| "kind_string BadCrc = ''BadCrc''"
| "kind_string BadStatus = ''BadStatus''"
| "kind_string StallOnWire = ''StallOnWire''"
| "kind_string BadPid = ''BadPid''"
| "kind_string BadTimestamp = ''BadTimestamp''"
| "kind_string BadNonce = ''BadNonce''"

record DecodeError =
  de_name :: string
  de_message :: string
  de_kind :: DecodeErrorKind

definition new_DecodeError :: "DecodeErrorKind \<Rightarrow> string \<Rightarrow> DecodeError" where
  "new_DecodeError kind detail =
     \<lparr>de_name = ''DecodeError'',
      de_message = (if detail \<noteq> [] then kind_string kind @ '': '' @ detail else kind_string kind),
      de_kind = kind\<rparr>"

record Frame =
  fr_status :: Status
  fr_pid :: u32
  fr_timestamp :: int
  fr_nonce :: int
  fr_payload :: u32

subsection \<open>Status coercion\<close>

text \<open>
  \<open>STATUS_BY_NAME\<close> is an object literal, so a lookup that misses its own keys goes on to
  \<open>Object.prototype\<close>. Of the inherited property names only \<open>constructor\<close> and \<open>__proto__\<close>
  are their own lower-case form; both yield an object, which the source then treats as a
  \<open>Status\<close>.
\<close>

datatype coerced = CStatus Status | CInherited

definition STATUS_BY_NAME :: "(string \<times> Status) list" where
  "STATUS_BY_NAME =
     [(''ok'', Ok), (''degraded'', Degraded), (''critical'', Critical), (''stall'', Stall)]"

definition lower_inherited_names :: "string list" where
  "lower_inherited_names = [''constructor'', ''__proto__'']"

definition status_by_name :: "string \<Rightarrow> coerced option" where
  "status_by_name key =
     (case map_of STATUS_BY_NAME key of
        Some s \<Rightarrow> Some (CStatus s)
      | None \<Rightarrow> if key \<in> set lower_inherited_names then Some CInherited else None)"

fun coerceStatus :: "StatusLike \<Rightarrow> js_error + coerced" where
  "coerceStatus (StatusName name) =
     (case status_by_name (toLowerCase name) of
        None \<Rightarrow> Inl (new_RangeError (''unknown status name: '' @ name))
      | Some s \<Rightarrow> Inr s)"
| "coerceStatus (StatusNumber n) =
     (if n = js_int (status_value Ok) then Inr (CStatus Ok)
      else if n = js_int (status_value Degraded) then Inr (CStatus Degraded)
      else if n = js_int (status_value Critical) then Inr (CStatus Critical)
      else if n = js_int (status_value Stall) then Inr (CStatus Stall)
      else Inl (new_RangeError ''invalid status''))"

text \<open>\<open>s & 0xff\<close>: an object converts to NaN, whose 32-bit value is 0.\<close>

fun status_byte :: "coerced \<Rightarrow> byte" where
  "status_byte (CStatus s) = word_of_int (status_value s)"
| "status_byte CInherited = 0"

subsection \<open>Encoding\<close>

text \<open>The buffer is returned in every case: a write that throws leaves the earlier stores in it.\<close>

definition encodeInto ::
  "bytes \<Rightarrow> StatusLike \<Rightarrow> jsnum \<Rightarrow> int \<Rightarrow> int \<Rightarrow> jsnum \<Rightarrow> bytes \<times> (js_error + unit)" where
  "encodeInto buf st pid timestamp nonce payload =
     (if length buf < FRAME_BYTES
      then (buf, Inl (new_RangeError (''buffer must be at least '' @ int_string (int FRAME_BYTES) @ '' bytes'')))
      else case coerceStatus st of
        Inl e \<Rightarrow> (buf, Inl e)
      | Inr s \<Rightarrow>
          let buf1 = buf[0 := 0x56, 1 := 0x41, 2 := VERSION, 3 := status_byte s]
          in case writeUInt32LE buf1 (to_uint32 pid) 4 of
               Inl e \<Rightarrow> (buf1, Inl e)
             | Inr buf2 \<Rightarrow>
          (case writeBigUInt64LE buf2 timestamp 8 of
               Inl e \<Rightarrow> (buf2, Inl e)
             | Inr buf3 \<Rightarrow>
          (case writeBigUInt64LE buf3 nonce 16 of
               Inl e \<Rightarrow> (buf3, Inl e)
             | Inr buf4 \<Rightarrow>
          (case writeUInt32LE buf4 (to_uint32 payload) 24 of
               Inl e \<Rightarrow> (buf4, Inl e)
             | Inr buf5 \<Rightarrow>
          (let crc = crc32c (subarray buf5 0 28)
           in case writeUInt32LE buf5 crc 28 of
                Inl e \<Rightarrow> (buf5, Inl e)
              | Inr buf6 \<Rightarrow> (buf6, Inr ()))))))"

definition encode :: "StatusLike \<Rightarrow> jsnum \<Rightarrow> int \<Rightarrow> int \<Rightarrow> jsnum \<Rightarrow> js_error + bytes" where
  "encode st pid timestamp nonce payload =
     (let (buf, res) = encodeInto (buffer_alloc FRAME_BYTES) st pid timestamp nonce payload
      in case res of Inl e \<Rightarrow> Inl e | Inr _ \<Rightarrow> Inr buf)"

subsection \<open>Decoding\<close>

definition hex_byte :: "byte \<Rightarrow> string" where
  "hex_byte b = ''0x'' @ padStart (hex_string (unat b)) 2 (CHR ''0'')"

definition buffer_hex :: "bytes \<Rightarrow> string" where
  "buffer_hex bs = concat (map (\<lambda>b. padStart (hex_string (unat b)) 2 (CHR ''0'')) bs)"

definition status_of_byte :: "byte \<Rightarrow> Status" where
  "status_of_byte b = (if b = 0 then Ok else if b = 1 then Degraded else if b = 2 then Critical else Stall)"

definition decode :: "bytes \<Rightarrow> DecodeError + Frame" where
  "decode buf =
     (if length buf \<noteq> FRAME_BYTES
      then Inl (new_DecodeError BadMagic
             (''length '' @ int_string (int (length buf)) @ '' != '' @ int_string (int FRAME_BYTES)))
      else if buf ! 0 \<noteq> 0x56 \<or> buf ! 1 \<noteq> 0x41
      then Inl (new_DecodeError BadMagic (buffer_hex (subarray buf 0 2)))
      else if buf ! 2 \<noteq> VERSION
      then Inl (new_DecodeError BadVersion (hex_byte (buf ! 2)))
      else
        let storedCrc = readUInt32LE buf 28;
            computedCrc = crc32c (subarray buf 0 28)
        in if storedCrc \<noteq> computedCrc
           then Inl (new_DecodeError BadCrc
                  (''expected '' @ padStart (hex_string (unat computedCrc)) 8 (CHR ''0'') @ '', got '' @
                   padStart (hex_string (unat storedCrc)) 8 (CHR ''0'')))
           else
        let statusByte = buf ! 3
        in if 3 < statusByte
           then Inl (new_DecodeError BadStatus (hex_byte statusByte))
           else if statusByte = word_of_int (status_value Stall)
           then Inl (new_DecodeError StallOnWire [])
           else
        let pid = readUInt32LE buf 4;
            timestamp = readBigUInt64LE buf 8;
            nonce = readBigUInt64LE buf 16;
            payload = readUInt32LE buf 24
        in if pid = 0 \<or> pid = 1
           then Inl (new_DecodeError BadPid (int_string (uint pid)))
           else if timestamp = TIMESTAMP_INVALID
           then Inl (new_DecodeError BadTimestamp [])
           else if nonce = NONCE_TERMINAL \<and> statusByte \<noteq> word_of_int (status_value Critical)
           then Inl (new_DecodeError BadNonce
                  (''nonce=NONCE_TERMINAL paired with status='' @ hex_byte statusByte))
           else Inr \<lparr>fr_status = status_of_byte statusByte, fr_pid = pid,
                      fr_timestamp = timestamp, fr_nonce = nonce, fr_payload = payload\<rparr>)"

definition decodeFrame :: "bytes \<Rightarrow> DecodeError + Frame" where
  "decodeFrame buf = decode buf"

subsection \<open>The byte layout\<close>

text \<open>
  The wire image as the protocol document draws it: the 28 covered bytes, then their
  checksum in little-endian order.
\<close>

definition frame_body :: "byte \<Rightarrow> u32 \<Rightarrow> u64 \<Rightarrow> u64 \<Rightarrow> u32 \<Rightarrow> bytes" where
  "frame_body sb pid ts nonce payload =
     MAGIC @ [VERSION, sb] @ le_bytes 4 pid @ le_bytes 8 ts @ le_bytes 8 nonce @ le_bytes 4 payload"

definition frame_wire :: "byte \<Rightarrow> u32 \<Rightarrow> u64 \<Rightarrow> u64 \<Rightarrow> u32 \<Rightarrow> bytes" where
  "frame_wire sb pid ts nonce payload =
     (let body = frame_body sb pid ts nonce payload in body @ le_bytes 4 (crc32c body))"

definition is_u64 :: "int \<Rightarrow> bool" where
  "is_u64 n \<longleftrightarrow> 0 \<le> n \<and> n < 2 ^ 64"

lemma length_frame_body [simp]: "length (frame_body sb pid ts nonce payload) = 28"
  by (simp add: frame_body_def layout_defs)

lemma length_frame_wire [simp]: "length (frame_wire sb pid ts nonce payload) = 32"
  by (simp add: frame_wire_def Let_def)

lemma encodeInto_result:
  assumes "32 \<le> length buf" "coerceStatus st = Inr s"
  shows "encodeInto buf st pid ts nonce payload =
     (let head = [0x56, 0x41, VERSION, status_byte s] @ le_bytes 4 (to_uint32 pid)
      in if \<not> is_u64 ts then (head @ drop 8 buf, Inl ERR_OUT_OF_RANGE)
         else if \<not> is_u64 nonce
         then (head @ le_bytes 8 (word_of_int ts :: u64) @ drop 16 buf, Inl ERR_OUT_OF_RANGE)
         else (frame_wire (status_byte s) (to_uint32 pid) (word_of_int ts) (word_of_int nonce)
                 (to_uint32 payload) @ drop 32 buf, Inr ()))"
proof -
  let ?p1 = "[0x56, 0x41, VERSION, status_byte s]"
  let ?p2 = "?p1 @ le_bytes 4 (to_uint32 pid)"
  let ?p3 = "?p2 @ le_bytes 8 (word_of_int ts :: u64)"
  let ?p4 = "?p3 @ le_bytes 8 (word_of_int nonce :: u64)"
  let ?p5 = "?p4 @ le_bytes 4 (to_uint32 payload)"
  have p1: "buf[0 := 0x56, 1 := 0x41, 2 := VERSION, 3 := status_byte s] = ?p1 @ drop 4 buf"
    by (rule store_first_four) (use assms(1) in simp)
  have w1: "writeUInt32LE (?p1 @ drop 4 buf) (to_uint32 pid) 4 = Inr (?p2 @ drop 8 buf)"
    using assms(1) writeUInt32LE_next [of ?p1 4 buf] by simp
  have w2: "writeBigUInt64LE (?p2 @ drop 8 buf) ts 8 =
      (if is_u64 ts then Inr (?p3 @ drop 16 buf) else Inl ERR_OUT_OF_RANGE)"
    using assms(1) writeBigUInt64LE_next [of ?p2 8 buf] by (auto simp: is_u64_def)
  have w3: "writeBigUInt64LE (?p3 @ drop 16 buf) nonce 16 =
      (if is_u64 nonce then Inr (?p4 @ drop 24 buf) else Inl ERR_OUT_OF_RANGE)"
    using assms(1) writeBigUInt64LE_next [of ?p3 16 buf] by (auto simp: is_u64_def)
  have w4: "writeUInt32LE (?p4 @ drop 24 buf) (to_uint32 payload) 24 = Inr (?p5 @ drop 28 buf)"
    using assms(1) writeUInt32LE_next [of ?p4 24 buf] by simp
  have body: "?p5 = frame_body (status_byte s) (to_uint32 pid) (word_of_int ts) (word_of_int nonce) (to_uint32 payload)"
    by (simp add: frame_body_def layout_defs)
  have covered: "subarray (?p5 @ drop 28 buf) 0 28 = ?p5"
    by (rule subarray_prefix) simp
  have w5: "writeUInt32LE (?p5 @ drop 28 buf) (crc32c ?p5) 28 = Inr ((?p5 @ le_bytes 4 (crc32c ?p5)) @ drop 32 buf)"
    using assms(1) writeUInt32LE_next [of ?p5 28 buf] by simp
  show ?thesis
    using assms
    by (simp only: encodeInto_def FRAME_BYTES_def not_less [symmetric] if_False if_True sum.case
        p1 w1 w2 w3 w4 covered w5 Let_def frame_wire_def body [symmetric] split: if_splits)
      simp
qed

lemma encode_iff:
  "encode st pid ts nonce payload = Inr w \<longleftrightarrow>
     (\<exists>s. coerceStatus st = Inr s \<and> is_u64 ts \<and> is_u64 nonce \<and>
        w = frame_wire (status_byte s) (to_uint32 pid) (word_of_int ts) (word_of_int nonce) (to_uint32 payload))"
proof (cases "coerceStatus st")
  case (Inl e)
  then show ?thesis
    by (simp add: encode_def encodeInto_def buffer_simps)
next
  case (Inr s)
  have "32 \<le> length (buffer_alloc FRAME_BYTES)" by (simp add: buffer_simps FRAME_BYTES_def)
  note res = encodeInto_result [OF this Inr, of pid ts nonce payload]
  show ?thesis
    unfolding encode_def res using Inr
    by (auto simp: Let_def buffer_alloc_def FRAME_BYTES_def)
qed

subsection \<open>Reading a wire image back\<close>

lemma frame_body_fields:
  "frame_body sb pid ts nonce payload ! 0 = 0x56"
  "frame_body sb pid ts nonce payload ! 1 = 0x41"
  "frame_body sb pid ts nonce payload ! 2 = VERSION"
  "frame_body sb pid ts nonce payload ! 3 = sb"
  by (simp_all add: frame_body_def layout_defs numeral_eq_Suc)

lemma frame_wire_prefix: "frame_wire sb pid ts nonce payload =
    frame_body sb pid ts nonce payload @ le_bytes 4 (crc32c (frame_body sb pid ts nonce payload))"
  by (simp add: frame_wire_def Let_def)

lemma frame_wire_head:
  "frame_wire sb pid ts nonce payload ! 0 = 0x56"
  "frame_wire sb pid ts nonce payload ! 1 = 0x41"
  "frame_wire sb pid ts nonce payload ! 2 = VERSION"
  "frame_wire sb pid ts nonce payload ! 3 = sb"
  by (simp_all add: frame_wire_prefix nth_append frame_body_fields del: One_nat_def)

lemma subarray_body:
  "subarray (frame_wire sb pid ts nonce payload) 0 28 = frame_body sb pid ts nonce payload"
  unfolding frame_wire_prefix by (rule subarray_prefix) simp

lemma frame_wire_reads:
  "readUInt32LE (frame_wire sb pid ts nonce payload) 4 = pid"
  "readBigUInt64LE (frame_wire sb pid ts nonce payload) 8 = uint ts"
  "readBigUInt64LE (frame_wire sb pid ts nonce payload) 16 = uint nonce"
  "readUInt32LE (frame_wire sb pid ts nonce payload) 24 = payload"
  "readUInt32LE (frame_wire sb pid ts nonce payload) 28 = crc32c (frame_body sb pid ts nonce payload)"
proof -
  let ?w = "frame_wire sb pid ts nonce payload"
  let ?m = "MAGIC @ [VERSION, sb]"
  note w = frame_wire_prefix [of sb pid ts nonce payload, unfolded frame_body_def]
  have "subarray ?w 4 8 = le_bytes 4 pid"
    by (rule subarray_at [where p = ?m]) (use w in \<open>simp_all add: layout_defs\<close>)
  then show "readUInt32LE ?w 4 = pid"
    by (simp add: readUInt32LE_def le32.dec_enc)
  have "subarray ?w 8 16 = le_bytes 8 ts"
    by (rule subarray_at [where p = "?m @ le_bytes 4 pid"]) (use w in \<open>simp_all add: layout_defs\<close>)
  then show "readBigUInt64LE ?w 8 = uint ts"
    by (simp add: readBigUInt64LE_def le64.dec_enc)
  have "subarray ?w 16 24 = le_bytes 8 nonce"
    by (rule subarray_at [where p = "?m @ le_bytes 4 pid @ le_bytes 8 ts"]) (use w in \<open>simp_all add: layout_defs\<close>)
  then show "readBigUInt64LE ?w 16 = uint nonce"
    by (simp add: readBigUInt64LE_def le64.dec_enc)
  have "subarray ?w 24 28 = le_bytes 4 payload"
    by (rule subarray_at [where p = "?m @ le_bytes 4 pid @ le_bytes 8 ts @ le_bytes 8 nonce"])
      (use w in \<open>simp_all add: layout_defs\<close>)
  then show "readUInt32LE ?w 24 = payload"
    by (simp add: readUInt32LE_def le32.dec_enc)
  have "subarray ?w 28 32 = le_bytes 4 (crc32c (frame_body sb pid ts nonce payload))"
    by (rule subarray_at [where p = "frame_body sb pid ts nonce payload" and r = "[]"])
      (simp_all add: frame_wire_prefix)
  then show "readUInt32LE ?w 28 = crc32c (frame_body sb pid ts nonce payload)"
    by (simp add: readUInt32LE_def le32.dec_enc)
qed

text \<open>Conversely every 32-byte string with the magic, version and checksum is such an image.\<close>

lemma frame_wire_complete:
  assumes "length w = 32" "w ! 0 = 0x56" "w ! 1 = 0x41" "w ! 2 = VERSION"
    and crc: "readUInt32LE w 28 = crc32c (subarray w 0 28)"
  shows "w = frame_wire (w ! 3) (readUInt32LE w 4) (word_of_int (readBigUInt64LE w 8))
           (word_of_int (readBigUInt64LE w 16)) (readUInt32LE w 24)"
proof -
  have head: "subarray w 0 4 = MAGIC @ [VERSION, w ! 3]"
    using assms(1-4)
    by (auto simp: layout_defs subarray_def numeral_eq_Suc length_Suc_conv)
  have r32: "le_bytes 4 (readUInt32LE w off) = subarray w off (off + 4)" if "off \<le> 28" for off
    using that assms(1) by (simp add: readUInt32LE_def le32.enc_dec buffer_simps)
  have r64: "le_bytes 8 (word_of_int (readBigUInt64LE w off) :: u64) = subarray w off (off + 8)"
    if "off \<le> 24" for off
    using that assms(1) by (simp add: readBigUInt64LE_def le64.enc_dec buffer_simps)
  have "frame_body (w ! 3) (readUInt32LE w 4) (word_of_int (readBigUInt64LE w 8))
           (word_of_int (readBigUInt64LE w 16)) (readUInt32LE w 24) =
        subarray w 0 4 @ subarray w 4 8 @ subarray w 8 16 @ subarray w 16 24 @ subarray w 24 28"
    using r32 [of 4] r32 [of 24] r64 [of 8] r64 [of 16] by (simp add: frame_body_def head)
  also have "\<dots> = subarray w 0 28"
    using assms(1) by (simp add: subarray_append)
  finally have body: "frame_body (w ! 3) (readUInt32LE w 4) (word_of_int (readBigUInt64LE w 8))
           (word_of_int (readBigUInt64LE w 16)) (readUInt32LE w 24) = subarray w 0 28" .
  have "w = subarray w 0 28 @ subarray w 28 32"
    using assms(1) by (simp add: subarray_append subarray_all)
  then show ?thesis
    using r32 [of 28] by (simp add: frame_wire_prefix body crc [symmetric])
qed

subsection \<open>Decoding inverts encoding\<close>

text \<open>The frames the protocol allows on the wire.\<close>

definition frame_ok :: "Frame \<Rightarrow> bool" where
  "frame_ok f \<longleftrightarrow>
     fr_status f \<noteq> Stall \<and> fr_pid f \<noteq> 0 \<and> fr_pid f \<noteq> 1 \<and>
     is_u64 (fr_timestamp f) \<and> fr_timestamp f \<noteq> TIMESTAMP_INVALID \<and>
     is_u64 (fr_nonce f) \<and> (fr_nonce f = NONCE_TERMINAL \<longrightarrow> fr_status f = Critical)"

definition encode_frame :: "Frame \<Rightarrow> js_error + bytes" where
  "encode_frame f =
     encode (StatusEnum (fr_status f)) (js_int (uint (fr_pid f))) (fr_timestamp f) (fr_nonce f)
       (js_int (uint (fr_payload f)))"

lemma coerceStatus_enum [simp]: "coerceStatus (StatusEnum s) = Inr (CStatus s)"
  by (cases s) simp_all

lemma status_byte_of: "status_of_byte (status_byte (CStatus s)) = s"
  by (cases s) (simp_all add: status_of_byte_def)

lemma status_byte_le: "status_byte (CStatus s) \<le> 3"
  by (cases s) simp_all

lemma status_byte_eq [simp]:
  "word_of_int (status_value s) = (word_of_int (status_value t) :: byte) \<longleftrightarrow> s = t"
  by (cases s; cases t) simp_all

lemma byte_cases_3: "(b :: byte) \<le> 3 \<Longrightarrow> b = 0 \<or> b = 1 \<or> b = 2 \<or> b = 3"
  by (cases "b = 3"; cases "b = 2"; cases "b = 1"; cases "b = 0") (unat_arith | simp)+

lemma status_of_byte_inverse:
  "b \<le> 3 \<Longrightarrow> word_of_int (status_value (status_of_byte b)) = b"
  by (drule byte_cases_3) (auto simp: status_of_byte_def)

lemma is_u64_uint [simp]: "is_u64 (uint (w :: u64))"
  by (simp add: is_u64_def) (use uint_lt2p [of w] in simp)

lemma is_u64_read [simp]: "is_u64 (readBigUInt64LE buf off)"
  by (simp add: readBigUInt64LE_def)

lemma uint_of_u64: "is_u64 n \<Longrightarrow> uint (word_of_int n :: u64) = n"
  by (simp add: is_u64_def uint_word_of_int)

lemma encode_frame_iff:
  "encode_frame f = Inr w \<longleftrightarrow> is_u64 (fr_timestamp f) \<and> is_u64 (fr_nonce f) \<and>
     w = frame_wire (word_of_int (status_value (fr_status f))) (fr_pid f)
           (word_of_int (fr_timestamp f)) (word_of_int (fr_nonce f)) (fr_payload f)"
  by (simp only: encode_frame_def encode_iff coerceStatus_enum to_uint32_uint sum.inject) auto

lemma decode_frame_wire:
  "decode (frame_wire sb pid ts nonce payload) =
     (if 3 < sb then Inl (new_DecodeError BadStatus (hex_byte sb))
      else if sb = 3 then Inl (new_DecodeError StallOnWire [])
      else if pid = 0 \<or> pid = 1 then Inl (new_DecodeError BadPid (int_string (uint pid)))
      else if uint ts = TIMESTAMP_INVALID then Inl (new_DecodeError BadTimestamp [])
      else if uint nonce = NONCE_TERMINAL \<and> sb \<noteq> 2
      then Inl (new_DecodeError BadNonce (''nonce=NONCE_TERMINAL paired with status='' @ hex_byte sb))
      else Inr \<lparr>fr_status = status_of_byte sb, fr_pid = pid, fr_timestamp = uint ts,
                 fr_nonce = uint nonce, fr_payload = payload\<rparr>)"
  by (simp add: decode_def Let_def FRAME_BYTES_def frame_wire_head frame_wire_reads subarray_body
      del: One_nat_def)

lemma decode_InrD:
  assumes "decode w = Inr f"
  shows "\<exists>sb ts nonce. w = frame_wire sb (fr_pid f) ts nonce (fr_payload f)"
proof -
  have h: "length w = 32" "w ! 0 = 0x56" "w ! 1 = 0x41" "w ! 2 = VERSION"
    "readUInt32LE w 28 = crc32c (subarray w 0 28)"
    "fr_pid f = readUInt32LE w 4" "fr_payload f = readUInt32LE w 24"
    using assms by (auto simp: decode_def Let_def FRAME_BYTES_def split: if_splits)
  then show ?thesis using frame_wire_complete [OF h(1-5)] by metis
qed

text \<open>C6: decoding and encoding are inverse on the allowed frames, and nothing else decodes:
  \<open>decode\<close> returns a frame exactly when that frame is allowed by the protocol and \<open>encode\<close> of
  its fields is the given byte string.\<close>

theorem decode_iff_encode: "decode w = Inr f \<longleftrightarrow> frame_ok f \<and> encode_frame f = Inr w"
proof
  assume dec: "decode w = Inr f"
  then obtain sb ts nonce where w: "w = frame_wire sb (fr_pid f) ts nonce (fr_payload f)"
    using decode_InrD by blast
  from dec have b: "sb \<le> 3" "sb \<noteq> 3" and fields: "fr_status f = status_of_byte sb"
      "fr_timestamp f = uint ts" "fr_nonce f = uint nonce"
    and ok: "fr_pid f \<noteq> 0" "fr_pid f \<noteq> 1" "uint ts \<noteq> TIMESTAMP_INVALID"
      "uint nonce = NONCE_TERMINAL \<longrightarrow> sb = 2"
    by (cases f, auto simp: w decode_frame_wire not_less split: if_splits)+
  from b have "sb = 0 \<or> sb = 1 \<or> sb = 2" using byte_cases_3 by blast
  with fields ok have "frame_ok f"
    by (auto simp: frame_ok_def status_of_byte_def)
  moreover have "encode_frame f = Inr w"
    using b by (simp add: encode_frame_iff fields w status_of_byte_inverse)
  ultimately show "frame_ok f \<and> encode_frame f = Inr w" ..
next
  assume *: "frame_ok f \<and> encode_frame f = Inr w"
  then have w: "w = frame_wire (status_byte (CStatus (fr_status f))) (fr_pid f)
      (word_of_int (fr_timestamp f)) (word_of_int (fr_nonce f)) (fr_payload f)"
    by (simp add: encode_frame_iff)
  from * have "fr_status f = Ok \<or> fr_status f = Degraded \<or> fr_status f = Critical"
    by (cases "fr_status f") (auto simp: frame_ok_def)
  with * show "decode w = Inr f"
    unfolding w decode_frame_wire
    by (auto simp: frame_ok_def uint_of_u64 status_of_byte_def)
qed

text \<open>C10: on every branch, \<open>encodeInto\<close> behaves as follows. A short buffer or an unknown status
  leaves the buffer as it was and throws; a timestamp or nonce outside 64 bits throws after
  the fields before it have been stored; otherwise exactly the first 32 bytes become the wire
  image (magic, version, status, pid, timestamp, nonce, payload, checksum of the first 28
  bytes) and the bytes after them are untouched.\<close>

theorem encodeInto_behaviour:
  "encodeInto buf st pid ts nonce payload =
     (if length buf < 32 then (buf, Inl (new_RangeError ''buffer must be at least 32 bytes''))
      else case coerceStatus st of
        Inl e \<Rightarrow> (buf, Inl e)
      | Inr s \<Rightarrow>
          if \<not> is_u64 ts
          then ([0x56, 0x41, 0x02, status_byte s] @ le_bytes 4 (to_uint32 pid) @ drop 8 buf,
                Inl ERR_OUT_OF_RANGE)
          else if \<not> is_u64 nonce
          then ([0x56, 0x41, 0x02, status_byte s] @ le_bytes 4 (to_uint32 pid)
                  @ le_bytes 8 (word_of_int ts :: u64) @ drop 16 buf, Inl ERR_OUT_OF_RANGE)
          else (frame_wire (status_byte s) (to_uint32 pid) (word_of_int ts) (word_of_int nonce)
                  (to_uint32 payload) @ drop 32 buf, Inr ()))"
proof (cases "length buf < 32")
  case True
  have "int_string 32 = ''32''"
    by code_simp
  with True show ?thesis by (simp add: encodeInto_def FRAME_BYTES_def)
next
  case False
  show ?thesis
  proof (cases "coerceStatus st")
    case (Inl e)
    with False show ?thesis by (simp add: encodeInto_def FRAME_BYTES_def)
  next
    case (Inr s)
    with False show ?thesis
      using encodeInto_result [of buf st s pid ts nonce payload]
      by (simp add: Let_def VERSION_def)
  qed
qed

subsection \<open>The order of the checks\<close>

text \<open>The decode order of the protocol document, as a list of named failure conditions.\<close>

definition decode_checks :: "(DecodeErrorKind \<times> (bytes \<Rightarrow> bool)) list" where
  "decode_checks =
     [(BadMagic, \<lambda>w. length w \<noteq> 32 \<or> subarray w 0 2 \<noteq> MAGIC),
      (BadVersion, \<lambda>w. w ! 2 \<noteq> VERSION),
      (BadCrc, \<lambda>w. readUInt32LE w 28 \<noteq> crc32c (subarray w 0 28)),
      (BadStatus, \<lambda>w. w ! 3 \<notin> {0, 1, 2, 3}),
      (StallOnWire, \<lambda>w. w ! 3 = 3),
      (BadPid, \<lambda>w. readUInt32LE w 4 \<in> {0, 1}),
      (BadTimestamp, \<lambda>w. readBigUInt64LE w 8 = 2 ^ 64 - 1),
      (BadNonce, \<lambda>w. readBigUInt64LE w 16 = 2 ^ 64 - 1 \<and> w ! 3 \<noteq> 2)]"

definition first_failure :: "bytes \<Rightarrow> DecodeErrorKind option" where
  "first_failure w = map_option fst (find (\<lambda>(k, bad). bad w) decode_checks)"

lemma first_two: "length w = 32 \<Longrightarrow> subarray w 0 2 = MAGIC \<longleftrightarrow> w ! 0 = 0x56 \<and> w ! 1 = 0x41"
  by (auto simp: layout_defs subarray_def numeral_eq_Suc length_Suc_conv)

lemma status_byte_range: "(3 :: byte) < b \<longleftrightarrow> b \<notin> {0, 1, 2, 3}"
  using byte_cases_3 [of b] by (auto simp: not_less [symmetric])

text \<open>C11: the decoder rejects with the first failing check of the normative order (magic,
  version, checksum, status, stall, pid, timestamp, nonce), and accepts when none fails.\<close>

theorem decode_order:
  "(case decode w of Inl e \<Rightarrow> Some (de_kind e) | Inr f \<Rightarrow> None) = first_failure w"
  by (cases "length w = 32")
    (auto simp: decode_def first_failure_def decode_checks_def Let_def FRAME_BYTES_def first_two
      status_byte_range new_DecodeError_def TIMESTAMP_INVALID_def NONCE_TERMINAL_def
      simp del: One_nat_def)

subsection \<open>Corruption\<close>

lemma decode_residue:
  "decode w = Inr f \<Longrightarrow> foldl crc_update 0xffffffff w = crc_shifts 32 0xffffffff"
proof -
  assume "decode w = Inr f"
  then obtain sb ts nonce where "w = frame_wire sb (fr_pid f) ts nonce (fr_payload f)"
    using decode_InrD by blast
  then show ?thesis
    by (simp only: frame_wire_prefix crc_residue length_le_bytes le32.dec_enc)
qed

lemma encode_residue:
  "encode st pid ts nonce payload = Inr w \<Longrightarrow>
     foldl crc_update 0xffffffff w = crc_shifts 32 0xffffffff \<and> length w = 32"
  by (auto simp: encode_iff) (simp only: frame_wire_prefix crc_residue length_le_bytes le32.dec_enc)

lemma window_split:
  assumes "length w = n" "length w' = n" "i + k \<le> n"
    and "\<And>j. j < n \<Longrightarrow> j < i \<or> i + k \<le> j \<Longrightarrow> w' ! j = w ! j"
  shows "w' = take i w @ take k (drop i w') @ drop (i + k) w"
proof -
  have "take i w' = take i w" using assms by (intro nth_equalityI) auto
  moreover have "drop (i + k) w' = drop (i + k) w" using assms by (intro nth_equalityI) auto
  moreover have "w' = take i w' @ take k (drop i w') @ drop (i + k) w'"
    by (metis add.commute append_take_drop_id drop_drop)
  ultimately show ?thesis by simp
qed

text \<open>C12: a frame corrupted inside any window of four adjacent bytes (so by any burst of up to
  25 bits, and by any single- or double-byte error) is never accepted by the decoder, wherever
  the window lies, across the border between the fields and the checksum included.\<close>

theorem decode_rejects_burst:
  assumes "encode st pid ts nonce payload = Inr w" and "length w' = 32" and "w' \<noteq> w"
    and "i \<le> 28" and "\<And>j. j < 32 \<Longrightarrow> j < i \<or> i + 4 \<le> j \<Longrightarrow> w' ! j = w ! j"
  shows "\<exists>e. decode w' = Inl e"
proof (rule ccontr)
  assume "\<nexists>e. decode w' = Inl e"
  then obtain f where "decode w' = Inr f" by (cases "decode w'") auto
  then have res': "foldl crc_update 0xffffffff w' = crc_shifts 32 0xffffffff"
    by (rule decode_residue)
  from assms(1) have res: "foldl crc_update 0xffffffff w = crc_shifts 32 0xffffffff"
    and len: "length w = 32"
    using encode_residue by blast+
  let ?b = "take 4 (drop i w)" and ?b' = "take 4 (drop i w')"
  have split': "w' = take i w @ ?b' @ drop (i + 4) w"
    using window_split [of w 32 w' i 4] assms(2,4,5) len by simp
  have split: "w = take i w @ ?b @ drop (i + 4) w"
    by (metis add.commute append_take_drop_id drop_drop)
  have "foldl crc_update 0xffffffff (take i w @ ?b' @ drop (i + 4) w) =
      foldl crc_update 0xffffffff (take i w @ ?b @ drop (i + 4) w)"
    using res res' split split' by simp
  then have "?b' = ?b"
    by (subst (asm) crc_window_residue) (use assms(2,4) len in auto)
  with split split' assms(3) show False by simp
qed

theorem decode_rejects_burst_witness:
  "\<exists>e. decode ((frame_wire 0 2 0 1 0)[5 := 7]) = Inl e"
proof -
  let ?w = "frame_wire 0 2 0 1 0"
  have enc: "encode (StatusEnum Ok) (js_int 2) 0 1 (js_int 0) = Inr ?w"
    by (simp only: encode_iff coerceStatus_enum sum.inject) (simp add: is_u64_def math_trunc_def)
  have "?w ! 5 = 0"
    by (simp add: frame_wire_prefix nth_append) (simp add: frame_body_def layout_defs numeral_eq_Suc)
  then have "?w[5 := 7] ! 5 \<noteq> ?w ! 5" by simp
  then have ne: "?w[5 := 7] \<noteq> ?w" by metis
  show ?thesis
    by (rule decode_rejects_burst [OF enc _ ne, where i = 4]) (auto simp: nth_list_update)
qed

subsection \<open>Status names\<close>

text \<open>A status name is looked up in an object literal, so the name \<open>constructor\<close> is not
  rejected: \<open>encode\<close> gives the same bytes for it as for \<open>Status.Ok\<close>, although the source's
  error branch is written for every name outside the table.\<close>

theorem encode_inherited_name:
  "encode (StatusName ''constructor'') pid ts nonce payload =
     encode (StatusEnum Ok) pid ts nonce payload"
proof -
  have c: "coerceStatus (StatusName ''constructor'') = Inr CInherited"
    by code_simp
  have b: "status_byte CInherited = status_byte (CStatus Ok)" by simp
  show ?thesis
    unfolding encode_def encodeInto_def c coerceStatus_enum sum.case b ..
qed

text \<open>Apart from the two inherited names, a name is accepted exactly when its lower-case form
  is one of the four table keys.\<close>

lemma coerceStatus_name_iff:
  "coerceStatus (StatusName n) = Inr (CStatus s) \<longleftrightarrow> (toLowerCase n, s) \<in> set STATUS_BY_NAME"
  by (auto simp: status_by_name_def STATUS_BY_NAME_def lower_inherited_names_def split: if_splits)

end
