(* ===== verification/Conformance.thy ===== *)
theory Conformance
  imports Vlp
begin

section \<open>Conformance vectors (\<open>tools/vlp-test-vectors.json\<close>)\<close>

text \<open>
  The vectors that the repository shares between its clients, and the two tests of the Node client that need no cryptography
  (\<open>clients/node/tests/conformance.test.ts\<close>): checksums, and frames that are encoded and decoded or rejected. The vectors come
  from the reference implementation in Rust, so they also check this model against a program it was not written from.
\<close>

subsection \<open>The vectors\<close>

definition crc32c_vectors :: "(bytes \<times> u32) list" where
  "crc32c_vectors =
     [([], 0x00000000),
      ([0x61], 0xc1d04330),
      ([0x31, 0x32, 0x33, 0x34, 0x35, 0x36, 0x37, 0x38, 0x39], 0xe3069283),
      ([0x00, 0x00, 0x00, 0x00, 0x00, 0x00, 0x00, 0x00, 0x00, 0x00, 0x00, 0x00, 0x00, 0x00, 0x00, 0x00, 0x00, 0x00, 0x00, 0x00, 0x00, 0x00, 0x00, 0x00, 0x00, 0x00, 0x00, 0x00, 0x00, 0x00, 0x00, 0x00], 0x8a9136aa),
      ([0xff, 0xff, 0xff, 0xff, 0xff, 0xff, 0xff, 0xff, 0xff, 0xff, 0xff, 0xff, 0xff, 0xff, 0xff, 0xff, 0xff, 0xff, 0xff, 0xff, 0xff, 0xff, 0xff, 0xff, 0xff, 0xff, 0xff, 0xff, 0xff, 0xff, 0xff, 0xff], 0x62a8ab43)]"

record frame_inputs =
  fi_status :: string
  fi_pid :: int
  fi_timestamp :: int
  fi_nonce :: int
  fi_payload :: int

definition frame_vectors :: "(frame_inputs \<times> bytes) list" where
  "frame_vectors =
     [(\<lparr>fi_status = ''ok'', fi_pid = 2, fi_timestamp = 0, fi_nonce = 1, fi_payload = 0\<rparr>,
       [0x56, 0x41, 0x02, 0x00, 0x02, 0x00, 0x00, 0x00, 0x00, 0x00, 0x00, 0x00, 0x00, 0x00, 0x00, 0x00, 0x01, 0x00, 0x00, 0x00, 0x00, 0x00, 0x00, 0x00, 0x00, 0x00, 0x00, 0x00, 0xe4, 0x11, 0x6b, 0xaa]),
      (\<lparr>fi_status = ''degraded'', fi_pid = 12345, fi_timestamp = 1234567890, fi_nonce = 100, fi_payload = 3735928559\<rparr>,
       [0x56, 0x41, 0x02, 0x01, 0x39, 0x30, 0x00, 0x00, 0xd2, 0x02, 0x96, 0x49, 0x00, 0x00, 0x00, 0x00, 0x64, 0x00, 0x00, 0x00, 0x00, 0x00, 0x00, 0x00, 0xef, 0xbe, 0xad, 0xde, 0x7b, 0xbc, 0x77, 0x5f]),
      (\<lparr>fi_status = ''critical'', fi_pid = 99, fi_timestamp = 10000, fi_nonce = 5, fi_payload = 42\<rparr>,
       [0x56, 0x41, 0x02, 0x02, 0x63, 0x00, 0x00, 0x00, 0x10, 0x27, 0x00, 0x00, 0x00, 0x00, 0x00, 0x00, 0x05, 0x00, 0x00, 0x00, 0x00, 0x00, 0x00, 0x00, 0x2a, 0x00, 0x00, 0x00, 0x37, 0xec, 0xf6, 0x3f]),
      (\<lparr>fi_status = ''critical'', fi_pid = 2, fi_timestamp = 999, fi_nonce = 18446744073709551615, fi_payload = 0\<rparr>,
       [0x56, 0x41, 0x02, 0x02, 0x02, 0x00, 0x00, 0x00, 0xe7, 0x03, 0x00, 0x00, 0x00, 0x00, 0x00, 0x00, 0xff, 0xff, 0xff, 0xff, 0xff, 0xff, 0xff, 0xff, 0x00, 0x00, 0x00, 0x00, 0xa2, 0x99, 0xee, 0xed]),
      (\<lparr>fi_status = ''ok'', fi_pid = 3735928559, fi_timestamp = 81985529216486895, fi_nonce = 1, fi_payload = 66\<rparr>,
       [0x56, 0x41, 0x02, 0x00, 0xef, 0xbe, 0xad, 0xde, 0xef, 0xcd, 0xab, 0x89, 0x67, 0x45, 0x23, 0x01, 0x01, 0x00, 0x00, 0x00, 0x00, 0x00, 0x00, 0x00, 0x42, 0x00, 0x00, 0x00, 0x00, 0xb2, 0x28, 0xb8]),
      (\<lparr>fi_status = ''ok'', fi_pid = 2, fi_timestamp = 1, fi_nonce = 0, fi_payload = 0\<rparr>,
       [0x56, 0x41, 0x02, 0x00, 0x02, 0x00, 0x00, 0x00, 0x01, 0x00, 0x00, 0x00, 0x00, 0x00, 0x00, 0x00, 0x00, 0x00, 0x00, 0x00, 0x00, 0x00, 0x00, 0x00, 0x00, 0x00, 0x00, 0x00, 0x69, 0x32, 0x59, 0xac])]"

definition error_vectors :: "(DecodeErrorKind \<times> bytes) list" where
  "error_vectors =
     [(BadMagic,
       [0x00, 0x41, 0x02, 0x00, 0x02, 0x00, 0x00, 0x00, 0x64, 0x00, 0x00, 0x00, 0x00, 0x00, 0x00, 0x00, 0x01, 0x00, 0x00, 0x00, 0x00, 0x00, 0x00, 0x00, 0x00, 0x00, 0x00, 0x00, 0x42, 0x17, 0x95, 0xbe]),
      (BadVersion,
       [0x56, 0x41, 0x01, 0x00, 0x02, 0x00, 0x00, 0x00, 0x64, 0x00, 0x00, 0x00, 0x00, 0x00, 0x00, 0x00, 0x01, 0x00, 0x00, 0x00, 0x00, 0x00, 0x00, 0x00, 0x00, 0x00, 0x00, 0x00, 0x7a, 0x77, 0x43, 0x18]),
      (BadCrc,
       [0x56, 0x41, 0x02, 0x00, 0x02, 0x00, 0x00, 0x00, 0x64, 0x00, 0x00, 0x00, 0x00, 0x00, 0x00, 0x00, 0x01, 0x00, 0x00, 0x00, 0x00, 0x00, 0x00, 0x00, 0x00, 0x00, 0x00, 0x00, 0x6b, 0xfb, 0xb0, 0x6f]),
      (BadStatus,
       [0x56, 0x41, 0x02, 0xff, 0x02, 0x00, 0x00, 0x00, 0x64, 0x00, 0x00, 0x00, 0x00, 0x00, 0x00, 0x00, 0x01, 0x00, 0x00, 0x00, 0x00, 0x00, 0x00, 0x00, 0x00, 0x00, 0x00, 0x00, 0x9a, 0x03, 0x66, 0x1d]),
      (StallOnWire,
       [0x56, 0x41, 0x02, 0x03, 0x02, 0x00, 0x00, 0x00, 0x64, 0x00, 0x00, 0x00, 0x00, 0x00, 0x00, 0x00, 0x01, 0x00, 0x00, 0x00, 0x00, 0x00, 0x00, 0x00, 0x00, 0x00, 0x00, 0x00, 0xcc, 0xa7, 0xed, 0x1c]),
      (BadPid,
       [0x56, 0x41, 0x02, 0x00, 0x00, 0x00, 0x00, 0x00, 0x64, 0x00, 0x00, 0x00, 0x00, 0x00, 0x00, 0x00, 0x01, 0x00, 0x00, 0x00, 0x00, 0x00, 0x00, 0x00, 0x00, 0x00, 0x00, 0x00, 0x86, 0x08, 0xc3, 0x1f]),
      (BadPid,
       [0x56, 0x41, 0x02, 0x00, 0x01, 0x00, 0x00, 0x00, 0x64, 0x00, 0x00, 0x00, 0x00, 0x00, 0x00, 0x00, 0x01, 0x00, 0x00, 0x00, 0x00, 0x00, 0x00, 0x00, 0x00, 0x00, 0x00, 0x00, 0x08, 0xca, 0x8c, 0xa5]),
      (BadTimestamp,
       [0x56, 0x41, 0x02, 0x00, 0x02, 0x00, 0x00, 0x00, 0xff, 0xff, 0xff, 0xff, 0xff, 0xff, 0xff, 0xff, 0x01, 0x00, 0x00, 0x00, 0x00, 0x00, 0x00, 0x00, 0x00, 0x00, 0x00, 0x00, 0x30, 0xdd, 0xde, 0x54]),
      (BadNonce,
       [0x56, 0x41, 0x02, 0x00, 0x02, 0x00, 0x00, 0x00, 0x64, 0x00, 0x00, 0x00, 0x00, 0x00, 0x00, 0x00, 0xff, 0xff, 0xff, 0xff, 0xff, 0xff, 0xff, 0xff, 0x00, 0x00, 0x00, 0x00, 0x8c, 0x28, 0x89, 0xf8])]"

subsection \<open>The tests\<close>

definition crc_vector_ok :: "bytes \<times> u32 \<Rightarrow> bool" where
  "crc_vector_ok = (\<lambda>(data, expected). crc32c data = expected)"

definition frame_vector_ok :: "frame_inputs \<times> bytes \<Rightarrow> bool" where
  "frame_vector_ok = (\<lambda>(inp, wire).
     encode (StatusName (fi_status inp)) (js_int (fi_pid inp)) (fi_timestamp inp) (fi_nonce inp) (js_int (fi_payload inp)) = Inr wire \<and>
     (case decode wire of
        Inl _ \<Rightarrow> False
      | Inr frame \<Rightarrow> uint (fr_pid frame) = fi_pid inp \<and> fr_timestamp frame = fi_timestamp inp \<and> fr_nonce frame = fi_nonce inp \<and>
                     uint (fr_payload frame) = fi_payload inp))"

definition error_vector_ok :: "DecodeErrorKind \<times> bytes \<Rightarrow> bool" where
  "error_vector_ok = (\<lambda>(expected, wire). case decode wire of Inl err \<Rightarrow> de_kind err = expected | Inr _ \<Rightarrow> False)"

subsection \<open>Evaluation\<close>

lemma crc_eight_shifts: "crc_shifts 8 c = crc_shift (crc_shift (crc_shift (crc_shift (crc_shift (crc_shift (crc_shift (crc_shift c)))))))"
  by (simp add: numeral_eq_Suc)

lemmas crc_eval = crc32c_def crc_update_shifts crc_eight_shifts crc_shift_def POLY_REFLECTED_def

lemma crc_vector_0: "crc32c [] = 0x00000000"
  by (simp add: crc_eval)

lemma crc_vector_1: "crc32c [0x61] = 0xc1d04330"
  by (simp add: crc_eval)

lemma crc_vector_2: "crc32c [0x31, 0x32, 0x33, 0x34, 0x35, 0x36, 0x37, 0x38, 0x39] = 0xe3069283"
  by (simp add: crc_eval)

lemma crc_vector_3: "crc32c [0x00, 0x00, 0x00, 0x00, 0x00, 0x00, 0x00, 0x00, 0x00, 0x00, 0x00, 0x00, 0x00, 0x00, 0x00, 0x00, 0x00, 0x00, 0x00, 0x00, 0x00, 0x00, 0x00, 0x00, 0x00, 0x00, 0x00, 0x00, 0x00, 0x00, 0x00, 0x00] = 0x8a9136aa"
  by (simp add: crc_eval)

lemma crc_vector_4: "crc32c [0xff, 0xff, 0xff, 0xff, 0xff, 0xff, 0xff, 0xff, 0xff, 0xff, 0xff, 0xff, 0xff, 0xff, 0xff, 0xff, 0xff, 0xff, 0xff, 0xff, 0xff, 0xff, 0xff, 0xff, 0xff, 0xff, 0xff, 0xff, 0xff, 0xff, 0xff, 0xff] = 0x62a8ab43"
  by (simp add: crc_eval)

lemma crc_vectors_ok: "list_all crc_vector_ok crc32c_vectors"
  by (simp only: crc32c_vectors_def crc_vector_ok_def list.pred_inject prod.case crc_vector_0 crc_vector_1 crc_vector_2 crc_vector_3 crc_vector_4 simp_thms)

lemma le_bytes_numeral [simp]: "le_bytes (numeral n) w = ucast w # le_bytes (pred_numeral n) (drop_bit 8 w)"
  by (simp add: numeral_eq_Suc)

lemma status_names:
  "coerceStatus (StatusName ''ok'') = Inr (CStatus Ok)" "coerceStatus (StatusName ''degraded'') = Inr (CStatus Degraded)"
  "coerceStatus (StatusName ''critical'') = Inr (CStatus Critical)"
  by code_simp+

lemma frame_vector_okI:
  assumes "coerceStatus (StatusName (fi_status inp)) = Inr s" and "is_u64 (fi_timestamp inp)" and "is_u64 (fi_nonce inp)"
    and wire: "wire = frame_wire (status_byte s) (word_of_int (fi_pid inp)) (word_of_int (fi_timestamp inp)) (word_of_int (fi_nonce inp)) (word_of_int (fi_payload inp))"
    and "s \<in> {CStatus Ok, CStatus Degraded, CStatus Critical}" and "1 < fi_pid inp" and "fi_pid inp < 2 ^ 32" and "0 \<le> fi_payload inp" and "fi_payload inp < 2 ^ 32"
    and "fi_timestamp inp \<noteq> TIMESTAMP_INVALID" and "fi_nonce inp \<noteq> NONCE_TERMINAL \<or> s = CStatus Critical"
  shows "frame_vector_ok (inp, wire)"
proof -
  have u: "uint (word_of_int (fi_pid inp) :: u32) = fi_pid inp" "uint (word_of_int (fi_payload inp) :: u32) = fi_payload inp"
    using assms(6-9) by (simp_all add: uint_word_of_int)
  then have p: "word_of_int (fi_pid inp) \<noteq> (0 :: u32)" "word_of_int (fi_pid inp) \<noteq> (1 :: u32)"
    using assms(6) by (metis uint_0_eq zero_less_one less_irrefl less_trans, metis uint_1_eq less_irrefl)
  have "encode (StatusName (fi_status inp)) (js_int (fi_pid inp)) (fi_timestamp inp) (fi_nonce inp) (js_int (fi_payload inp)) = Inr wire"
    unfolding encode_iff to_uint32_int using assms(1-4) by blast
  moreover have "decode wire = Inr \<lparr>fr_status = status_of_byte (status_byte s), fr_pid = word_of_int (fi_pid inp), fr_timestamp = fi_timestamp inp,
      fr_nonce = fi_nonce inp, fr_payload = word_of_int (fi_payload inp)\<rparr>"
    unfolding wire decode_frame_wire using assms(5,10,11) p by (auto simp: uint_of_u64 [OF assms(2)] uint_of_u64 [OF assms(3)])
  ultimately show ?thesis using u by (simp add: frame_vector_ok_def)
qed

lemma frame_wire_0:
  "frame_wire 0 2 0 1 0 =
     [0x56, 0x41, 0x02, 0x00, 0x02, 0x00, 0x00, 0x00, 0x00, 0x00, 0x00, 0x00, 0x00, 0x00, 0x00, 0x00, 0x01, 0x00, 0x00, 0x00, 0x00, 0x00, 0x00, 0x00, 0x00, 0x00, 0x00, 0x00, 0xe4, 0x11, 0x6b, 0xaa]"
proof -
  have body: "frame_body 0 2 0 1 0 =
     [0x56, 0x41, 0x02, 0x00, 0x02, 0x00, 0x00, 0x00, 0x00, 0x00, 0x00, 0x00, 0x00, 0x00, 0x00, 0x00, 0x01, 0x00, 0x00, 0x00, 0x00, 0x00, 0x00, 0x00, 0x00, 0x00, 0x00, 0x00]"
    by (simp add: frame_body_def layout_defs)
  have "crc32c [0x56, 0x41, 0x02, 0x00, 0x02, 0x00, 0x00, 0x00, 0x00, 0x00, 0x00, 0x00, 0x00, 0x00, 0x00, 0x00, 0x01, 0x00, 0x00, 0x00, 0x00, 0x00, 0x00, 0x00, 0x00, 0x00, 0x00, 0x00] = 0xaa6b11e4"
    by (simp add: crc_eval)
  then show ?thesis by (simp add: frame_wire_def Let_def body)
qed

lemma frame_wire_1:
  "frame_wire 1 12345 1234567890 100 3735928559 =
     [0x56, 0x41, 0x02, 0x01, 0x39, 0x30, 0x00, 0x00, 0xd2, 0x02, 0x96, 0x49, 0x00, 0x00, 0x00, 0x00, 0x64, 0x00, 0x00, 0x00, 0x00, 0x00, 0x00, 0x00, 0xef, 0xbe, 0xad, 0xde, 0x7b, 0xbc, 0x77, 0x5f]"
proof -
  have body: "frame_body 1 12345 1234567890 100 3735928559 =
     [0x56, 0x41, 0x02, 0x01, 0x39, 0x30, 0x00, 0x00, 0xd2, 0x02, 0x96, 0x49, 0x00, 0x00, 0x00, 0x00, 0x64, 0x00, 0x00, 0x00, 0x00, 0x00, 0x00, 0x00, 0xef, 0xbe, 0xad, 0xde]"
    by (simp add: frame_body_def layout_defs)
  have "crc32c [0x56, 0x41, 0x02, 0x01, 0x39, 0x30, 0x00, 0x00, 0xd2, 0x02, 0x96, 0x49, 0x00, 0x00, 0x00, 0x00, 0x64, 0x00, 0x00, 0x00, 0x00, 0x00, 0x00, 0x00, 0xef, 0xbe, 0xad, 0xde] = 0x5f77bc7b"
    by (simp add: crc_eval)
  then show ?thesis by (simp add: frame_wire_def Let_def body)
qed

lemma frame_wire_2:
  "frame_wire 2 99 10000 5 42 =
     [0x56, 0x41, 0x02, 0x02, 0x63, 0x00, 0x00, 0x00, 0x10, 0x27, 0x00, 0x00, 0x00, 0x00, 0x00, 0x00, 0x05, 0x00, 0x00, 0x00, 0x00, 0x00, 0x00, 0x00, 0x2a, 0x00, 0x00, 0x00, 0x37, 0xec, 0xf6, 0x3f]"
proof -
  have body: "frame_body 2 99 10000 5 42 =
     [0x56, 0x41, 0x02, 0x02, 0x63, 0x00, 0x00, 0x00, 0x10, 0x27, 0x00, 0x00, 0x00, 0x00, 0x00, 0x00, 0x05, 0x00, 0x00, 0x00, 0x00, 0x00, 0x00, 0x00, 0x2a, 0x00, 0x00, 0x00]"
    by (simp add: frame_body_def layout_defs)
  have "crc32c [0x56, 0x41, 0x02, 0x02, 0x63, 0x00, 0x00, 0x00, 0x10, 0x27, 0x00, 0x00, 0x00, 0x00, 0x00, 0x00, 0x05, 0x00, 0x00, 0x00, 0x00, 0x00, 0x00, 0x00, 0x2a, 0x00, 0x00, 0x00] = 0x3ff6ec37"
    by (simp add: crc_eval)
  then show ?thesis by (simp add: frame_wire_def Let_def body)
qed

lemma frame_wire_3:
  "frame_wire 2 2 999 18446744073709551615 0 =
     [0x56, 0x41, 0x02, 0x02, 0x02, 0x00, 0x00, 0x00, 0xe7, 0x03, 0x00, 0x00, 0x00, 0x00, 0x00, 0x00, 0xff, 0xff, 0xff, 0xff, 0xff, 0xff, 0xff, 0xff, 0x00, 0x00, 0x00, 0x00, 0xa2, 0x99, 0xee, 0xed]"
proof -
  have body: "frame_body 2 2 999 18446744073709551615 0 =
     [0x56, 0x41, 0x02, 0x02, 0x02, 0x00, 0x00, 0x00, 0xe7, 0x03, 0x00, 0x00, 0x00, 0x00, 0x00, 0x00, 0xff, 0xff, 0xff, 0xff, 0xff, 0xff, 0xff, 0xff, 0x00, 0x00, 0x00, 0x00]"
    by (simp add: frame_body_def layout_defs)
  have "crc32c [0x56, 0x41, 0x02, 0x02, 0x02, 0x00, 0x00, 0x00, 0xe7, 0x03, 0x00, 0x00, 0x00, 0x00, 0x00, 0x00, 0xff, 0xff, 0xff, 0xff, 0xff, 0xff, 0xff, 0xff, 0x00, 0x00, 0x00, 0x00] = 0xedee99a2"
    by (simp add: crc_eval)
  then show ?thesis by (simp add: frame_wire_def Let_def body)
qed

lemma frame_wire_4:
  "frame_wire 0 3735928559 81985529216486895 1 66 =
     [0x56, 0x41, 0x02, 0x00, 0xef, 0xbe, 0xad, 0xde, 0xef, 0xcd, 0xab, 0x89, 0x67, 0x45, 0x23, 0x01, 0x01, 0x00, 0x00, 0x00, 0x00, 0x00, 0x00, 0x00, 0x42, 0x00, 0x00, 0x00, 0x00, 0xb2, 0x28, 0xb8]"
proof -
  have body: "frame_body 0 3735928559 81985529216486895 1 66 =
     [0x56, 0x41, 0x02, 0x00, 0xef, 0xbe, 0xad, 0xde, 0xef, 0xcd, 0xab, 0x89, 0x67, 0x45, 0x23, 0x01, 0x01, 0x00, 0x00, 0x00, 0x00, 0x00, 0x00, 0x00, 0x42, 0x00, 0x00, 0x00]"
    by (simp add: frame_body_def layout_defs)
  have "crc32c [0x56, 0x41, 0x02, 0x00, 0xef, 0xbe, 0xad, 0xde, 0xef, 0xcd, 0xab, 0x89, 0x67, 0x45, 0x23, 0x01, 0x01, 0x00, 0x00, 0x00, 0x00, 0x00, 0x00, 0x00, 0x42, 0x00, 0x00, 0x00] = 0xb828b200"
    by (simp add: crc_eval)
  then show ?thesis by (simp add: frame_wire_def Let_def body)
qed

lemma frame_wire_5:
  "frame_wire 0 2 1 0 0 =
     [0x56, 0x41, 0x02, 0x00, 0x02, 0x00, 0x00, 0x00, 0x01, 0x00, 0x00, 0x00, 0x00, 0x00, 0x00, 0x00, 0x00, 0x00, 0x00, 0x00, 0x00, 0x00, 0x00, 0x00, 0x00, 0x00, 0x00, 0x00, 0x69, 0x32, 0x59, 0xac]"
proof -
  have body: "frame_body 0 2 1 0 0 =
     [0x56, 0x41, 0x02, 0x00, 0x02, 0x00, 0x00, 0x00, 0x01, 0x00, 0x00, 0x00, 0x00, 0x00, 0x00, 0x00, 0x00, 0x00, 0x00, 0x00, 0x00, 0x00, 0x00, 0x00, 0x00, 0x00, 0x00, 0x00]"
    by (simp add: frame_body_def layout_defs)
  have "crc32c [0x56, 0x41, 0x02, 0x00, 0x02, 0x00, 0x00, 0x00, 0x01, 0x00, 0x00, 0x00, 0x00, 0x00, 0x00, 0x00, 0x00, 0x00, 0x00, 0x00, 0x00, 0x00, 0x00, 0x00, 0x00, 0x00, 0x00, 0x00] = 0xac593269"
    by (simp add: crc_eval)
  then show ?thesis by (simp add: frame_wire_def Let_def body)
qed

lemma error_wire_3:
  "frame_wire 255 2 100 1 0 =
     [0x56, 0x41, 0x02, 0xff, 0x02, 0x00, 0x00, 0x00, 0x64, 0x00, 0x00, 0x00, 0x00, 0x00, 0x00, 0x00, 0x01, 0x00, 0x00, 0x00, 0x00, 0x00, 0x00, 0x00, 0x00, 0x00, 0x00, 0x00, 0x9a, 0x03, 0x66, 0x1d]"
proof -
  have body: "frame_body 255 2 100 1 0 =
     [0x56, 0x41, 0x02, 0xff, 0x02, 0x00, 0x00, 0x00, 0x64, 0x00, 0x00, 0x00, 0x00, 0x00, 0x00, 0x00, 0x01, 0x00, 0x00, 0x00, 0x00, 0x00, 0x00, 0x00, 0x00, 0x00, 0x00, 0x00]"
    by (simp add: frame_body_def layout_defs)
  have "crc32c [0x56, 0x41, 0x02, 0xff, 0x02, 0x00, 0x00, 0x00, 0x64, 0x00, 0x00, 0x00, 0x00, 0x00, 0x00, 0x00, 0x01, 0x00, 0x00, 0x00, 0x00, 0x00, 0x00, 0x00, 0x00, 0x00, 0x00, 0x00] = 0x1d66039a"
    by (simp add: crc_eval)
  then show ?thesis by (simp add: frame_wire_def Let_def body)
qed

lemma error_wire_4:
  "frame_wire 3 2 100 1 0 =
     [0x56, 0x41, 0x02, 0x03, 0x02, 0x00, 0x00, 0x00, 0x64, 0x00, 0x00, 0x00, 0x00, 0x00, 0x00, 0x00, 0x01, 0x00, 0x00, 0x00, 0x00, 0x00, 0x00, 0x00, 0x00, 0x00, 0x00, 0x00, 0xcc, 0xa7, 0xed, 0x1c]"
proof -
  have body: "frame_body 3 2 100 1 0 =
     [0x56, 0x41, 0x02, 0x03, 0x02, 0x00, 0x00, 0x00, 0x64, 0x00, 0x00, 0x00, 0x00, 0x00, 0x00, 0x00, 0x01, 0x00, 0x00, 0x00, 0x00, 0x00, 0x00, 0x00, 0x00, 0x00, 0x00, 0x00]"
    by (simp add: frame_body_def layout_defs)
  have "crc32c [0x56, 0x41, 0x02, 0x03, 0x02, 0x00, 0x00, 0x00, 0x64, 0x00, 0x00, 0x00, 0x00, 0x00, 0x00, 0x00, 0x01, 0x00, 0x00, 0x00, 0x00, 0x00, 0x00, 0x00, 0x00, 0x00, 0x00, 0x00] = 0x1ceda7cc"
    by (simp add: crc_eval)
  then show ?thesis by (simp add: frame_wire_def Let_def body)
qed

lemma error_wire_5:
  "frame_wire 0 0 100 1 0 =
     [0x56, 0x41, 0x02, 0x00, 0x00, 0x00, 0x00, 0x00, 0x64, 0x00, 0x00, 0x00, 0x00, 0x00, 0x00, 0x00, 0x01, 0x00, 0x00, 0x00, 0x00, 0x00, 0x00, 0x00, 0x00, 0x00, 0x00, 0x00, 0x86, 0x08, 0xc3, 0x1f]"
proof -
  have body: "frame_body 0 0 100 1 0 =
     [0x56, 0x41, 0x02, 0x00, 0x00, 0x00, 0x00, 0x00, 0x64, 0x00, 0x00, 0x00, 0x00, 0x00, 0x00, 0x00, 0x01, 0x00, 0x00, 0x00, 0x00, 0x00, 0x00, 0x00, 0x00, 0x00, 0x00, 0x00]"
    by (simp add: frame_body_def layout_defs)
  have "crc32c [0x56, 0x41, 0x02, 0x00, 0x00, 0x00, 0x00, 0x00, 0x64, 0x00, 0x00, 0x00, 0x00, 0x00, 0x00, 0x00, 0x01, 0x00, 0x00, 0x00, 0x00, 0x00, 0x00, 0x00, 0x00, 0x00, 0x00, 0x00] = 0x1fc30886"
    by (simp add: crc_eval)
  then show ?thesis by (simp add: frame_wire_def Let_def body)
qed

lemma error_wire_6:
  "frame_wire 0 1 100 1 0 =
     [0x56, 0x41, 0x02, 0x00, 0x01, 0x00, 0x00, 0x00, 0x64, 0x00, 0x00, 0x00, 0x00, 0x00, 0x00, 0x00, 0x01, 0x00, 0x00, 0x00, 0x00, 0x00, 0x00, 0x00, 0x00, 0x00, 0x00, 0x00, 0x08, 0xca, 0x8c, 0xa5]"
proof -
  have body: "frame_body 0 1 100 1 0 =
     [0x56, 0x41, 0x02, 0x00, 0x01, 0x00, 0x00, 0x00, 0x64, 0x00, 0x00, 0x00, 0x00, 0x00, 0x00, 0x00, 0x01, 0x00, 0x00, 0x00, 0x00, 0x00, 0x00, 0x00, 0x00, 0x00, 0x00, 0x00]"
    by (simp add: frame_body_def layout_defs)
  have "crc32c [0x56, 0x41, 0x02, 0x00, 0x01, 0x00, 0x00, 0x00, 0x64, 0x00, 0x00, 0x00, 0x00, 0x00, 0x00, 0x00, 0x01, 0x00, 0x00, 0x00, 0x00, 0x00, 0x00, 0x00, 0x00, 0x00, 0x00, 0x00] = 0xa58cca08"
    by (simp add: crc_eval)
  then show ?thesis by (simp add: frame_wire_def Let_def body)
qed

lemma error_wire_7:
  "frame_wire 0 2 18446744073709551615 1 0 =
     [0x56, 0x41, 0x02, 0x00, 0x02, 0x00, 0x00, 0x00, 0xff, 0xff, 0xff, 0xff, 0xff, 0xff, 0xff, 0xff, 0x01, 0x00, 0x00, 0x00, 0x00, 0x00, 0x00, 0x00, 0x00, 0x00, 0x00, 0x00, 0x30, 0xdd, 0xde, 0x54]"
proof -
  have body: "frame_body 0 2 18446744073709551615 1 0 =
     [0x56, 0x41, 0x02, 0x00, 0x02, 0x00, 0x00, 0x00, 0xff, 0xff, 0xff, 0xff, 0xff, 0xff, 0xff, 0xff, 0x01, 0x00, 0x00, 0x00, 0x00, 0x00, 0x00, 0x00, 0x00, 0x00, 0x00, 0x00]"
    by (simp add: frame_body_def layout_defs)
  have "crc32c [0x56, 0x41, 0x02, 0x00, 0x02, 0x00, 0x00, 0x00, 0xff, 0xff, 0xff, 0xff, 0xff, 0xff, 0xff, 0xff, 0x01, 0x00, 0x00, 0x00, 0x00, 0x00, 0x00, 0x00, 0x00, 0x00, 0x00, 0x00] = 0x54dedd30"
    by (simp add: crc_eval)
  then show ?thesis by (simp add: frame_wire_def Let_def body)
qed

lemma error_wire_8:
  "frame_wire 0 2 100 18446744073709551615 0 =
     [0x56, 0x41, 0x02, 0x00, 0x02, 0x00, 0x00, 0x00, 0x64, 0x00, 0x00, 0x00, 0x00, 0x00, 0x00, 0x00, 0xff, 0xff, 0xff, 0xff, 0xff, 0xff, 0xff, 0xff, 0x00, 0x00, 0x00, 0x00, 0x8c, 0x28, 0x89, 0xf8]"
proof -
  have body: "frame_body 0 2 100 18446744073709551615 0 =
     [0x56, 0x41, 0x02, 0x00, 0x02, 0x00, 0x00, 0x00, 0x64, 0x00, 0x00, 0x00, 0x00, 0x00, 0x00, 0x00, 0xff, 0xff, 0xff, 0xff, 0xff, 0xff, 0xff, 0xff, 0x00, 0x00, 0x00, 0x00]"
    by (simp add: frame_body_def layout_defs)
  have "crc32c [0x56, 0x41, 0x02, 0x00, 0x02, 0x00, 0x00, 0x00, 0x64, 0x00, 0x00, 0x00, 0x00, 0x00, 0x00, 0x00, 0xff, 0xff, 0xff, 0xff, 0xff, 0xff, 0xff, 0xff, 0x00, 0x00, 0x00, 0x00] = 0xf889288c"
    by (simp add: crc_eval)
  then show ?thesis by (simp add: frame_wire_def Let_def body)
qed

lemma frame_vector_0: "frame_vector_ok (\<lparr>fi_status = ''ok'', fi_pid = 2, fi_timestamp = 0, fi_nonce = 1, fi_payload = 0\<rparr>, [0x56, 0x41, 0x02, 0x00, 0x02, 0x00, 0x00, 0x00, 0x00, 0x00, 0x00, 0x00, 0x00, 0x00, 0x00, 0x00, 0x01, 0x00, 0x00, 0x00, 0x00, 0x00, 0x00, 0x00, 0x00, 0x00, 0x00, 0x00, 0xe4, 0x11, 0x6b, 0xaa])"
  by (rule frame_vector_okI [where s = "CStatus Ok"])
     (simp_all add: status_names is_u64_def TIMESTAMP_INVALID_def NONCE_TERMINAL_def frame_wire_0 del: coerceStatus.simps)

lemma frame_vector_1: "frame_vector_ok (\<lparr>fi_status = ''degraded'', fi_pid = 12345, fi_timestamp = 1234567890, fi_nonce = 100, fi_payload = 3735928559\<rparr>, [0x56, 0x41, 0x02, 0x01, 0x39, 0x30, 0x00, 0x00, 0xd2, 0x02, 0x96, 0x49, 0x00, 0x00, 0x00, 0x00, 0x64, 0x00, 0x00, 0x00, 0x00, 0x00, 0x00, 0x00, 0xef, 0xbe, 0xad, 0xde, 0x7b, 0xbc, 0x77, 0x5f])"
  by (rule frame_vector_okI [where s = "CStatus Degraded"])
     (simp_all add: status_names is_u64_def TIMESTAMP_INVALID_def NONCE_TERMINAL_def frame_wire_1 del: coerceStatus.simps)

lemma frame_vector_2: "frame_vector_ok (\<lparr>fi_status = ''critical'', fi_pid = 99, fi_timestamp = 10000, fi_nonce = 5, fi_payload = 42\<rparr>, [0x56, 0x41, 0x02, 0x02, 0x63, 0x00, 0x00, 0x00, 0x10, 0x27, 0x00, 0x00, 0x00, 0x00, 0x00, 0x00, 0x05, 0x00, 0x00, 0x00, 0x00, 0x00, 0x00, 0x00, 0x2a, 0x00, 0x00, 0x00, 0x37, 0xec, 0xf6, 0x3f])"
  by (rule frame_vector_okI [where s = "CStatus Critical"])
     (simp_all add: status_names is_u64_def TIMESTAMP_INVALID_def NONCE_TERMINAL_def frame_wire_2 del: coerceStatus.simps)

lemma frame_vector_3: "frame_vector_ok (\<lparr>fi_status = ''critical'', fi_pid = 2, fi_timestamp = 999, fi_nonce = 18446744073709551615, fi_payload = 0\<rparr>, [0x56, 0x41, 0x02, 0x02, 0x02, 0x00, 0x00, 0x00, 0xe7, 0x03, 0x00, 0x00, 0x00, 0x00, 0x00, 0x00, 0xff, 0xff, 0xff, 0xff, 0xff, 0xff, 0xff, 0xff, 0x00, 0x00, 0x00, 0x00, 0xa2, 0x99, 0xee, 0xed])"
  by (rule frame_vector_okI [where s = "CStatus Critical"])
     (simp_all add: status_names is_u64_def TIMESTAMP_INVALID_def NONCE_TERMINAL_def frame_wire_3 del: coerceStatus.simps)

lemma frame_vector_4: "frame_vector_ok (\<lparr>fi_status = ''ok'', fi_pid = 3735928559, fi_timestamp = 81985529216486895, fi_nonce = 1, fi_payload = 66\<rparr>, [0x56, 0x41, 0x02, 0x00, 0xef, 0xbe, 0xad, 0xde, 0xef, 0xcd, 0xab, 0x89, 0x67, 0x45, 0x23, 0x01, 0x01, 0x00, 0x00, 0x00, 0x00, 0x00, 0x00, 0x00, 0x42, 0x00, 0x00, 0x00, 0x00, 0xb2, 0x28, 0xb8])"
  by (rule frame_vector_okI [where s = "CStatus Ok"])
     (simp_all add: status_names is_u64_def TIMESTAMP_INVALID_def NONCE_TERMINAL_def frame_wire_4 del: coerceStatus.simps)

lemma frame_vector_5: "frame_vector_ok (\<lparr>fi_status = ''ok'', fi_pid = 2, fi_timestamp = 1, fi_nonce = 0, fi_payload = 0\<rparr>, [0x56, 0x41, 0x02, 0x00, 0x02, 0x00, 0x00, 0x00, 0x01, 0x00, 0x00, 0x00, 0x00, 0x00, 0x00, 0x00, 0x00, 0x00, 0x00, 0x00, 0x00, 0x00, 0x00, 0x00, 0x00, 0x00, 0x00, 0x00, 0x69, 0x32, 0x59, 0xac])"
  by (rule frame_vector_okI [where s = "CStatus Ok"])
     (simp_all add: status_names is_u64_def TIMESTAMP_INVALID_def NONCE_TERMINAL_def frame_wire_5 del: coerceStatus.simps)

lemma frame_vectors_ok: "list_all frame_vector_ok frame_vectors"
  by (simp only: frame_vectors_def list.pred_inject frame_vector_0 frame_vector_1 frame_vector_2 frame_vector_3 frame_vector_4 frame_vector_5 simp_thms)

lemma kind_of [simp]: "de_kind (new_DecodeError k m) = k"
  by (simp add: new_DecodeError_def)

lemma error_vector_0: "error_vector_ok (BadMagic, [0x00, 0x41, 0x02, 0x00, 0x02, 0x00, 0x00, 0x00, 0x64, 0x00, 0x00, 0x00, 0x00, 0x00, 0x00, 0x00, 0x01, 0x00, 0x00, 0x00, 0x00, 0x00, 0x00, 0x00, 0x00, 0x00, 0x00, 0x00, 0x42, 0x17, 0x95, 0xbe])"
  by (simp add: error_vector_ok_def decode_def layout_defs)

lemma error_vector_1: "error_vector_ok (BadVersion, [0x56, 0x41, 0x01, 0x00, 0x02, 0x00, 0x00, 0x00, 0x64, 0x00, 0x00, 0x00, 0x00, 0x00, 0x00, 0x00, 0x01, 0x00, 0x00, 0x00, 0x00, 0x00, 0x00, 0x00, 0x00, 0x00, 0x00, 0x00, 0x7a, 0x77, 0x43, 0x18])"
  by (simp add: error_vector_ok_def decode_def layout_defs)

lemma error_vector_2: "error_vector_ok (BadCrc, [0x56, 0x41, 0x02, 0x00, 0x02, 0x00, 0x00, 0x00, 0x64, 0x00, 0x00, 0x00, 0x00, 0x00, 0x00, 0x00, 0x01, 0x00, 0x00, 0x00, 0x00, 0x00, 0x00, 0x00, 0x00, 0x00, 0x00, 0x00, 0x6b, 0xfb, 0xb0, 0x6f])"
proof -
  have "crc32c [0x56, 0x41, 0x02, 0x00, 0x02, 0x00, 0x00, 0x00, 0x64, 0x00, 0x00, 0x00, 0x00, 0x00, 0x00, 0x00, 0x01, 0x00, 0x00, 0x00, 0x00, 0x00, 0x00, 0x00, 0x00, 0x00, 0x00, 0x00] = 0x6eb0fb6b"
    by (simp add: crc_eval)
  then show ?thesis by (simp add: error_vector_ok_def decode_def layout_defs subarray_def readUInt32LE_def Let_def)
qed

lemma error_vector_3: "error_vector_ok (BadStatus, [0x56, 0x41, 0x02, 0xff, 0x02, 0x00, 0x00, 0x00, 0x64, 0x00, 0x00, 0x00, 0x00, 0x00, 0x00, 0x00, 0x01, 0x00, 0x00, 0x00, 0x00, 0x00, 0x00, 0x00, 0x00, 0x00, 0x00, 0x00, 0x9a, 0x03, 0x66, 0x1d])"
  unfolding error_wire_3 [symmetric] by (simp add: error_vector_ok_def decode_frame_wire TIMESTAMP_INVALID_def NONCE_TERMINAL_def)

lemma error_vector_4: "error_vector_ok (StallOnWire, [0x56, 0x41, 0x02, 0x03, 0x02, 0x00, 0x00, 0x00, 0x64, 0x00, 0x00, 0x00, 0x00, 0x00, 0x00, 0x00, 0x01, 0x00, 0x00, 0x00, 0x00, 0x00, 0x00, 0x00, 0x00, 0x00, 0x00, 0x00, 0xcc, 0xa7, 0xed, 0x1c])"
  unfolding error_wire_4 [symmetric] by (simp add: error_vector_ok_def decode_frame_wire TIMESTAMP_INVALID_def NONCE_TERMINAL_def)

lemma error_vector_5: "error_vector_ok (BadPid, [0x56, 0x41, 0x02, 0x00, 0x00, 0x00, 0x00, 0x00, 0x64, 0x00, 0x00, 0x00, 0x00, 0x00, 0x00, 0x00, 0x01, 0x00, 0x00, 0x00, 0x00, 0x00, 0x00, 0x00, 0x00, 0x00, 0x00, 0x00, 0x86, 0x08, 0xc3, 0x1f])"
  unfolding error_wire_5 [symmetric] by (simp add: error_vector_ok_def decode_frame_wire TIMESTAMP_INVALID_def NONCE_TERMINAL_def)

lemma error_vector_6: "error_vector_ok (BadPid, [0x56, 0x41, 0x02, 0x00, 0x01, 0x00, 0x00, 0x00, 0x64, 0x00, 0x00, 0x00, 0x00, 0x00, 0x00, 0x00, 0x01, 0x00, 0x00, 0x00, 0x00, 0x00, 0x00, 0x00, 0x00, 0x00, 0x00, 0x00, 0x08, 0xca, 0x8c, 0xa5])"
  unfolding error_wire_6 [symmetric] by (simp add: error_vector_ok_def decode_frame_wire TIMESTAMP_INVALID_def NONCE_TERMINAL_def)

lemma error_vector_7: "error_vector_ok (BadTimestamp, [0x56, 0x41, 0x02, 0x00, 0x02, 0x00, 0x00, 0x00, 0xff, 0xff, 0xff, 0xff, 0xff, 0xff, 0xff, 0xff, 0x01, 0x00, 0x00, 0x00, 0x00, 0x00, 0x00, 0x00, 0x00, 0x00, 0x00, 0x00, 0x30, 0xdd, 0xde, 0x54])"
  unfolding error_wire_7 [symmetric] by (simp add: error_vector_ok_def decode_frame_wire TIMESTAMP_INVALID_def NONCE_TERMINAL_def)

lemma error_vector_8: "error_vector_ok (BadNonce, [0x56, 0x41, 0x02, 0x00, 0x02, 0x00, 0x00, 0x00, 0x64, 0x00, 0x00, 0x00, 0x00, 0x00, 0x00, 0x00, 0xff, 0xff, 0xff, 0xff, 0xff, 0xff, 0xff, 0xff, 0x00, 0x00, 0x00, 0x00, 0x8c, 0x28, 0x89, 0xf8])"
  unfolding error_wire_8 [symmetric] by (simp add: error_vector_ok_def decode_frame_wire TIMESTAMP_INVALID_def NONCE_TERMINAL_def)

lemma error_vectors_ok: "list_all error_vector_ok error_vectors"
  by (simp only: error_vectors_def list.pred_inject error_vector_0 error_vector_1 error_vector_2 error_vector_3 error_vector_4 error_vector_5 error_vector_6 error_vector_7 error_vector_8 simp_thms)

subsection \<open>Properties\<close>


end
