(* ===== verification/Node_Crypto.thy ===== *)
theory Node_Crypto
  imports Varta_Prelude
begin

section \<open>The \<open>node:crypto\<close> primitives the client calls\<close>

text \<open>
  HKDF-SHA256 (RFC 5869 over FIPS 180-4) and ChaCha20-Poly1305 (RFC 8439), as executable
  functions on byte lists, written from the standards that Node documents for \<open>hkdfSync\<close> and
  \<open>createCipheriv('chacha20-poly1305')\<close>. The client relies on the contract stated by the
  locale \<open>aead\<close> below, which ChaCha20-Poly1305 is proved to meet, and on the output length of
  HKDF. No secrecy or collision assumption is made anywhere.
\<close>

subsection \<open>SHA-256\<close>

definition rotr :: "nat \<Rightarrow> u32 \<Rightarrow> u32" where
  "rotr n x = drop_bit n x OR push_bit (32 - n) x"

definition be_bytes :: "nat \<Rightarrow> 'a::len word \<Rightarrow> bytes" where
  "be_bytes n w = rev (le_bytes n w)"

definition be_word :: "bytes \<Rightarrow> 'a::len word" where
  "be_word bs = le_word (rev bs)"

text \<open>FIPS 180-4 defines the constants as the first 32 bits of the fractional parts of the roots
  of the first primes: cube roots for the rounds, square roots for the initial state. The root
  is found bit by bit, from the top.\<close>

fun root_bits :: "nat \<Rightarrow> int \<Rightarrow> nat \<Rightarrow> int \<Rightarrow> int" where
  "root_bits e n 0 r = r"
| "root_bits e n (Suc k) r = root_bits e n k (if (r + 2 ^ k) ^ e \<le> n then r + 2 ^ k else r)"

definition small_primes :: "int list" where
  "small_primes = filter (\<lambda>p. \<forall>d \<in> set [2..p - 1]. p mod d \<noteq> 0) [2..311]"

definition sha256_k :: "u32 list" where
  "sha256_k = map (\<lambda>p. word_of_int (root_bits 3 (p * 2 ^ 96) 35 0)) small_primes"

definition sha256_init :: "u32 list" where
  "sha256_init = map (\<lambda>p. word_of_int (root_bits 2 (p * 2 ^ 64) 35 0)) [2, 3, 5, 7, 11, 13, 17, 19]"

fun chunks :: "nat \<Rightarrow> 'a list \<Rightarrow> 'a list list" where
  "chunks n xs = (if n = 0 \<or> xs = [] then [] else take n xs # chunks n (drop n xs))"

declare chunks.simps [simp del]

definition sha256_pad :: "bytes \<Rightarrow> bytes" where
  "sha256_pad m =
     m @ [0x80] @ replicate ((119 - length m mod 64) mod 64) 0 @ be_bytes 8 (of_nat (8 * length m) :: u64)"

fun sha256_schedule :: "nat \<Rightarrow> u32 list \<Rightarrow> u32 list" where
  "sha256_schedule 0 ws = ws"
| "sha256_schedule (Suc k) ws =
     (let t = length ws;
          x = ws ! (t - 15); y = ws ! (t - 2);
          s0 = rotr 7 x XOR rotr 18 x XOR drop_bit 3 x;
          s1 = rotr 17 y XOR rotr 19 y XOR drop_bit 10 y
      in sha256_schedule k (ws @ [s1 + ws ! (t - 7) + s0 + ws ! (t - 16)]))"

fun sha256_round :: "u32 list \<Rightarrow> u32 \<times> u32 \<Rightarrow> u32 list" where
  "sha256_round [a, b, c, d, e, f, g, h] (k, w) =
     (let s1 = rotr 6 e XOR rotr 11 e XOR rotr 25 e;
          ch = (e AND f) XOR (NOT e AND g);
          t1 = h + s1 + ch + k + w;
          s0 = rotr 2 a XOR rotr 13 a XOR rotr 22 a;
          maj = (a AND b) XOR (a AND c) XOR (b AND c);
          t2 = s0 + maj
      in [t1 + t2, a, b, c, d + t1, e, f, g])"
| "sha256_round st _ = st"

definition sha256_compress :: "u32 list \<Rightarrow> bytes \<Rightarrow> u32 list" where
  "sha256_compress st block =
     (let ws = sha256_schedule 48 (map be_word (chunks 4 block))
      in map2 (+) st (foldl sha256_round st (zip sha256_k ws)))"

definition sha256 :: "bytes \<Rightarrow> bytes" where
  "sha256 m = concat (map (be_bytes 4) (foldl sha256_compress sha256_init (chunks 64 (sha256_pad m))))"

subsection \<open>HMAC and HKDF\<close>

definition hmac_sha256 :: "bytes \<Rightarrow> bytes \<Rightarrow> bytes" where
  "hmac_sha256 key m =
     (let k0 = (if 64 < length key then sha256 key else key);
          k = k0 @ replicate (64 - length k0) 0
      in sha256 (map (\<lambda>b. b XOR 0x5c) k @ sha256 (map (\<lambda>b. b XOR 0x36) k @ m)))"

fun hkdf_expand :: "nat \<Rightarrow> byte \<Rightarrow> bytes \<Rightarrow> bytes \<Rightarrow> bytes \<Rightarrow> bytes" where
  "hkdf_expand 0 i prk info prev = []"
| "hkdf_expand (Suc n) i prk info prev =
     (let t = hmac_sha256 prk (prev @ info @ [i]) in t @ hkdf_expand n (i + 1) prk info t)"

definition hkdfSync :: "bytes \<Rightarrow> bytes \<Rightarrow> bytes \<Rightarrow> nat \<Rightarrow> bytes" where
  "hkdfSync ikm salt info len =
     take len (hkdf_expand ((len + 31) div 32) 1 (hmac_sha256 salt ikm) info [])"

subsection \<open>ChaCha20\<close>

definition rotl :: "nat \<Rightarrow> u32 \<Rightarrow> u32" where
  "rotl n x = push_bit n x OR drop_bit (32 - n) x"

definition quarter_round :: "nat \<Rightarrow> nat \<Rightarrow> nat \<Rightarrow> nat \<Rightarrow> u32 list \<Rightarrow> u32 list" where
  "quarter_round i j k l s =
     (let a = s ! i; b = s ! j; c = s ! k; d = s ! l;
          a = a + b; d = rotl 16 (d XOR a);
          c = c + d; b = rotl 12 (b XOR c);
          a = a + b; d = rotl 8 (d XOR a);
          c = c + d; b = rotl 7 (b XOR c)
      in s[i := a, j := b, k := c, l := d])"

definition double_round :: "u32 list \<Rightarrow> u32 list" where
  "double_round s =
     (let s = quarter_round 0 4 8 12 s; s = quarter_round 1 5 9 13 s;
          s = quarter_round 2 6 10 14 s; s = quarter_round 3 7 11 15 s;
          s = quarter_round 0 5 10 15 s; s = quarter_round 1 6 11 12 s;
          s = quarter_round 2 7 8 13 s
      in quarter_round 3 4 9 14 s)"

definition chacha20_block :: "bytes \<Rightarrow> u32 \<Rightarrow> bytes \<Rightarrow> bytes" where
  "chacha20_block key counter nonce =
     (let st = [0x61707865, 0x3320646e, 0x79622d32, 0x6b206574] @ map le_word (chunks 4 key)
                 @ [counter] @ map le_word (chunks 4 nonce)
      in concat (map (le_bytes 4) (map2 (+) st ((double_round ^^ 10) st))))"

definition chacha20_stream :: "bytes \<Rightarrow> u32 \<Rightarrow> bytes \<Rightarrow> nat \<Rightarrow> bytes" where
  "chacha20_stream key counter nonce n =
     take n (concat (map (\<lambda>i. chacha20_block key (counter + of_nat i) nonce) [0..<(n + 63) div 64]))"

definition chacha20_xor :: "bytes \<Rightarrow> u32 \<Rightarrow> bytes \<Rightarrow> bytes \<Rightarrow> bytes" where
  "chacha20_xor key counter nonce m = map2 (XOR) m (chacha20_stream key counter nonce (length m))"

subsection \<open>Poly1305 and the AEAD\<close>

fun le_nat :: "bytes \<Rightarrow> nat" where
  "le_nat [] = 0"
| "le_nat (b # bs) = unat b + 256 * le_nat bs"

definition poly1305_mac :: "bytes \<Rightarrow> bytes \<Rightarrow> bytes" where
  "poly1305_mac otk m =
     (let r = and (le_nat (take 16 otk)) 0x0ffffffc0ffffffc0ffffffc0fffffff;
          s = le_nat (take 16 (drop 16 otk));
          acc = foldl (\<lambda>a blk. ((a + le_nat (blk @ [1])) * r) mod (2 ^ 130 - 5)) 0 (chunks 16 m)
      in le_bytes 16 (of_nat (acc + s) :: 128 word))"

definition pad16 :: "bytes \<Rightarrow> bytes" where
  "pad16 x = replicate ((16 - length x mod 16) mod 16) 0"

definition poly1305_tag :: "bytes \<Rightarrow> bytes \<Rightarrow> bytes \<Rightarrow> bytes \<Rightarrow> bytes" where
  "poly1305_tag key nonce aad ct =
     poly1305_mac (take 32 (chacha20_block key 0 nonce))
       (aad @ pad16 aad @ ct @ pad16 ct @ le_bytes 8 (of_nat (length aad) :: u64)
          @ le_bytes 8 (of_nat (length ct) :: u64))"

text \<open>\<open>chacha20_poly1305_seal\<close> returns the ciphertext followed by the 16-byte tag.\<close>

definition chacha20_poly1305_seal :: "bytes \<Rightarrow> bytes \<Rightarrow> bytes \<Rightarrow> bytes \<Rightarrow> bytes" where
  "chacha20_poly1305_seal key nonce aad pt =
     (let ct = chacha20_xor key 1 nonce pt in ct @ poly1305_tag key nonce aad ct)"

definition chacha20_poly1305_open :: "bytes \<Rightarrow> bytes \<Rightarrow> bytes \<Rightarrow> bytes \<Rightarrow> bytes option" where
  "chacha20_poly1305_open key nonce aad ct_tag =
     (if length ct_tag < 16 then None
      else let ct = take (length ct_tag - 16) ct_tag; tag = drop (length ct_tag - 16) ct_tag
           in if tag = poly1305_tag key nonce aad ct then Some (chacha20_xor key 1 nonce ct) else None)"

subsection \<open>Output lengths\<close>

lemma length_concat_const:
  "(\<And>x. x \<in> set xs \<Longrightarrow> length (f x) = n) \<Longrightarrow> length (concat (map f xs)) = n * length xs"
  by (induction xs) simp_all

lemma length_chunks_exact: "0 < n \<Longrightarrow> length xs = n * k \<Longrightarrow> length (chunks n xs) = k"
proof (induction k arbitrary: xs)
  case 0
  then show ?case by (simp add: chunks.simps)
next
  case (Suc k)
  have "length (chunks n (drop n xs)) = k"
    by (rule Suc.IH) (use Suc.prems in simp_all)
  with Suc.prems show ?case by (subst chunks.simps) auto
qed

lemma length_be_bytes [simp]: "length (be_bytes n w) = n"
  by (simp add: be_bytes_def)

lemma length_sha256_round: "length st = 8 \<Longrightarrow> length (sha256_round st kw) = 8"
proof -
  assume "length st = 8"
  then obtain a b c d e f g h where "st = [a, b, c, d, e, f, g, h]"
    by (auto simp: numeral_eq_Suc length_Suc_conv)
  then show ?thesis by (cases kw) (simp add: Let_def)
qed

lemma length_sha256_rounds: "length st = 8 \<Longrightarrow> length (foldl sha256_round st kws) = 8"
  by (induction kws arbitrary: st) (simp_all add: length_sha256_round)

lemma length_sha256_blocks: "length st = 8 \<Longrightarrow> length (foldl sha256_compress st bs) = 8"
  by (induction bs arbitrary: st) (simp_all add: sha256_compress_def Let_def length_sha256_rounds)

lemma length_sha256: "length (sha256 m) = 32"
proof -
  have "length (foldl sha256_compress sha256_init (chunks 64 (sha256_pad m))) = 8"
    by (rule length_sha256_blocks) (simp add: sha256_init_def)
  then show ?thesis
    unfolding sha256_def by (subst length_concat_const [where n = 4]) simp_all
qed

lemma length_hmac_sha256: "length (hmac_sha256 key m) = 32"
  by (simp add: hmac_sha256_def Let_def length_sha256)

lemma length_hkdf_expand: "length (hkdf_expand n i prk info prev) = 32 * n"
  by (induction n arbitrary: i prev) (simp_all add: Let_def length_hmac_sha256)

lemma length_hkdfSync [simp]: "length (hkdfSync ikm salt info len) = len"
proof -
  have "len \<le> 32 * ((len + 31) div 32)" by presburger
  then show ?thesis by (simp add: hkdfSync_def length_hkdf_expand)
qed

lemma length_quarter_round [simp]: "length (quarter_round i j k l s) = length s"
  by (simp add: quarter_round_def Let_def)

lemma length_double_round [simp]: "length (double_round s) = length s"
  by (simp add: double_round_def Let_def)

lemma length_double_rounds [simp]: "length ((double_round ^^ n) s) = length s"
  by (induction n) simp_all

lemma length_chacha20_block:
  "length key = 32 \<Longrightarrow> length nonce = 12 \<Longrightarrow> length (chacha20_block key counter nonce) = 64"
  unfolding chacha20_block_def Let_def
  by (subst length_concat_const [where n = 4]) (simp_all add: length_chunks_exact)

lemma length_chacha20_stream:
  "length key = 32 \<Longrightarrow> length nonce = 12 \<Longrightarrow> length (chacha20_stream key counter nonce n) = n"
proof -
  assume "length key = 32" "length nonce = 12"
  then have "length (concat (map (\<lambda>i. chacha20_block key (counter + of_nat i) nonce) [0..<(n + 63) div 64]))
      = 64 * ((n + 63) div 64)"
    by (subst length_concat_const [where n = 64]) (simp_all add: length_chacha20_block)
  moreover have "n \<le> 64 * ((n + 63) div 64)" by presburger
  ultimately show ?thesis by (simp add: chacha20_stream_def)
qed

lemma length_chacha20_xor:
  "length key = 32 \<Longrightarrow> length nonce = 12 \<Longrightarrow> length (chacha20_xor key counter nonce m) = length m"
  by (simp add: chacha20_xor_def length_chacha20_stream)

lemma map2_xor_twice:
  "length ks = length m \<Longrightarrow> map2 (XOR) (map2 (XOR) m ks) ks = (m :: bytes)"
  by (induction m ks rule: list_induct2') (simp_all add: xor.assoc)

lemma chacha20_xor_twice:
  "length key = 32 \<Longrightarrow> length nonce = 12 \<Longrightarrow>
     chacha20_xor key counter nonce (chacha20_xor key counter nonce m) = m"
  by (simp add: chacha20_xor_def length_chacha20_stream map2_xor_twice)

lemma length_poly1305_tag [simp]: "length (poly1305_tag key nonce aad ct) = 16"
  by (simp add: poly1305_tag_def poly1305_mac_def Let_def)

subsection \<open>The AEAD contract\<close>

text \<open>
  What the frame codecs rely on: the sealed text is 16 bytes longer than the plain text,
  opening a sealed text returns the plain text, and only sealed texts open.
\<close>

locale aead =
  fixes seal :: "bytes \<Rightarrow> bytes \<Rightarrow> bytes \<Rightarrow> bytes \<Rightarrow> bytes"
    and open_sealed :: "bytes \<Rightarrow> bytes \<Rightarrow> bytes \<Rightarrow> bytes \<Rightarrow> bytes option"
  assumes length_seal:
      "length key = 32 \<Longrightarrow> length nonce = 12 \<Longrightarrow> length (seal key nonce aad pt) = length pt + 16"
    and open_seal:
      "length key = 32 \<Longrightarrow> length nonce = 12 \<Longrightarrow> open_sealed key nonce aad (seal key nonce aad pt) = Some pt"
    and seal_open:
      "length key = 32 \<Longrightarrow> length nonce = 12 \<Longrightarrow> open_sealed key nonce aad c = Some pt \<Longrightarrow>
         seal key nonce aad pt = c"
begin

lemma open_iff:
  "length key = 32 \<Longrightarrow> length nonce = 12 \<Longrightarrow>
     open_sealed key nonce aad c = Some pt \<longleftrightarrow> c = seal key nonce aad pt"
  using open_seal seal_open by blast

lemma seal_inj:
  "length key = 32 \<Longrightarrow> length nonce = 12 \<Longrightarrow>
     seal key nonce aad pt = seal key nonce aad pt' \<longleftrightarrow> pt = pt'"
  using open_seal by (metis option.inject)

lemma open_length:
  "length key = 32 \<Longrightarrow> length nonce = 12 \<Longrightarrow> open_sealed key nonce aad c = Some pt \<Longrightarrow>
     length c = length pt + 16"
  using open_iff length_seal by metis

end

interpretation chacha: aead chacha20_poly1305_seal chacha20_poly1305_open
proof
  fix key nonce aad pt c :: bytes
  assume len: "length key = 32" "length nonce = 12"
  show "length (chacha20_poly1305_seal key nonce aad pt) = length pt + 16"
    using len by (simp add: chacha20_poly1305_seal_def Let_def length_chacha20_xor)
  show "chacha20_poly1305_open key nonce aad (chacha20_poly1305_seal key nonce aad pt) = Some pt"
    using len
    by (simp add: chacha20_poly1305_seal_def chacha20_poly1305_open_def Let_def chacha20_xor_twice)
  show "chacha20_poly1305_seal key nonce aad pt = c"
    if "chacha20_poly1305_open key nonce aad c = Some pt"
  proof -
    let ?ct = "take (length c - 16) c" and ?tag = "drop (length c - 16) c"
    from that have pt: "pt = chacha20_xor key 1 nonce ?ct" and tag: "?tag = poly1305_tag key nonce aad ?ct"
      by (auto simp: chacha20_poly1305_open_def Let_def split: if_splits)
    have "chacha20_xor key 1 nonce pt = ?ct"
      using len by (simp add: pt chacha20_xor_twice)
    then have "chacha20_poly1305_seal key nonce aad pt = ?ct @ ?tag"
      by (simp add: chacha20_poly1305_seal_def Let_def tag)
    then show ?thesis by simp
  qed
qed

end
