(* ===== verification/Vlp_Secure.thy ===== *)
theory Vlp_Secure
  imports Node_Crypto
begin

section \<open>Secure frames (\<open>clients/node/src/vlp_secure.ts\<close>)\<close>

text \<open>
  Key derivation, nonce construction and the two sealed wire formats. The lemmas give the wire
  layout on every branch, that decoding inverts encoding and accepts nothing else, and that
  the key-derivation inputs of the four derivations never coincide.
\<close>

subsection \<open>Layout constants\<close>

definition SECURE_SHARED_BYTES :: nat where [layout_defs]: "SECURE_SHARED_BYTES = 60"
definition SECURE_MASTER_BYTES :: nat where [layout_defs]: "SECURE_MASTER_BYTES = 64"
definition KEY_BYTES :: nat where [layout_defs]: "KEY_BYTES = 32"
definition IV_RANDOM_BYTES :: nat where [layout_defs]: "IV_RANDOM_BYTES = 8"
definition IV_COUNTER_BYTES :: nat where [layout_defs]: "IV_COUNTER_BYTES = 4"
definition TAG_BYTES :: nat where [layout_defs]: "TAG_BYTES = 16"
definition PLAINTEXT_BYTES :: nat where [layout_defs]: "PLAINTEXT_BYTES = 32"
definition SESSION_SALT_BYTES :: nat where [layout_defs]: "SESSION_SALT_BYTES = 16"

subsection \<open>Key derivation\<close>

definition hkdfSha256 :: "bytes \<Rightarrow> bytes \<Rightarrow> bytes \<Rightarrow> nat \<Rightarrow> bytes" where
  "hkdfSha256 ikm salt info len = hkdfSync ikm salt info len"

definition must_be_bytes :: "string \<Rightarrow> nat \<Rightarrow> js_error" where
  "must_be_bytes what n = new_RangeError (what @ '' must be '' @ int_string (int n) @ '' bytes'')"

definition deriveAgentKey :: "bytes \<Rightarrow> jsnum \<Rightarrow> js_error + bytes" where
  "deriveAgentKey masterKey agentId =
     (if length masterKey \<noteq> KEY_BYTES then Inl (must_be_bytes ''masterKey'' KEY_BYTES)
      else let label = ''varta-agent-v1'' @ [CHR 0x00];
               info = buffer_copy (latin1 label) (buffer_alloc (length label + 4)) 0
           in js_bind (writeUInt32LE info (to_uint32 agentId) (length label))
                (\<lambda>info. Inr (hkdfSha256 masterKey (buffer_alloc 0) info KEY_BYTES)))"

definition deriveIvPrefix :: "bytes \<Rightarrow> jsnum \<Rightarrow> js_error + bytes" where
  "deriveIvPrefix sessionSalt prefixIndex =
     (if length sessionSalt \<noteq> SESSION_SALT_BYTES then Inl (must_be_bytes ''sessionSalt'' SESSION_SALT_BYTES)
      else let label = ''varta-iv-prefix-v1'' @ [CHR 0x00];
               info = buffer_copy (latin1 label) (buffer_alloc (length label + 4)) 0
           in js_bind (writeUInt32LE info (to_uint32 prefixIndex) (length label))
                (\<lambda>info. Inr (hkdfSha256 sessionSalt (buffer_alloc 0) info IV_RANDOM_BYTES)))"

definition derivePanicIvPrefix :: "bytes \<Rightarrow> jsnum \<Rightarrow> int \<Rightarrow> jsnum \<Rightarrow> js_error + bytes" where
  "derivePanicIvPrefix sessionSalt panicPid timestamp ivCounter =
     (if length sessionSalt \<noteq> SESSION_SALT_BYTES then Inl (must_be_bytes ''sessionSalt'' SESSION_SALT_BYTES)
      else let label = ''varta-panic-iv-v1'' @ [CHR 0x00];
               info = buffer_copy (latin1 label) (buffer_alloc (length label + 4 + 8 + 4)) 0
           in js_bind (writeUInt32LE info (to_uint32 panicPid) (length label)) (\<lambda>info.
              js_bind (writeBigUInt64LE info (and timestamp 0xffffffffffffffff) (length label + 4)) (\<lambda>info.
              js_bind (writeUInt32LE info (to_uint32 ivCounter) (length label + 12)) (\<lambda>info.
                Inr (hkdfSha256 sessionSalt (buffer_alloc 0) info IV_RANDOM_BYTES)))))"

definition deriveEpochKey :: "bytes \<Rightarrow> int \<Rightarrow> js_error + bytes" where
  "deriveEpochKey agentKey epoch =
     (if length agentKey \<noteq> KEY_BYTES then Inl (must_be_bytes ''agentKey'' KEY_BYTES)
      else let label = ''varta-epoch-v1'' @ [CHR 0x00];
               info = buffer_copy (latin1 label) (buffer_alloc (length label + 8)) 0
           in js_bind (writeBigUInt64LE info epoch (length label))
                (\<lambda>info. Inr (hkdfSha256 agentKey (buffer_alloc 0) info KEY_BYTES)))"

subsection \<open>Nonce and AEAD\<close>

definition buildNonce :: "bytes \<Rightarrow> jsnum \<Rightarrow> js_error + bytes" where
  "buildNonce ivRandom ivCounter =
     writeUInt32LE (buffer_copy (subarray ivRandom 0 IV_RANDOM_BYTES) (buffer_alloc 12) 0)
       (to_uint32 ivCounter) IV_RANDOM_BYTES"

definition ERR_CRYPTO_INVALID_KEYLEN :: js_error where
  "ERR_CRYPTO_INVALID_KEYLEN = node_RangeError ''ERR_CRYPTO_INVALID_KEYLEN'' ''Invalid key length''"

text \<open>The callers pass the 12-byte nonce of \<open>buildNonce\<close>; a missing AAD is an empty one.\<close>

definition aeadSeal :: "bytes \<Rightarrow> bytes \<Rightarrow> bytes option \<Rightarrow> bytes \<Rightarrow> js_error + bytes" where
  "aeadSeal key nonce aad plaintext =
     (if length key \<noteq> KEY_BYTES then Inl ERR_CRYPTO_INVALID_KEYLEN
      else Inr (chacha20_poly1305_seal key nonce (case aad of None \<Rightarrow> [] | Some a \<Rightarrow> a) plaintext))"

definition aeadOpen :: "bytes \<Rightarrow> bytes \<Rightarrow> bytes option \<Rightarrow> bytes \<Rightarrow> js_error + bytes" where
  "aeadOpen key nonce aad ctAndTag =
     (if length ctAndTag < TAG_BYTES then Inl (new_Error ''ciphertext shorter than authentication tag'')
      else let ct = subarray ctAndTag 0 (length ctAndTag - TAG_BYTES);
               tag = subarray ctAndTag (length ctAndTag - TAG_BYTES) (length ctAndTag)
           in if length key \<noteq> KEY_BYTES then Inl ERR_CRYPTO_INVALID_KEYLEN
              else case chacha20_poly1305_open key nonce (case aad of None \<Rightarrow> [] | Some a \<Rightarrow> a) (ct @ tag) of
                     None \<Rightarrow> Inl (new_Error ''Unsupported state or unable to authenticate data'')
                   | Some pt \<Rightarrow> Inr pt)"

subsection \<open>Shared-key frames\<close>

definition encodeShared :: "bytes \<Rightarrow> bytes \<Rightarrow> jsnum \<Rightarrow> bytes \<Rightarrow> js_error + bytes" where
  "encodeShared key ivRandom ivCounter plaintext =
     (if length key \<noteq> KEY_BYTES then Inl (must_be_bytes ''key'' KEY_BYTES)
      else if length ivRandom \<noteq> IV_RANDOM_BYTES then Inl (must_be_bytes ''ivRandom'' IV_RANDOM_BYTES)
      else if length plaintext \<noteq> PLAINTEXT_BYTES then Inl (new_RangeError ''plaintext must be a 32-byte VLP frame'')
      else js_bind (buildNonce ivRandom ivCounter) (\<lambda>nonce.
           js_bind (aeadSeal key nonce None plaintext) (\<lambda>ctAndTag.
           js_bind (writeUInt32LE (buffer_copy ivRandom (buffer_alloc SECURE_SHARED_BYTES) 0)
                      (to_uint32 ivCounter) IV_RANDOM_BYTES) (\<lambda>wire.
             Inr (buffer_copy ctAndTag wire (IV_RANDOM_BYTES + IV_COUNTER_BYTES))))))"

definition decodeShared :: "bytes \<Rightarrow> bytes \<Rightarrow> js_error + bytes" where
  "decodeShared key wire =
     (if length wire \<noteq> SECURE_SHARED_BYTES then Inl (must_be_bytes ''wire'' SECURE_SHARED_BYTES)
      else let ivRandom = subarray wire 0 IV_RANDOM_BYTES;
               ivCounter = readUInt32LE wire IV_RANDOM_BYTES;
               ctAndTag = subarray wire (IV_RANDOM_BYTES + IV_COUNTER_BYTES) (length wire)
           in js_bind (buildNonce ivRandom (js_int (uint ivCounter))) (\<lambda>nonce.
              aeadOpen key nonce None ctAndTag))"

subsection \<open>Master-key frames\<close>

definition encodeMaster :: "bytes \<Rightarrow> jsnum \<Rightarrow> bytes \<Rightarrow> jsnum \<Rightarrow> bytes \<Rightarrow> js_error + bytes" where
  "encodeMaster masterKey agentPid ivRandom ivCounter plaintext =
     (if length masterKey \<noteq> KEY_BYTES then Inl (must_be_bytes ''masterKey'' KEY_BYTES)
      else if length ivRandom \<noteq> IV_RANDOM_BYTES then Inl (must_be_bytes ''ivRandom'' IV_RANDOM_BYTES)
      else if length plaintext \<noteq> PLAINTEXT_BYTES then Inl (new_RangeError ''plaintext must be a 32-byte VLP frame'')
      else js_bind (deriveAgentKey masterKey agentPid) (\<lambda>agentKey.
           js_bind (writeUInt32LE (buffer_alloc 4) (to_uint32 agentPid) 0) (\<lambda>aad.
           js_bind (buildNonce ivRandom ivCounter) (\<lambda>nonce.
           js_bind (aeadSeal agentKey nonce (Some aad) plaintext) (\<lambda>ctAndTag.
           js_bind (writeUInt32LE
                      (buffer_copy ivRandom (buffer_copy aad (buffer_alloc SECURE_MASTER_BYTES) 0) 4)
                      (to_uint32 ivCounter) (4 + IV_RANDOM_BYTES)) (\<lambda>wire.
             Inr (buffer_copy ctAndTag wire (4 + IV_RANDOM_BYTES + IV_COUNTER_BYTES))))))))"

definition decodeMaster :: "bytes \<Rightarrow> bytes \<Rightarrow> js_error + bytes" where
  "decodeMaster masterKey wire =
     (if length wire \<noteq> SECURE_MASTER_BYTES then Inl (must_be_bytes ''wire'' SECURE_MASTER_BYTES)
      else let aad = subarray wire 0 4;
               agentPid = readUInt32LE wire 0;
               ivRandom = subarray wire 4 (4 + IV_RANDOM_BYTES);
               ivCounter = readUInt32LE wire (4 + IV_RANDOM_BYTES);
               ctAndTag = subarray wire (4 + IV_RANDOM_BYTES + IV_COUNTER_BYTES) (length wire)
           in js_bind (deriveAgentKey masterKey (js_int (uint agentPid))) (\<lambda>agentKey.
              js_bind (buildNonce ivRandom (js_int (uint ivCounter))) (\<lambda>nonce.
              aeadOpen agentKey nonce (Some aad) ctAndTag)))"

subsection \<open>Key-derivation inputs\<close>

text \<open>The \<open>info\<close> string of each derivation: the versioned label, a NUL, the parameters.\<close>

definition kdf_info :: "string \<Rightarrow> bytes \<Rightarrow> bytes" where
  "kdf_info label params = latin1 (label @ [CHR 0x00]) @ params"

lemma info_u32:
  assumes "n = length l + 4"
  shows "writeUInt32LE (buffer_copy (latin1 l) (buffer_alloc n) 0) v (length l) = Inr (latin1 l @ le_bytes 4 v)"
  using assms writeUInt32LE_next [of "latin1 l" "length l" "buffer_alloc n" v]
  by (simp add: buffer_copy_first length_buffer_alloc)

lemma info_u64:
  assumes "n = length l + 8"
  shows "writeBigUInt64LE (buffer_copy (latin1 l) (buffer_alloc n) 0) v (length l) =
     (if v < 0 \<or> 2 ^ 64 \<le> v then Inl ERR_OUT_OF_RANGE else Inr (latin1 l @ le_bytes 8 (word_of_int v :: u64)))"
  using assms writeBigUInt64LE_next [of "latin1 l" "length l" "buffer_alloc n" v]
  by (simp add: buffer_copy_first length_buffer_alloc)

lemma deriveAgentKey_eq:
  "deriveAgentKey mk agentId =
     (if length mk \<noteq> 32 then Inl (must_be_bytes ''masterKey'' 32)
      else Inr (hkdfSync mk [] (kdf_info ''varta-agent-v1'' (le_bytes 4 (to_uint32 agentId))) 32))"
  by (simp only: deriveAgentKey_def Let_def info_u32 js_bind_simps kdf_info_def KEY_BYTES_def
      hkdfSha256_def buffer_alloc_0 append_assoc)

lemma deriveIvPrefix_eq:
  "deriveIvPrefix salt ix =
     (if length salt \<noteq> 16 then Inl (must_be_bytes ''sessionSalt'' 16)
      else Inr (hkdfSync salt [] (kdf_info ''varta-iv-prefix-v1'' (le_bytes 4 (to_uint32 ix))) 8))"
  by (simp only: deriveIvPrefix_def Let_def info_u32 js_bind_simps kdf_info_def SESSION_SALT_BYTES_def
      IV_RANDOM_BYTES_def hkdfSha256_def buffer_alloc_0 append_assoc)

lemma deriveEpochKey_eq:
  "deriveEpochKey k epoch =
     (if length k \<noteq> 32 then Inl (must_be_bytes ''agentKey'' 32)
      else if epoch < 0 \<or> 2 ^ 64 \<le> epoch then Inl ERR_OUT_OF_RANGE
      else Inr (hkdfSync k [] (kdf_info ''varta-epoch-v1'' (le_bytes 8 (word_of_int epoch :: u64))) 32))"
  by (simp only: deriveEpochKey_def Let_def info_u64 kdf_info_def KEY_BYTES_def
      hkdfSha256_def buffer_alloc_0 append_assoc) simp

lemma and_mask64: "and n 0xffffffffffffffff = n mod 2 ^ 64" for n :: int
  using take_bit_eq_mask [of 64 n] by (simp add: take_bit_eq_mod mask_eq_exp_minus_1)

lemma info_panic:
  "js_bind (writeUInt32LE (buffer_copy (latin1 l) (buffer_alloc (length l + 4 + 8 + 4)) 0) p (length l)) (\<lambda>info.
   js_bind (writeBigUInt64LE info (and ts 0xffffffffffffffff) (length l + 4)) (\<lambda>info.
   js_bind (writeUInt32LE info c (length l + 12)) f)) =
   f (latin1 l @ le_bytes 4 p @ le_bytes 8 (word_of_int ts :: u64) @ le_bytes 4 c)"
proof -
  let ?z = "buffer_alloc (length l + 4 + 8 + 4)"
  let ?p1 = "latin1 l @ le_bytes 4 p"
  let ?p2 = "?p1 @ le_bytes 8 (word_of_int ts :: u64)"
  have z: "length ?z = length l + 16" by (simp add: length_buffer_alloc)
  have c: "buffer_copy (latin1 l) ?z 0 = latin1 l @ drop (length l) ?z"
    using buffer_copy_first [of "latin1 l" ?z] z by simp
  have w1: "writeUInt32LE (latin1 l @ drop (length l) ?z) p (length l) = Inr (?p1 @ drop (length l + 4) ?z)"
    by (rule writeUInt32LE_next) (simp_all add: length_buffer_alloc)
  have ts: "(word_of_int (ts mod 2 ^ 64) :: u64) = word_of_int ts"
    by transfer (simp add: take_bit_eq_mod)
  have w2: "writeBigUInt64LE (?p1 @ drop (length l + 4) ?z) (ts mod 2 ^ 64) (length l + 4) =
      Inr (?p2 @ drop (length l + 12) ?z)"
  proof -
    have "\<not> (ts mod 2 ^ 64 < 0 \<or> 2 ^ 64 \<le> ts mod 2 ^ 64)" by (simp add: not_less not_le)
    moreover have "length l + 4 + 8 = length l + 12" by simp
    ultimately show ?thesis
      using writeBigUInt64LE_next [of ?p1 "length l + 4" ?z "ts mod 2 ^ 64"] z
      by (simp only: ts if_False) simp
  qed
  have w3: "writeUInt32LE (?p2 @ drop (length l + 12) ?z) c (length l + 12) = Inr (?p2 @ le_bytes 4 c)"
    using writeUInt32LE_next [of ?p2 "length l + 12" ?z] z by simp
  show ?thesis by (simp only: c w1 w2 w3 and_mask64 js_bind_simps) simp
qed

lemma derivePanicIvPrefix_eq:
  "derivePanicIvPrefix salt pid ts ctr =
     (if length salt \<noteq> 16 then Inl (must_be_bytes ''sessionSalt'' 16)
      else Inr (hkdfSync salt [] (kdf_info ''varta-panic-iv-v1''
             (le_bytes 4 (to_uint32 pid) @ le_bytes 8 (word_of_int ts :: u64) @ le_bytes 4 (to_uint32 ctr))) 8))"
  by (simp only: derivePanicIvPrefix_def Let_def info_panic kdf_info_def SESSION_SALT_BYTES_def
      IV_RANDOM_BYTES_def hkdfSha256_def buffer_alloc_0)

subsection \<open>Wire layout\<close>

lemma buildNonce_eq: "length iv = 8 \<Longrightarrow> buildNonce iv ctr = Inr (iv @ le_bytes 4 (to_uint32 ctr))"
  using writeUInt32LE_next [of iv 8 "buffer_alloc 12"]
  by (simp add: buildNonce_def layout_defs subarray_all buffer_copy_first length_buffer_alloc)

lemma aeadSeal_eq:
  "length key = 32 \<Longrightarrow> aeadSeal key nonce aad pt = Inr (chacha20_poly1305_seal key nonce (case_option [] id aad) pt)"
  by (simp add: aeadSeal_def KEY_BYTES_def split: option.split)

lemma aeadOpen_Inr_iff:
  assumes "length nonce = 12"
  shows "aeadOpen key nonce aad c = Inr pt \<longleftrightarrow>
     length key = 32 \<and> c = chacha20_poly1305_seal key nonce (case_option [] id aad) pt"
proof -
  let ?a = "case aad of None \<Rightarrow> [] | Some a \<Rightarrow> a"
  have a: "case_option [] id aad = ?a" by (simp split: option.split)
  have split: "subarray c 0 (length c - 16) @ subarray c (length c - 16) (length c) = c"
    by (simp add: subarray_append subarray_all)
  have "aeadOpen key nonce aad c = Inr pt \<longleftrightarrow>
      16 \<le> length c \<and> length key = 32 \<and> chacha20_poly1305_open key nonce ?a c = Some pt"
    by (auto simp: aeadOpen_def layout_defs split not_less split: option.splits)
  also have "\<dots> \<longleftrightarrow> length key = 32 \<and> chacha20_poly1305_open key nonce ?a c = Some pt"
    using assms by (auto dest: chacha.open_length)
  also have "\<dots> \<longleftrightarrow> length key = 32 \<and> c = chacha20_poly1305_seal key nonce ?a pt"
    using assms chacha.open_iff by auto
  finally show ?thesis by (simp only: a)
qed

lemma encodeShared_eq:
  "encodeShared key iv ctr pt =
     (if length key \<noteq> 32 then Inl (must_be_bytes ''key'' 32)
      else if length iv \<noteq> 8 then Inl (must_be_bytes ''ivRandom'' 8)
      else if length pt \<noteq> 32 then Inl (new_RangeError ''plaintext must be a 32-byte VLP frame'')
      else let nonce = iv @ le_bytes 4 (to_uint32 ctr)
           in Inr (nonce @ chacha20_poly1305_seal key nonce [] pt))"
proof (cases "length key = 32 \<and> length iv = 8 \<and> length pt = 32")
  case True
  let ?n = "iv @ le_bytes 4 (to_uint32 ctr)"
  let ?z = "buffer_alloc 60"
  let ?s = "chacha20_poly1305_seal key ?n [] pt"
  have z: "length ?z = 60" by (simp add: length_buffer_alloc)
  have s: "length ?s = 48" using True by (simp add: chacha.length_seal)
  have c: "buffer_copy iv ?z 0 = iv @ drop 8 ?z"
    using buffer_copy_first [of iv ?z] z True by simp
  have w: "writeUInt32LE (iv @ drop 8 ?z) (to_uint32 ctr) 8 = Inr (?n @ drop 12 ?z)"
    using writeUInt32LE_next [of iv 8 ?z] z True by simp
  have e: "buffer_copy ?s (?n @ drop 12 ?z) 12 = ?n @ ?s"
    using buffer_copy_next [of ?n 12 ?s ?z] z s True by simp
  show ?thesis
    using True c w e
    by (simp add: encodeShared_def layout_defs buildNonce_eq aeadSeal_eq Let_def)
next
  case False
  then show ?thesis by (auto simp: encodeShared_def layout_defs)
qed

lemma nonce_at:
  assumes "length wire = n" "off + 12 \<le> n"
  shows "subarray wire off (off + 8) @ le_bytes 4 (readUInt32LE wire (off + 8)) = subarray wire off (off + 12)"
  using assms by (simp add: readUInt32LE_def le32.enc_dec length_subarray subarray_append add.commute)

lemma decodeShared_InrD:
  assumes dec: "decodeShared key wire = Inr pt"
  shows "\<exists>iv ctr. encodeShared key iv ctr pt = Inr wire"
proof -
  have len: "length wire = 60" using dec by (auto simp: decodeShared_def layout_defs split: if_splits)
  let ?iv = "subarray wire 0 8" and ?c = "readUInt32LE wire 8"
  let ?n = "subarray wire 0 12"
  have iv: "length ?iv = 8" and n: "length ?n = 12" using len by (simp_all add: length_subarray)
  have ne: "?iv @ le_bytes 4 ?c = ?n" using nonce_at [of wire 60 0] len by simp
  have "aeadOpen key ?n None (subarray wire 12 60) = Inr pt"
    using dec len iv ne by (simp add: decodeShared_def layout_defs buildNonce_eq Let_def)
  then have k: "length key = 32" and c: "subarray wire 12 60 = chacha20_poly1305_seal key ?n [] pt"
    using n by (auto simp: aeadOpen_Inr_iff)
  have "length pt + 16 = 48"
    using chacha.length_seal [OF k n, of "[]" pt] len by (simp add: c [symmetric] length_subarray)
  moreover have "wire = ?n @ subarray wire 12 60"
    using len by (simp add: subarray_append subarray_all)
  ultimately have "encodeShared key ?iv (js_int (uint ?c)) pt = Inr wire"
    using k iv ne c by (simp add: encodeShared_eq Let_def)
  then show ?thesis by blast
qed

lemma decodeShared_encodeShared:
  assumes enc: "encodeShared key iv ctr pt = Inr wire"
  shows "decodeShared key wire = Inr pt"
proof -
  let ?n = "iv @ le_bytes 4 (to_uint32 ctr)"
  from enc have k: "length key = 32" and iv: "length iv = 8" and pt: "length pt = 32"
    and w: "wire = ?n @ chacha20_poly1305_seal key ?n [] pt"
    by (auto simp: encodeShared_eq Let_def split: if_splits)
  have len: "length wire = 60" using k iv pt by (simp add: w chacha.length_seal)
  have n: "subarray wire 0 12 = ?n" by (rule subarray_at [where p = "[]"]) (simp_all add: w iv)
  have s: "subarray wire 12 60 = chacha20_poly1305_seal key ?n [] pt"
    by (rule subarray_at [where p = ?n and r = "[]"]) (use len in \<open>simp_all add: w iv\<close>)
  have "aeadOpen key ?n None (subarray wire 12 60) = Inr pt"
    using k iv s by (simp add: aeadOpen_Inr_iff)
  moreover have "subarray wire 0 8 @ le_bytes 4 (readUInt32LE wire 8) = ?n"
    using nonce_at [of wire 60 0] len n by simp
  ultimately show ?thesis
    using len iv by (simp add: decodeShared_def layout_defs buildNonce_eq length_subarray Let_def)
qed

text \<open>C19: a 60-byte datagram opens under a shared key to a plaintext exactly when \<open>encodeShared\<close>
  under that key produces this datagram from this plaintext for some IV and counter. So every
  sealed frame is recovered, and a datagram altered in any byte never yields the plaintext
  that was sealed.\<close>

theorem decodeShared_iff_encodeShared:
  "decodeShared key wire = Inr pt \<longleftrightarrow> (\<exists>iv ctr. encodeShared key iv ctr pt = Inr wire)"
  by (blast dest: decodeShared_InrD intro: decodeShared_encodeShared)

subsection \<open>Master-key wire layout\<close>

definition agent_key :: "bytes \<Rightarrow> u32 \<Rightarrow> bytes" where
  "agent_key mk pid = hkdfSync mk [] (kdf_info ''varta-agent-v1'' (le_bytes 4 pid)) 32"

lemma length_agent_key [simp]: "length (agent_key mk pid) = 32"
  by (simp add: agent_key_def)

lemma encodeMaster_eq:
  "encodeMaster mk pid iv ctr pt =
     (if length mk \<noteq> 32 then Inl (must_be_bytes ''masterKey'' 32)
      else if length iv \<noteq> 8 then Inl (must_be_bytes ''ivRandom'' 8)
      else if length pt \<noteq> 32 then Inl (new_RangeError ''plaintext must be a 32-byte VLP frame'')
      else let aad = le_bytes 4 (to_uint32 pid); nonce = iv @ le_bytes 4 (to_uint32 ctr)
           in Inr (aad @ nonce @ chacha20_poly1305_seal (agent_key mk (to_uint32 pid)) nonce aad pt))"
proof (cases "length mk = 32 \<and> length iv = 8 \<and> length pt = 32")
  case True
  let ?a = "le_bytes 4 (to_uint32 pid)"
  let ?n = "iv @ le_bytes 4 (to_uint32 ctr)"
  let ?z = "buffer_alloc 64"
  let ?s = "chacha20_poly1305_seal (agent_key mk (to_uint32 pid)) ?n ?a pt"
  have z: "length ?z = 64" by (simp add: length_buffer_alloc)
  have s: "length ?s = 48" using True by (simp add: chacha.length_seal)
  have a: "writeUInt32LE (buffer_alloc 4) (to_uint32 pid) 0 = Inr ?a"
    using writeUInt32LE_next [of "[]" 0 "buffer_alloc 4"] by (simp add: length_buffer_alloc)
  have c: "buffer_copy ?a ?z 0 = ?a @ drop 4 ?z"
    using buffer_copy_first [of ?a ?z] z by simp
  have c2: "buffer_copy iv (?a @ drop 4 ?z) 4 = (?a @ iv) @ drop 12 ?z"
    using buffer_copy_next [of ?a 4 iv ?z] z True by simp
  have w: "writeUInt32LE ((?a @ iv) @ drop 12 ?z) (to_uint32 ctr) 12 = Inr ((?a @ ?n) @ drop 16 ?z)"
    using writeUInt32LE_next [of "?a @ iv" 12 ?z] z True by simp
  have e: "buffer_copy ?s ((?a @ ?n) @ drop 16 ?z) 16 = ?a @ ?n @ ?s"
    using buffer_copy_next [of "?a @ ?n" 16 ?s ?z] z s True by simp
  have k: "deriveAgentKey mk pid = Inr (agent_key mk (to_uint32 pid))"
    using True by (simp add: deriveAgentKey_eq agent_key_def)
  show ?thesis
    using True c c2 w e
    by (simp add: encodeMaster_def layout_defs buildNonce_eq aeadSeal_eq Let_def a k)
next
  case False
  then show ?thesis by (auto simp: encodeMaster_def layout_defs)
qed

lemma decodeMaster_InrD:
  assumes dec: "decodeMaster mk wire = Inr pt"
  shows "\<exists>iv ctr. encodeMaster mk (js_int (uint (readUInt32LE wire 0))) iv ctr pt = Inr wire"
proof -
  have len: "length wire = 64" using dec by (auto simp: decodeMaster_def layout_defs split: if_splits)
  let ?p = "readUInt32LE wire 0" and ?iv = "subarray wire 4 12" and ?c = "readUInt32LE wire 12"
  let ?n = "subarray wire 4 16" and ?a = "subarray wire 0 4"
  have mk: "length mk = 32"
    using dec len by (auto simp: decodeMaster_def layout_defs deriveAgentKey_eq split: if_splits)
  have iv: "length ?iv = 8" and n: "length ?n = 12" and a: "length ?a = 4"
    using len by (simp_all add: length_subarray)
  have ne: "?iv @ le_bytes 4 ?c = ?n" using nonce_at [of wire 64 4] len by simp
  have ae: "le_bytes 4 ?p = ?a" using a by (simp add: readUInt32LE_def le32.enc_dec)
  have "aeadOpen (agent_key mk ?p) ?n (Some ?a) (subarray wire 16 64) = Inr pt"
    using dec len iv ne mk
    by (simp add: decodeMaster_def layout_defs buildNonce_eq deriveAgentKey_eq agent_key_def Let_def)
  then have c: "subarray wire 16 64 = chacha20_poly1305_seal (agent_key mk ?p) ?n ?a pt"
    using n by (auto simp: aeadOpen_Inr_iff)
  have "length pt + 16 = 48"
    using chacha.length_seal [OF length_agent_key n, of mk ?p ?a pt] len
    by (simp add: c [symmetric] length_subarray)
  moreover have "wire = ?a @ ?n @ subarray wire 16 64"
    using len by (simp add: subarray_append subarray_all)
  ultimately have "encodeMaster mk (js_int (uint ?p)) ?iv (js_int (uint ?c)) pt = Inr wire"
    using mk iv ne ae c by (simp add: encodeMaster_eq Let_def)
  then show "\<exists>iv ctr. encodeMaster mk (js_int (uint ?p)) iv ctr pt = Inr wire" by blast
qed

lemma decodeMaster_encodeMaster:
  assumes enc: "encodeMaster mk pid iv ctr pt = Inr wire"
  shows "decodeMaster mk wire = Inr pt" and "readUInt32LE wire 0 = to_uint32 pid"
proof -
  let ?p = "to_uint32 pid"
  let ?a = "le_bytes 4 ?p" and ?n = "iv @ le_bytes 4 (to_uint32 ctr)"
  let ?s = "chacha20_poly1305_seal (agent_key mk ?p) ?n ?a pt"
  from enc have mk: "length mk = 32" and iv: "length iv = 8" and pt: "length pt = 32"
    and w: "wire = ?a @ ?n @ ?s"
    by (auto simp: encodeMaster_eq Let_def split: if_splits)
  have s: "length ?s = 48" using iv pt by (simp add: chacha.length_seal)
  have len: "length wire = 64" using iv s by (subst w) simp
  have a: "subarray wire 0 4 = ?a" by (rule subarray_at [where p = "[]"]) (use w in simp_all)
  have n: "subarray wire 4 16 = ?n" by (rule subarray_at [where p = ?a]) (use w iv in simp_all)
  have c: "subarray wire 16 64 = ?s"
    by (rule subarray_at [where p = "?a @ ?n" and r = "[]"]) (use w iv s in simp_all)
  show p: "readUInt32LE wire 0 = ?p"
    using a by (simp add: readUInt32LE_def le32.dec_enc)
  have "aeadOpen (agent_key mk ?p) ?n (Some ?a) (subarray wire 16 64) = Inr pt"
    using iv c by (simp add: aeadOpen_Inr_iff)
  moreover have "subarray wire 4 12 @ le_bytes 4 (readUInt32LE wire 12) = ?n"
    using nonce_at [of wire 64 4] len n by simp
  ultimately show "decodeMaster mk wire = Inr pt"
    using len mk a iv p
    by (simp add: decodeMaster_def layout_defs buildNonce_eq length_subarray Let_def
        deriveAgentKey_eq agent_key_def)
qed

text \<open>C20: a 64-byte datagram opens under a master key to a plaintext exactly when \<open>encodeMaster\<close>
  produces it from this plaintext for some agent pid, IV and counter; the pid is the one in
  clear at the front of the datagram.\<close>

theorem decodeMaster_iff_encodeMaster:
  "decodeMaster mk wire = Inr pt \<longleftrightarrow>
     (\<exists>iv ctr. encodeMaster mk (js_int (uint (readUInt32LE wire 0))) iv ctr pt = Inr wire)"
  by (blast dest: decodeMaster_InrD intro: decodeMaster_encodeMaster(1))

text \<open>The two secure wire formats, with the order in which wrong lengths are rejected: key, IV,
  frame. A shared-key datagram is the 8-byte IV, the counter as an unsigned 32-bit
  little-endian word, and the frame sealed under the nonce formed by exactly those 12 bytes. A
  master-key datagram is sealed under the key derived for the agent pid, with the pid's four
  bytes both in clear at the front and authenticated as associated data.\<close>

theorem secure_wire_formats:
  "encodeShared key iv ctr pt =
     (if length key \<noteq> 32 then Inl (must_be_bytes ''key'' 32)
      else if length iv \<noteq> 8 then Inl (must_be_bytes ''ivRandom'' 8)
      else if length pt \<noteq> 32 then Inl (new_RangeError ''plaintext must be a 32-byte VLP frame'')
      else let nonce = iv @ le_bytes 4 (to_uint32 ctr)
           in Inr (nonce @ chacha20_poly1305_seal key nonce [] pt)) \<and>
   encodeMaster key pid iv ctr pt =
     (if length key \<noteq> 32 then Inl (must_be_bytes ''masterKey'' 32)
      else if length iv \<noteq> 8 then Inl (must_be_bytes ''ivRandom'' 8)
      else if length pt \<noteq> 32 then Inl (new_RangeError ''plaintext must be a 32-byte VLP frame'')
      else let aad = le_bytes 4 (to_uint32 pid); nonce = iv @ le_bytes 4 (to_uint32 ctr)
           in Inr (aad @ nonce @ chacha20_poly1305_seal (agent_key key (to_uint32 pid)) nonce aad pt))"
  by (simp only: encodeShared_eq encodeMaster_eq simp_thms)

subsection \<open>Domain separation\<close>

text \<open>The four uses of the key-derivation function, with their parameters at the wire width.\<close>

datatype kdf_use = AgentKey u32 | IvPrefix u32 | PanicIv u32 u64 u32 | EpochKey u64

fun info_of :: "kdf_use \<Rightarrow> bytes" where
  "info_of (AgentKey pid) = kdf_info ''varta-agent-v1'' (le_bytes 4 pid)"
| "info_of (IvPrefix ix) = kdf_info ''varta-iv-prefix-v1'' (le_bytes 4 ix)"
| "info_of (PanicIv pid ts ctr) =
     kdf_info ''varta-panic-iv-v1'' (le_bytes 4 pid @ le_bytes 8 ts @ le_bytes 4 ctr)"
| "info_of (EpochKey ep) = kdf_info ''varta-epoch-v1'' (le_bytes 8 ep)"

lemma inj_info_of: "inj info_of"
proof (rule injI)
  fix u v
  assume "info_of u = info_of v"
  then show "u = v"
    by (cases u; cases v) (simp_all add: kdf_info_def latin1_def le32.enc_inj le64.enc_inj)
qed

text \<open>C21: every derivation is HKDF-SHA256 with an empty salt over its own versioned label and
  parameters, and the labelled inputs are injective across all four derivations: two calls
  feed the same input to the key derivation only if they are the same derivation with the
  same parameters at their wire widths.\<close>

theorem kdf_domain_separation:
  "inj info_of \<and>
   deriveAgentKey key n =
     (if length key \<noteq> 32 then Inl (must_be_bytes ''masterKey'' 32)
      else Inr (hkdfSync key [] (info_of (AgentKey (to_uint32 n))) 32)) \<and>
   deriveIvPrefix salt n =
     (if length salt \<noteq> 16 then Inl (must_be_bytes ''sessionSalt'' 16)
      else Inr (hkdfSync salt [] (info_of (IvPrefix (to_uint32 n))) 8)) \<and>
   derivePanicIvPrefix salt n ts c =
     (if length salt \<noteq> 16 then Inl (must_be_bytes ''sessionSalt'' 16)
      else Inr (hkdfSync salt [] (info_of (PanicIv (to_uint32 n) (word_of_int ts) (to_uint32 c))) 8)) \<and>
   deriveEpochKey key ep =
     (if length key \<noteq> 32 then Inl (must_be_bytes ''agentKey'' 32)
      else if ep < 0 \<or> 2 ^ 64 \<le> ep then Inl ERR_OUT_OF_RANGE
      else Inr (hkdfSync key [] (info_of (EpochKey (word_of_int ep))) 32))"
  by (simp only: inj_info_of deriveAgentKey_eq deriveIvPrefix_eq derivePanicIvPrefix_eq
      deriveEpochKey_eq info_of.simps simp_thms)

end
