(* ===== verification/Errno.thy ===== *)
theory Errno
  imports Varta_Prelude
begin

section \<open>Errno constants (\<open>clients/node/src/errno.ts\<close>)\<close>

text \<open>
  The module reads two things of the running Node: \<open>process.platform\<close> and the table
  \<open>os.constants.errno\<close>, kept here as an association list in the order of
  \<open>Object.entries\<close>. A constant that the table lacks is \<open>undefined\<close>, here \<open>None\<close>.
\<close>

record node_os =
  os_platform :: string
  os_errno :: "(string \<times> int) list"

definition LINUX_ENOBUFS :: int where "LINUX_ENOBUFS = 105"
definition BSD_ENOBUFS :: int where "BSD_ENOBUFS = 55"
definition SOLARIS_ENOBUFS :: int where "SOLARIS_ENOBUFS = 132"

definition selectEnobufs :: "node_os \<Rightarrow> int" where
  "selectEnobufs os =
     (let p = os_platform os
      in if p = ''linux'' then LINUX_ENOBUFS
         else if p = ''darwin'' \<or> p = ''freebsd'' \<or> p = ''openbsd'' then BSD_ENOBUFS
         else if p = ''sunos'' then SOLARIS_ENOBUFS
         else case map_of (os_errno os) ''ENOBUFS'' of Some n \<Rightarrow> n | None \<Rightarrow> LINUX_ENOBUFS)"

definition errno_const :: "node_os \<Rightarrow> string \<Rightarrow> int option" where
  "errno_const os name =
     (if name = ''ENOBUFS'' then Some (selectEnobufs os)
      else if name = ''EWOULDBLOCK''
      then (case map_of (os_errno os) ''EWOULDBLOCK'' of
              Some n \<Rightarrow> Some n | None \<Rightarrow> map_of (os_errno os) ''EAGAIN'')
      else map_of (os_errno os) name)"

text \<open>\<open>NAME_BY_CODE\<close>: the loop over the entries keeps the first name of each code.\<close>

fun name_by_code_loop :: "(string \<times> int) list \<Rightarrow> (int \<rightharpoonup> string) \<Rightarrow> (int \<rightharpoonup> string)" where
  "name_by_code_loop [] m = m"
| "name_by_code_loop ((name, code) # es) m =
     name_by_code_loop es (if m code = None then m(code \<mapsto> name) else m)"

definition NAME_BY_CODE :: "node_os \<Rightarrow> (int \<rightharpoonup> string)" where
  "NAME_BY_CODE os = name_by_code_loop (os_errno os) Map.empty"

definition errnoName :: "node_os \<Rightarrow> int option \<Rightarrow> string" where
  "errnoName os code =
     (case code of
        None \<Rightarrow> ''Unknown''
      | Some c \<Rightarrow>
          if c = 0 then ''Unknown''
          else case NAME_BY_CODE os c of Some name \<Rightarrow> name | None \<Rightarrow> ''errno_'' @ int_string c)"

subsection \<open>The reverse lookup\<close>

lemma name_by_code_loop_eq:
  "name_by_code_loop es m c =
     (case m c of Some n \<Rightarrow> Some n | None \<Rightarrow> map_of (map (\<lambda>(n, c). (c, n)) es) c)"
proof (induction es arbitrary: m)
  case Nil
  show ?case by (simp split: option.split)
next
  case (Cons e es)
  then show ?case by (cases e) (auto split: option.splits)
qed

lemma NAME_BY_CODE_eq: "NAME_BY_CODE os c = map_of (map (\<lambda>(n, c). (c, n)) (os_errno os)) c"
  by (simp add: NAME_BY_CODE_def name_by_code_loop_eq)

lemma NAME_BY_CODE_None_iff: "NAME_BY_CODE os c = None \<longleftrightarrow> c \<notin> snd ` set (os_errno os)"
  by (force simp: NAME_BY_CODE_eq map_of_eq_None_iff)

text \<open>The part of Linux's table that the classification reads, in the order Node lists it.\<close>

definition linux_os :: node_os where
  "linux_os =
     \<lparr>os_platform = ''linux'',
      os_errno = [(''EACCES'', 13), (''EAGAIN'', 11), (''ECONNREFUSED'', 111), (''ECONNRESET'', 104),
                  (''ENOBUFS'', 105), (''ENOENT'', 2), (''ENOSPC'', 28), (''ENOTCONN'', 107),
                  (''EPERM'', 1), (''EPIPE'', 32), (''EWOULDBLOCK'', 11)]\<rparr>"

end
