(* ===== verification/Outcome.thy ===== *)
theory Outcome
  imports Errno
begin

section \<open>Beat outcomes (\<open>clients/node/src/outcome.ts\<close>)\<close>

text \<open>
  The result type of a beat and the translation of a send-time error into it. The lemmas give
  the bucket of every error: the first row of a table whose numeric or symbolic errno matches,
  and that the bucket does not depend on the sign of the errno.
\<close>

datatype DropReason = KernelQueueFull | NoObserver | PeerGone | StorageFull

fun drop_reason_string :: "DropReason \<Rightarrow> string" where
  "drop_reason_string KernelQueueFull = ''kernel queue full''"
| "drop_reason_string NoObserver = ''no observer''"
| "drop_reason_string PeerGone = ''peer gone''"
| "drop_reason_string StorageFull = ''storage full''"

record BeatError =
  be_name :: string
  be_errno :: int
  be_kind :: string
  be_message :: string

definition new_BeatError :: "int \<Rightarrow> string \<Rightarrow> string option \<Rightarrow> BeatError" where
  "new_BeatError errno kind message =
     \<lparr>be_name = ''BeatError'', be_errno = errno, be_kind = kind,
      be_message = (case message of Some m \<Rightarrow> m
                    | None \<Rightarrow> kind @ '' (errno='' @ int_string errno @ '')'')\<rparr>"

definition fromNodeError :: "node_os \<Rightarrow> js_error \<Rightarrow> BeatError" where
  "fromNodeError os err =
     (let code = (case e_errno err of Some n \<Rightarrow> n | None \<Rightarrow> 0)
      in new_BeatError code
           (if code \<noteq> 0 then errnoName os (Some code)
            else if e_name err \<noteq> [] then e_name err else ''Other'')
           (Some (e_message err)))"

datatype BeatOutcome = Sent | Dropped DropReason | Failed BeatError

fun isSent :: "BeatOutcome \<Rightarrow> bool" where
  "isSent Sent = True" | "isSent _ = False"

fun isDropped :: "BeatOutcome \<Rightarrow> bool" where
  "isDropped (Dropped r) = True" | "isDropped _ = False"

fun isFailed :: "BeatOutcome \<Rightarrow> bool" where
  "isFailed (Failed e) = True" | "isFailed _ = False"

definition classifySendError :: "node_os \<Rightarrow> js_error \<Rightarrow> BeatOutcome" where
  "classifySendError os err =
     (let rawErrno = (case e_errno err of Some n \<Rightarrow> n | None \<Rightarrow> 0);
          code = (if rawErrno < 0 then - rawErrno else rawErrno);
          sym = (case e_code err of Some s \<Rightarrow> s | None \<Rightarrow> [])
      in if Some code = errno_const os ''ENOBUFS'' \<or> sym = ''ENOBUFS'' then Dropped KernelQueueFull
         else if Some code = errno_const os ''EAGAIN'' \<or> Some code = errno_const os ''EWOULDBLOCK'' \<or>
                 sym = ''EAGAIN'' \<or> sym = ''EWOULDBLOCK'' then Dropped KernelQueueFull
         else if Some code = errno_const os ''ECONNREFUSED'' \<or> Some code = errno_const os ''ENOENT'' \<or>
                 sym = ''ECONNREFUSED'' \<or> sym = ''ENOENT'' then Dropped NoObserver
         else if Some code = errno_const os ''ECONNRESET'' \<or> Some code = errno_const os ''ENOTCONN'' \<or>
                 Some code = errno_const os ''EPIPE'' \<or>
                 sym = ''ECONNRESET'' \<or> sym = ''ENOTCONN'' \<or> sym = ''EPIPE'' then Dropped PeerGone
         else if Some code = errno_const os ''ENOSPC'' \<or> sym = ''ENOSPC'' then Dropped StorageFull
         else Failed (fromNodeError os err))"

subsection \<open>The classification as a table\<close>

definition drop_table :: "(string \<times> DropReason) list" where
  "drop_table =
     [(''ENOBUFS'', KernelQueueFull), (''EAGAIN'', KernelQueueFull), (''EWOULDBLOCK'', KernelQueueFull),
      (''ECONNREFUSED'', NoObserver), (''ENOENT'', NoObserver),
      (''ECONNRESET'', PeerGone), (''ENOTCONN'', PeerGone), (''EPIPE'', PeerGone),
      (''ENOSPC'', StorageFull)]"

text \<open>Whether an error is the named one: by symbol, or by number up to sign.\<close>

definition errno_matches :: "node_os \<Rightarrow> js_error \<Rightarrow> string \<Rightarrow> bool" where
  "errno_matches os err name \<longleftrightarrow>
     e_code err = Some name \<or>
     errno_const os name = Some \<bar>case e_errno err of Some n \<Rightarrow> n | None \<Rightarrow> 0\<bar>"

text \<open>A send error is dropped with the reason of the first table row (queue full, then no
  observer, then peer gone, then storage full) that it matches by symbolic code or by errno of
  either sign, and is otherwise a failure that carries the error's own fields.\<close>

theorem classifySendError_first_match:
  "classifySendError os err =
     (case find (\<lambda>(name, r). errno_matches os err name) drop_table of
        Some (name, r) \<Rightarrow> Dropped r
      | None \<Rightarrow> Failed (fromNodeError os err))"
proof -
  have abs: "(if n < 0 then - n else n) = \<bar>n\<bar>" for n :: int by simp
  have sym: "(case e_code err of Some s \<Rightarrow> s | None \<Rightarrow> []) = c # cs \<longleftrightarrow> e_code err = Some (c # cs)" for c cs
    by (cases "e_code err") auto
  show ?thesis
    unfolding classifySendError_def drop_table_def errno_matches_def Let_def abs sym
    by (simp add: eq_commute [of "Some _" "errno_const os _"])
qed

text \<open>An errno that Node reports in libuv's negative form is put in the right bucket, but
  when the outcome is a failure its symbolic name is lost: the reverse lookup is keyed by
  positive numbers and \<open>fromNodeError\<close> passes the signed value on, so the kind reads
  \<open>errno_-13\<close> and not \<open>EACCES\<close>.\<close>

theorem fromNodeError_negative_kind:
  assumes "e_errno err = Some n" and "n < 0" and "\<forall>c \<in> snd ` set (os_errno os). 0 < c"
  shows "be_kind (fromNodeError os err) = ''errno_'' @ int_string n"
proof -
  have "NAME_BY_CODE os n = None"
    using assms(2,3) by (fastforce simp: NAME_BY_CODE_None_iff)
  with assms(1,2) show ?thesis
    by (simp add: fromNodeError_def new_BeatError_def errnoName_def Let_def)
qed

theorem fromNodeError_negative_kind_witness:
  "be_kind (fromNodeError linux_os
     \<lparr>e_name = ''Error'', e_message = ''send EACCES'', e_code = Some ''EACCES'', e_errno = Some (- 13)\<rparr>)
   = ''errno_-13''"
proof -
  have s: "int_string (- 13) = ''-13''" by code_simp
  show ?thesis
    using fromNodeError_negative_kind [where os = linux_os and n = "- 13" and
        err = "\<lparr>e_name = ''Error'', e_message = ''send EACCES'', e_code = Some ''EACCES'', e_errno = Some (- 13)\<rparr>"]
    by (simp add: linux_os_def s)
qed

end
