(* ===== verification/Node_Runtime.thy ===== *)
theory Node_Runtime
  imports Varta_Prelude
begin

section \<open>The Node runtime under the client\<close>

text \<open>
  What the client uses of Node: \<open>dgram\<close> sockets in connected mode, \<open>crypto.randomBytes\<close>,
  \<open>process.pid\<close>, and the optional \<open>node-unix-socket\<close> addon. Their state is one record, the
  world, which every operation takes and returns; an operation that throws returns \<open>Inl\<close>.

  Outcomes that the program does not determine come from an environment of oracles, indexed by
  the number of calls made so far: whether a socket can be created, the bytes that
  \<open>randomBytes\<close> returns or the error it throws, and what each call into the addon does (the
  addon is third-party code, so nothing else is assumed about it).

  The asynchronous part of \<open>dgram\<close> is a set of runtime events (\<open>connect\<close> completing or
  failing); the transports attach their callbacks to them. Three points of Node's behaviour
  matter: \<open>connect\<close> throws only for a bad port, a second connect or a closed socket, and reports
  everything else later; a send without an address throws unless the socket is connected and
  open; when connecting fails, the callback given to \<open>connect\<close> is the one that receives the
  error. A socket closed while it is still binding is closed at once here: Node delays that close,
  and nothing the client can observe happens in between.
\<close>

datatype sock_family = Udp4 | Udp6

datatype conn_state = Disconnected | Connecting | Connected

record dsock =
  ds_family :: sock_family
  ds_conn :: conn_state
  ds_peer :: "(string \<times> jsnum) option"
  ds_open :: bool
  ds_ref :: bool

datatype uds_module = UdsNotLoaded | UdsLoaded | UdsMissing

record node_world =
  w_pid :: int
  w_calls :: nat
  w_fresh :: nat
  w_socks :: "nat \<Rightarrow> dsock"
  w_wire :: "(nat \<times> bytes) list"
  w_module :: uds_module
  w_uds_open :: "nat \<Rightarrow> bool"
  w_uds_wire :: "(nat \<times> string \<times> bytes) list"

record node_env =
  env_createSocket :: "nat \<Rightarrow> js_error option"
  env_randomBytes :: "nat \<Rightarrow> js_error + (nat \<Rightarrow> byte)"
  env_require :: "nat \<Rightarrow> js_error option"
  env_DgramSocket :: "nat \<Rightarrow> js_error option"
  env_sendTo :: "nat \<Rightarrow> js_error option"

type_synonym 'a throws = "js_error + 'a"

definition node_Error :: "string \<Rightarrow> string \<Rightarrow> js_error" where
  "node_Error cd msg = \<lparr>e_name = ''Error'', e_message = msg, e_code = Some cd, e_errno = None\<rparr>"

definition ERR_SOCKET_BAD_PORT :: js_error where
  "ERR_SOCKET_BAD_PORT = node_RangeError ''ERR_SOCKET_BAD_PORT'' ''Port should be > 0 and < 65536.''"

definition ERR_SOCKET_DGRAM_NOT_RUNNING :: js_error where
  "ERR_SOCKET_DGRAM_NOT_RUNNING = node_Error ''ERR_SOCKET_DGRAM_NOT_RUNNING'' ''Not running''"

definition ERR_SOCKET_DGRAM_IS_CONNECTED :: js_error where
  "ERR_SOCKET_DGRAM_IS_CONNECTED = node_Error ''ERR_SOCKET_DGRAM_IS_CONNECTED'' ''Already connected''"

fun valid_port :: "jsnum \<Rightarrow> bool" where
  "valid_port (JNum r) \<longleftrightarrow> of_int \<lfloor>r\<rfloor> = r \<and> 0 < r \<and> r \<le> 65535"
| "valid_port _ \<longleftrightarrow> False"

definition upd_sock :: "nat \<Rightarrow> (dsock \<Rightarrow> dsock) \<Rightarrow> node_world \<Rightarrow> node_world" where
  "upd_sock s f w = w\<lparr>w_socks := (w_socks w)(s := f (w_socks w s))\<rparr>"

definition tick :: "node_world \<Rightarrow> node_world" where
  "tick w = w\<lparr>w_calls := Suc (w_calls w)\<rparr>"

subsection \<open>\<open>node:dgram\<close>\<close>

definition createSocket :: "node_env \<Rightarrow> sock_family \<Rightarrow> node_world \<Rightarrow> nat throws \<times> node_world" where
  "createSocket env family w =
     (case env_createSocket env (w_calls w) of
        Some e \<Rightarrow> (Inl e, tick w)
      | None \<Rightarrow>
          (Inr (w_fresh w),
           upd_sock (w_fresh w)
             (\<lambda>_. \<lparr>ds_family = family, ds_conn = Disconnected, ds_peer = None, ds_open = True, ds_ref = True\<rparr>)
             (tick w)\<lparr>w_fresh := Suc (w_fresh w)\<rparr>))"

definition sock_unref :: "nat \<Rightarrow> node_world \<Rightarrow> node_world" where
  "sock_unref s w = upd_sock s (ds_ref_update (\<lambda>_. False)) w"

definition sock_connect :: "nat \<Rightarrow> jsnum \<Rightarrow> string \<Rightarrow> node_world \<Rightarrow> unit throws \<times> node_world" where
  "sock_connect s port host w =
     (if \<not> valid_port port then (Inl ERR_SOCKET_BAD_PORT, w)
      else if ds_conn (w_socks w s) \<noteq> Disconnected then (Inl ERR_SOCKET_DGRAM_IS_CONNECTED, w)
      else if \<not> ds_open (w_socks w s) then (Inl ERR_SOCKET_DGRAM_NOT_RUNNING, w)
      else (Inr (), upd_sock s (\<lambda>d. d\<lparr>ds_conn := Connecting, ds_peer := Some (host, port)\<rparr>) w))"

text \<open>The signature without port and address, which Node accepts on a connected socket only.\<close>

definition sock_send :: "nat \<Rightarrow> bytes \<Rightarrow> node_world \<Rightarrow> unit throws \<times> node_world" where
  "sock_send s d w =
     (if ds_conn (w_socks w s) \<noteq> Connected then (Inl ERR_SOCKET_BAD_PORT, w)
      else if \<not> ds_open (w_socks w s) then (Inl ERR_SOCKET_DGRAM_NOT_RUNNING, w)
      else (Inr (), w\<lparr>w_wire := w_wire w @ [(s, d)]\<rparr>))"

definition sock_close :: "nat \<Rightarrow> node_world \<Rightarrow> unit throws \<times> node_world" where
  "sock_close s w =
     (if \<not> ds_open (w_socks w s) then (Inl ERR_SOCKET_DGRAM_NOT_RUNNING, w)
      else (Inr (), upd_sock s (ds_open_update (\<lambda>_. False)) w))"

text \<open>The two ways a pending \<open>connect\<close> ends; a closed socket never completes.\<close>

definition can_complete :: "nat \<Rightarrow> node_world \<Rightarrow> bool" where
  "can_complete s w \<longleftrightarrow> ds_conn (w_socks w s) = Connecting \<and> ds_open (w_socks w s)"

definition sock_connected :: "nat \<Rightarrow> node_world \<Rightarrow> node_world" where
  "sock_connected s w = upd_sock s (ds_conn_update (\<lambda>_. Connected)) w"

definition sock_connect_failed :: "nat \<Rightarrow> node_world \<Rightarrow> node_world" where
  "sock_connect_failed s w = upd_sock s (ds_conn_update (\<lambda>_. Disconnected)) w"

subsection \<open>\<open>node:crypto\<close> and the addon\<close>

definition randomBytes :: "node_env \<Rightarrow> nat \<Rightarrow> node_world \<Rightarrow> bytes throws \<times> node_world" where
  "randomBytes env n w =
     (case env_randomBytes env (w_calls w) of
        Inl e \<Rightarrow> (Inl e, tick w)
      | Inr f \<Rightarrow> (Inr (map f [0..<n]), tick w))"

definition require_uds :: "node_env \<Rightarrow> node_world \<Rightarrow> unit throws \<times> node_world" where
  "require_uds env w =
     (case env_require env (w_calls w) of Some e \<Rightarrow> (Inl e, tick w) | None \<Rightarrow> (Inr (), tick w))"

definition new_DgramSocket :: "node_env \<Rightarrow> node_world \<Rightarrow> nat throws \<times> node_world" where
  "new_DgramSocket env w =
     (case env_DgramSocket env (w_calls w) of
        Some e \<Rightarrow> (Inl e, tick w)
      | None \<Rightarrow> (Inr (w_fresh w),
                 (tick w)\<lparr>w_fresh := Suc (w_fresh w), w_uds_open := (w_uds_open w)(w_fresh w := True)\<rparr>))"

definition uds_sendTo :: "node_env \<Rightarrow> nat \<Rightarrow> bytes \<Rightarrow> string \<Rightarrow> node_world \<Rightarrow> unit throws \<times> node_world" where
  "uds_sendTo env s d path w =
     (case env_sendTo env (w_calls w) of
        Some e \<Rightarrow> (Inl e, tick w)
      | None \<Rightarrow> (Inr (), (tick w)\<lparr>w_uds_wire := w_uds_wire w @ [(s, path, d)]\<rparr>))"

definition uds_close :: "nat \<Rightarrow> node_world \<Rightarrow> node_world" where
  "uds_close s w = w\<lparr>w_uds_open := (w_uds_open w)(s := False)\<rparr>"

subsection \<open>What the operations change\<close>

lemma upd_sock_simps [simp]:
  "w_pid (upd_sock s f w) = w_pid w" "w_calls (upd_sock s f w) = w_calls w"
  "w_fresh (upd_sock s f w) = w_fresh w" "w_wire (upd_sock s f w) = w_wire w"
  "w_socks (upd_sock s f w) = (w_socks w)(s := f (w_socks w s))"
  "w_module (upd_sock s f w) = w_module w" "w_uds_open (upd_sock s f w) = w_uds_open w"
  "w_uds_wire (upd_sock s f w) = w_uds_wire w"
  by (simp_all add: upd_sock_def)

lemma tick_simps [simp]:
  "w_pid (tick w) = w_pid w" "w_calls (tick w) = Suc (w_calls w)"
  "w_fresh (tick w) = w_fresh w" "w_wire (tick w) = w_wire w" "w_socks (tick w) = w_socks w"
  "w_module (tick w) = w_module w" "w_uds_open (tick w) = w_uds_open w"
  "w_uds_wire (tick w) = w_uds_wire w"
  by (simp_all add: tick_def)

lemma sock_unref_simps [simp]:
  "w_pid (sock_unref s w) = w_pid w" "w_calls (sock_unref s w) = w_calls w"
  "w_fresh (sock_unref s w) = w_fresh w" "w_wire (sock_unref s w) = w_wire w"
  "w_socks (sock_unref s w) = (w_socks w)(s := (w_socks w s)\<lparr>ds_ref := False\<rparr>)"
  by (simp_all add: sock_unref_def)

lemma sock_connected_simps [simp]:
  "w_pid (sock_connected s w) = w_pid w" "w_calls (sock_connected s w) = w_calls w"
  "w_fresh (sock_connected s w) = w_fresh w" "w_wire (sock_connected s w) = w_wire w"
  "w_socks (sock_connected s w) = (w_socks w)(s := (w_socks w s)\<lparr>ds_conn := Connected\<rparr>)"
  by (simp_all add: sock_connected_def)

lemma sock_connect_failed_simps [simp]:
  "w_pid (sock_connect_failed s w) = w_pid w" "w_calls (sock_connect_failed s w) = w_calls w"
  "w_fresh (sock_connect_failed s w) = w_fresh w" "w_wire (sock_connect_failed s w) = w_wire w"
  "w_socks (sock_connect_failed s w) = (w_socks w)(s := (w_socks w s)\<lparr>ds_conn := Disconnected\<rparr>)"
  by (simp_all add: sock_connect_failed_def)

lemma sock_close_frame [simp]:
  "w_pid (snd (sock_close s w)) = w_pid w" "w_calls (snd (sock_close s w)) = w_calls w"
  "w_fresh (snd (sock_close s w)) = w_fresh w" "w_wire (snd (sock_close s w)) = w_wire w"
  "w_socks (snd (sock_close s w)) = (w_socks w)(s := (w_socks w s)\<lparr>ds_open := False\<rparr>)"
  by (auto simp: sock_close_def fun_eq_iff)

lemma sock_send_frame [simp]:
  "w_pid (snd (sock_send s d w)) = w_pid w" "w_calls (snd (sock_send s d w)) = w_calls w"
  "w_fresh (snd (sock_send s d w)) = w_fresh w" "w_socks (snd (sock_send s d w)) = w_socks w"
  by (simp_all add: sock_send_def)

lemma sock_send_wire:
  "w_wire (snd (sock_send s d w)) = w_wire w @ (if isl (fst (sock_send s d w)) then [] else [(s, d)])"
  by (simp add: sock_send_def)

lemma sock_send_ok_iff:
  "fst (sock_send s d w) = Inr () \<longleftrightarrow> ds_conn (w_socks w s) = Connected \<and> ds_open (w_socks w s)"
  by (simp add: sock_send_def)

lemma randomBytes_calls [simp]:
  "w_pid (snd (randomBytes env n w)) = w_pid w" "w_fresh (snd (randomBytes env n w)) = w_fresh w"
  "w_wire (snd (randomBytes env n w)) = w_wire w" "w_socks (snd (randomBytes env n w)) = w_socks w"
  "w_calls (snd (randomBytes env n w)) = Suc (w_calls w)"
  by (simp_all add: randomBytes_def split: sum.split)

lemma length_randomBytes: "randomBytes env n w = (Inr bs, w') \<Longrightarrow> length bs = n"
  by (auto simp: randomBytes_def split: sum.splits)

subsection \<open>A concrete runtime in which nothing fails\<close>

definition quiet_env :: node_env where
  "quiet_env =
     \<lparr>env_createSocket = (\<lambda>_. None), env_randomBytes = (\<lambda>n. Inr (\<lambda>i. word_of_nat (n + i))),
      env_require = (\<lambda>_. None), env_DgramSocket = (\<lambda>_. None), env_sendTo = (\<lambda>_. None)\<rparr>"

definition no_sock :: dsock where
  "no_sock = \<lparr>ds_family = Udp4, ds_conn = Disconnected, ds_peer = None, ds_open = False, ds_ref = False\<rparr>"

definition start_world :: node_world where
  "start_world =
     \<lparr>w_pid = 42, w_calls = 0, w_fresh = 0, w_socks = (\<lambda>_. no_sock), w_wire = [],
      w_module = UdsNotLoaded, w_uds_open = (\<lambda>_. False), w_uds_wire = []\<rparr>"

lemmas start_defs = quiet_env_def start_world_def no_sock_def

end
