(* ===== verification/Beat_Transport.thy ===== *)
theory Beat_Transport
  imports Node_Runtime Vlp
begin

section \<open>The transport interface (\<open>clients/node/src/transport.ts\<close>, \<open>BeatTransport\<close>)\<close>

text \<open>
  What the client relies on. A state \<open>s\<close> is the transport object together with the runtime
  world. \<open>handed s\<close> is the sequence of datagrams the transport has accepted so far, those given
  to the kernel followed by those it still queues, and \<open>opens s\<close> is how a receiver reads the
  frame out of a datagram. The laws: an accepted send appends exactly one datagram, which opens
  to the frame; a send that throws appends nothing; the strong exception guarantee of
  \<open>reconnect\<close>, that one that throws leaves the object as it was; \<open>close\<close> never throws; and
  neither loses accepted datagrams.
\<close>

locale beat_transport =
  fixes send :: "bytes \<Rightarrow> 's \<Rightarrow> unit throws \<times> 's"
    and reconnect :: "'s \<Rightarrow> unit throws \<times> 's"
    and close :: "'s \<Rightarrow> unit throws \<times> 's"
    and inv :: "'s \<Rightarrow> bool"
    and view :: "'s \<Rightarrow> 'v"
    and handed :: "'s \<Rightarrow> bytes list"
    and opens :: "'s \<Rightarrow> bytes \<Rightarrow> bytes option"
  assumes send_inv: "inv s \<Longrightarrow> inv (snd (send b s))"
    and reconnect_inv: "inv s \<Longrightarrow> inv (snd (reconnect s))"
    and close_inv: "inv s \<Longrightarrow> inv (snd (close s))"
    and send_ok: "inv s \<Longrightarrow> length b = FRAME_BYTES \<Longrightarrow> send b s = (Inr (), s') \<Longrightarrow>
      \<exists>d. handed s' = handed s @ [d] \<and> opens s d = Some b"
    and send_throws: "inv s \<Longrightarrow> send b s = (Inl e, s') \<Longrightarrow> handed s' = handed s"
    and reconnect_handed: "inv s \<Longrightarrow> handed (snd (reconnect s)) = handed s"
    and reconnect_throws: "inv s \<Longrightarrow> reconnect s = (Inl e, s') \<Longrightarrow> view s' = view s"
    and close_quiet: "fst (close s) = Inr ()"
    and close_handed: "inv s \<Longrightarrow> handed (snd (close s)) = handed s"
    and opens_send: "inv s \<Longrightarrow> opens (snd (send b s)) = opens s"
    and opens_reconnect: "inv s \<Longrightarrow> opens (snd (reconnect s)) = opens s"
    and opens_close: "inv s \<Longrightarrow> opens (snd (close s)) = opens s"
begin

lemma send_handed_length:
  assumes "inv s" and "length b = FRAME_BYTES"
  shows "length (handed (snd (send b s))) = length (handed s) + (if isl (fst (send b s)) then 0 else 1)"
proof (cases "send b s")
  case (Pair r s')
  with assms send_ok [of s b s'] send_throws [of s b _ s'] show ?thesis
    by (cases r) auto
qed

lemma send_iff_handed:
  assumes "inv s" and "length b = FRAME_BYTES"
  shows "isl (fst (send b s)) \<longleftrightarrow> handed (snd (send b s)) = handed s"
  using send_handed_length [OF assms] send_throws [OF assms(1), of b]
  by (cases "send b s") (auto split: if_splits simp: isl_def)

end

text \<open>The same with the callbacks that the runtime delivers between calls. A quiet event loses no
  accepted datagram; the contract does not promise this of a connect that fails.\<close>

locale transport_events = beat_transport send reconnect close inv view handed opens
  for send :: "bytes \<Rightarrow> 's \<Rightarrow> unit throws \<times> 's" and reconnect and close and inv and view :: "'s \<Rightarrow> 'v"
    and handed and opens +
  fixes event :: "'e \<Rightarrow> 's \<Rightarrow> 's" and quiet :: "'e \<Rightarrow> bool"
  assumes event_inv: "inv s \<Longrightarrow> inv (event e s)"
    and event_handed: "inv s \<Longrightarrow> quiet e \<Longrightarrow> handed (event e s) = handed s"
    and event_opens: "inv s \<Longrightarrow> opens (event e s) = opens s"

text \<open>The error slot that the three transports share, and the function that empties it.\<close>

record pending_holder =
  pendingError :: "js_error option"

definition takePendingError ::
  "'a pending_holder_scheme \<Rightarrow> js_error option \<times> 'a pending_holder_scheme" where
  "takePendingError holder = (pendingError holder, holder\<lparr>pendingError := None\<rparr>)"

definition PRE_CONNECT_QUEUE_LIMIT :: nat where "PRE_CONNECT_QUEUE_LIMIT = 64"

end
