(* ===== verification/Udp_Transport.thy ===== *)
theory Udp_Transport
  imports Beat_Transport
begin

section \<open>Plaintext UDP (\<open>clients/node/src/transport.ts\<close>, \<open>UdpTransport\<close>)\<close>

text \<open>
  The transport object, its operations and its three callbacks (socket error, connect, send).
  A callback compares the socket it was created for with the current one and does nothing when
  the socket has been replaced. \<open>udp_step\<close> is one user call or one runtime event and
  \<open>udp_reach\<close> the runs, with the list of accepted datagrams. The record is also the base of
  the secure transport, whose socket handling is the same code.
\<close>

record UdpTransport = pending_holder +
  u_socket :: nat
  u_host :: string
  u_port :: jsnum
  u_connected :: bool
  u_preConnectQueue :: "bytes list"

definition openSocket ::
  "node_env \<Rightarrow> 'a UdpTransport_scheme \<Rightarrow> node_world \<Rightarrow> nat throws \<times> node_world" where
  "openSocket env t w =
     (let family = (if str_includes (u_host t) '':'' then Udp6 else Udp4)
      in case createSocket env family w of
           (Inl e, w1) \<Rightarrow> (Inl e, w1)
         | (Inr s, w1) \<Rightarrow>
             (case sock_connect s (u_port t) (u_host t) (sock_unref s w1) of
                (Inl e, w2) \<Rightarrow> (Inl e, snd (sock_close s w2))
              | (Inr _, w2) \<Rightarrow> (Inr s, w2)))"

definition new_UdpTransport ::
  "node_env \<Rightarrow> string \<Rightarrow> jsnum \<Rightarrow> node_world \<Rightarrow> UdpTransport throws \<times> node_world" where
  "new_UdpTransport env host port w =
     (let t = \<lparr>pendingError = None, u_socket = 0, u_host = host, u_port = port,
               u_connected = False, u_preConnectQueue = []\<rparr>
      in case openSocket env t w of
           (Inl e, w1) \<Rightarrow> (Inl e, w1)
         | (Inr s, w1) \<Rightarrow> (Inr (t\<lparr>u_socket := s\<rparr>), w1))"

text \<open>The callbacks. The connect callback sends the queue out; a send that throws leaves the
  callback with that exception, after the datagram was taken off the queue.\<close>

definition udp_on_error :: "nat \<Rightarrow> js_error \<Rightarrow> 'a UdpTransport_scheme \<Rightarrow> 'a UdpTransport_scheme" where
  "udp_on_error s err t = (if u_socket t = s then t\<lparr>pendingError := Some err\<rparr> else t)"

definition udp_on_sent :: "nat \<Rightarrow> js_error option \<Rightarrow> 'a UdpTransport_scheme \<Rightarrow> 'a UdpTransport_scheme" where
  "udp_on_sent s err t = (if u_socket t = s \<and> err \<noteq> None then t\<lparr>pendingError := err\<rparr> else t)"

fun flush_queue :: "nat \<Rightarrow> bytes list \<Rightarrow> node_world \<Rightarrow> unit throws \<times> bytes list \<times> node_world" where
  "flush_queue s [] w = (Inr (), [], w)"
| "flush_queue s (owned # q) w =
     (case sock_send s owned w of
        (Inl e, w1) \<Rightarrow> (Inl e, q, w1)
      | (Inr _, w1) \<Rightarrow> flush_queue s q w1)"

definition udp_on_connect ::
  "nat \<Rightarrow> 'a UdpTransport_scheme \<times> node_world \<Rightarrow> unit throws \<times> 'a UdpTransport_scheme \<times> node_world" where
  "udp_on_connect s = (\<lambda>(t, w).
     if u_socket t \<noteq> s then (Inr (), t, w)
     else case flush_queue s (u_preConnectQueue t) w of
            (r, q, w1) \<Rightarrow> (r, t\<lparr>u_connected := True, u_preConnectQueue := q\<rparr>, w1))"

definition queue_full_error :: "string \<Rightarrow> js_error" where
  "queue_full_error cls = (new_Error (cls @ '': pre-connect queue full''))\<lparr>e_code := Some ''ENOBUFS''\<rparr>"

definition udp_send ::
  "bytes \<Rightarrow> UdpTransport \<times> node_world \<Rightarrow> unit throws \<times> UdpTransport \<times> node_world" where
  "udp_send buf = (\<lambda>(t0, w).
     case takePendingError t0 of
       (Some queued, t) \<Rightarrow> (Inl queued, t, w)
     | (None, t) \<Rightarrow>
         if \<not> u_connected t then
           (if length (u_preConnectQueue t) \<ge> PRE_CONNECT_QUEUE_LIMIT
            then (Inl (queue_full_error ''UdpTransport''), t, w)
            else (Inr (), t\<lparr>u_preConnectQueue := u_preConnectQueue t @ [buf]\<rparr>, w))
         else (case sock_send (u_socket t) buf w of (r, w1) \<Rightarrow> (r, t, w1)))"

definition udp_reconnect ::
  "node_env \<Rightarrow> UdpTransport \<times> node_world \<Rightarrow> unit throws \<times> UdpTransport \<times> node_world" where
  "udp_reconnect env = (\<lambda>(t, w).
     case openSocket env t w of
       (Inl e, w1) \<Rightarrow> (Inl e, t, w1)
     | (Inr replacement, w1) \<Rightarrow>
         (let old = u_socket t
          in (Inr (), t\<lparr>u_socket := replacement, u_connected := False, pendingError := None\<rparr>,
              snd (sock_close old w1))))"

definition udp_close ::
  "'a UdpTransport_scheme \<times> node_world \<Rightarrow> unit throws \<times> 'a UdpTransport_scheme \<times> node_world" where
  "udp_close = (\<lambda>(t, w). (Inr (), t, snd (sock_close (u_socket t) w)))"

subsection \<open>Runs\<close>

datatype net_event =
    UserSend bytes | UserReconnect | UserClose
  | ConnectDone nat | ConnectFailed nat js_error
  | SocketError nat js_error | SendCallback nat "js_error option"
  | Forked int

text \<open>The events that the runtime delivers, for both UDP transports.\<close>

fun runtime_event ::
  "net_event \<Rightarrow> 'a UdpTransport_scheme \<times> node_world \<Rightarrow> unit throws \<times> 'a UdpTransport_scheme \<times> node_world" where
  "runtime_event (ConnectDone s) (t, w) =
     (if can_complete s w then udp_on_connect s (t, sock_connected s w) else (Inr (), t, w))"
| "runtime_event (ConnectFailed s e) (t, w) =
     (if can_complete s w then udp_on_connect s (t, sock_connect_failed s w) else (Inr (), t, w))"
| "runtime_event (SocketError s e) (t, w) = (Inr (), udp_on_error s e t, w)"
| "runtime_event (SendCallback s e) (t, w) = (Inr (), udp_on_sent s e t, w)"
| "runtime_event (Forked p) (t, w) = (Inr (), t, w\<lparr>w_pid := p\<rparr>)"
| "runtime_event _ st = (Inr (), st)"

fun udp_step ::
  "node_env \<Rightarrow> net_event \<Rightarrow> UdpTransport \<times> node_world \<Rightarrow> unit throws \<times> UdpTransport \<times> node_world" where
  "udp_step env (UserSend b) st = udp_send b st"
| "udp_step env UserReconnect st = udp_reconnect env st"
| "udp_step env UserClose st = udp_close st"
| "udp_step env ev st = runtime_event ev st"

fun is_connect_failure :: "net_event \<Rightarrow> bool" where
  "is_connect_failure (ConnectFailed s e) = True"
| "is_connect_failure _ = False"

fun accepted :: "net_event \<Rightarrow> unit throws \<Rightarrow> bytes list" where
  "accepted (UserSend b) (Inr _) = [b]"
| "accepted _ _ = []"

inductive udp_reach ::
  "node_env \<Rightarrow> (net_event \<Rightarrow> bool) \<Rightarrow> UdpTransport \<times> node_world \<Rightarrow> bytes list \<Rightarrow> UdpTransport \<times> node_world \<Rightarrow> bool"
  for env P st0 where
  udp_start: "udp_reach env P st0 [] st0"
| udp_more: "udp_reach env P st0 acc st \<Longrightarrow> P ev \<Longrightarrow> udp_step env ev st = (r, st') \<Longrightarrow>
     udp_reach env P st0 (acc @ accepted ev r) st'"


subsection \<open>Opening a socket and emptying the queue\<close>

definition fresh_sock :: "'a UdpTransport_scheme \<Rightarrow> dsock" where
  "fresh_sock t =
     \<lparr>ds_family = (if str_includes (u_host t) '':'' then Udp6 else Udp4), ds_conn = Connecting,
      ds_peer = Some (u_host t, u_port t), ds_open = True, ds_ref = False\<rparr>"

lemma openSocket_Inr:
  "openSocket env t w = (Inr s, w') \<longleftrightarrow>
     env_createSocket env (w_calls w) = None \<and> valid_port (u_port t) \<and> s = w_fresh w \<and>
     w' = (tick w)\<lparr>w_fresh := Suc (w_fresh w), w_socks := (w_socks w)(w_fresh w := fresh_sock t)\<rparr>"
  by (auto simp: openSocket_def createSocket_def sock_connect_def sock_unref_def upd_sock_def tick_def
      fresh_sock_def Let_def split: option.splits)

lemma openSocket_Inl:
  assumes "openSocket env t w = (Inl e, w')"
  shows "w_wire w' = w_wire w" and "w_fresh w \<le> w_fresh w'" and "w_calls w \<le> w_calls w'"
    and "w_pid w' = w_pid w"
    and "s < w_fresh w \<Longrightarrow> w_socks w' s = w_socks w s"
    and "w_fresh w \<le> s \<Longrightarrow> s < w_fresh w' \<Longrightarrow> \<not> ds_open (w_socks w' s)"
  using assms
  by (auto simp: openSocket_def createSocket_def sock_connect_def Let_def split: option.splits if_splits)

lemma openSocket_throws_iff:
  "isl (fst (openSocket env t w)) \<longleftrightarrow>
     env_createSocket env (w_calls w) \<noteq> None \<or> \<not> valid_port (u_port t)"
  by (auto simp: openSocket_def createSocket_def sock_connect_def Let_def split: option.splits)

lemma flush_connected:
  assumes "ds_conn (w_socks w s) = Connected" and "ds_open (w_socks w s)"
  shows "flush_queue s q w = (Inr (), [], w\<lparr>w_wire := w_wire w @ map (Pair s) q\<rparr>)"
  using assms by (induction q arbitrary: w) (simp_all add: sock_send_def)

lemma flush_not_connected:
  assumes "ds_conn (w_socks w s) \<noteq> Connected"
  shows "flush_queue s q w =
    (case q of [] \<Rightarrow> (Inr (), [], w) | d # q' \<Rightarrow> (Inl ERR_SOCKET_BAD_PORT, q', w))"
  using assms by (cases q) (simp_all add: sock_send_def)

lemma on_connect_done:
  assumes "can_complete s w"
  shows "udp_on_connect s (t, sock_connected s w) =
    (if u_socket t = s
     then (Inr (), t\<lparr>u_connected := True, u_preConnectQueue := []\<rparr>,
           (sock_connected s w)\<lparr>w_wire := w_wire w @ map (Pair s) (u_preConnectQueue t)\<rparr>)
     else (Inr (), t, sock_connected s w))"
  using assms
  by (auto simp: udp_on_connect_def can_complete_def flush_connected)

lemma on_connect_failed:
  assumes "can_complete s w"
  shows "udp_on_connect s (t, sock_connect_failed s w) =
    (if u_socket t = s
     then ((if u_preConnectQueue t = [] then Inr () else Inl ERR_SOCKET_BAD_PORT),
           t\<lparr>u_connected := True, u_preConnectQueue := tl (u_preConnectQueue t)\<rparr>,
           sock_connect_failed s w)
     else (Inr (), t, sock_connect_failed s w))"
  using assms
  by (auto simp: udp_on_connect_def flush_not_connected split: list.split)

subsection \<open>The object invariant\<close>

text \<open>It holds whatever the runtime does, a failing connect included.\<close>

definition udp_ok :: "'a UdpTransport_scheme \<times> node_world \<Rightarrow> bool" where
  "udp_ok = (\<lambda>(t, w).
     u_socket t < w_fresh w \<and>
     (ds_conn (w_socks w (u_socket t)) = Connected \<longrightarrow> u_connected t \<and> u_preConnectQueue t = []) \<and>
     length (u_preConnectQueue t) + (if u_connected t then 1 else 0) \<le> PRE_CONNECT_QUEUE_LIMIT)"

definition udp_handed :: "'a UdpTransport_scheme \<times> node_world \<Rightarrow> bytes list" where
  "udp_handed = (\<lambda>(t, w). map snd (w_wire w) @ u_preConnectQueue t)"

lemma runtime_event_ok: "udp_ok st \<Longrightarrow> udp_ok (snd (runtime_event ev st))"
proof (induction ev st rule: runtime_event.induct)
  case (1 s t w)
  then show ?case
    by (auto simp: udp_ok_def on_connect_done PRE_CONNECT_QUEUE_LIMIT_def)
next
  case (2 s e t w)
  then show ?case
    by (auto simp: udp_ok_def on_connect_failed PRE_CONNECT_QUEUE_LIMIT_def)
qed (auto simp: udp_ok_def udp_on_error_def udp_on_sent_def)

lemma runtime_event_handed:
  assumes "udp_ok st" and "\<not> is_connect_failure ev"
  shows "udp_handed (snd (runtime_event ev st)) = udp_handed st"
  using assms
  by (induction ev st rule: runtime_event.induct)
    (auto simp: udp_handed_def udp_on_error_def udp_on_sent_def on_connect_done comp_def)

lemma udp_send_ok: "udp_ok st \<Longrightarrow> udp_ok (snd (udp_send b st))"
  by (auto simp: udp_ok_def udp_send_def takePendingError_def split: prod.splits option.splits)
    (metis sock_send_frame snd_conv)+

lemma udp_send_handed:
  assumes "udp_ok st" and "udp_send b st = (r, st')"
  shows "udp_handed st' = udp_handed st @ (case r of Inl e \<Rightarrow> [] | Inr _ \<Rightarrow> [b])"
  using assms
  by (cases st) (auto simp: udp_ok_def udp_handed_def udp_send_def takePendingError_def sock_send_def
      split: option.splits if_splits)

lemma udp_reconnect_Inr:
  "udp_reconnect env (t, w) = (Inr (), st') \<longleftrightarrow>
     env_createSocket env (w_calls w) = None \<and> valid_port (u_port t) \<and>
     st' = (t\<lparr>u_socket := w_fresh w, u_connected := False, pendingError := None\<rparr>,
            snd (sock_close (u_socket t)
                  ((tick w)\<lparr>w_fresh := Suc (w_fresh w), w_socks := (w_socks w)(w_fresh w := fresh_sock t)\<rparr>)))"
proof (cases "openSocket env t w")
  case (Pair r w1)
  show ?thesis
  proof (cases r)
    case (Inl e)
    with Pair openSocket_throws_iff [of env t w] show ?thesis
      by (auto simp: udp_reconnect_def)
  next
    case (Inr s)
    with Pair openSocket_Inr [of env t w s w1] show ?thesis
      by (auto simp: udp_reconnect_def)
  qed
qed

lemma udp_reconnect_Inl:
  assumes "udp_reconnect env (t, w) = (Inl e, st')"
  obtains w' where "st' = (t, w')" and "openSocket env t w = (Inl e, w')"
  using assms by (auto simp: udp_reconnect_def Let_def split: prod.splits sum.splits)

lemma udp_reconnect_ok:
  assumes "udp_ok st" shows "udp_ok (snd (udp_reconnect env st))"
proof (cases "udp_reconnect env st" rule: prod.exhaust)
  case (Pair r st')
  obtain t w where st: "st = (t, w)" by (cases st)
  show ?thesis
  proof (cases r)
    case (Inl e)
    with Pair st obtain w' where "st' = (t, w')" "openSocket env t w = (Inl e, w')"
      by (auto elim: udp_reconnect_Inl)
    with assms Pair st openSocket_Inl [of env t w e w'] show ?thesis
      by (auto simp: udp_ok_def)
  next
    case (Inr u)
    with assms Pair st udp_reconnect_Inr [of env t w st'] show ?thesis
      by (auto simp: udp_ok_def fresh_sock_def PRE_CONNECT_QUEUE_LIMIT_def split: if_splits)
  qed
qed

lemma udp_reconnect_handed: "udp_handed (snd (udp_reconnect env st)) = udp_handed st"
proof (cases "udp_reconnect env st" rule: prod.exhaust)
  case (Pair r st')
  obtain t w where st: "st = (t, w)" by (cases st)
  show ?thesis
  proof (cases r)
    case (Inl e)
    with Pair st obtain w' where "st' = (t, w')" "openSocket env t w = (Inl e, w')"
      by (auto elim: udp_reconnect_Inl)
    with Pair st openSocket_Inl(1) [of env t w e w'] show ?thesis
      by (simp add: udp_handed_def)
  next
    case (Inr u)
    with Pair st udp_reconnect_Inr [of env t w st'] show ?thesis
      by (auto simp: udp_handed_def)
  qed
qed

lemma udp_close_ok: "udp_ok st \<Longrightarrow> udp_ok (snd (udp_close st))"
  by (cases st) (auto simp: udp_ok_def udp_close_def)

lemma udp_close_handed: "udp_handed (snd (udp_close st)) = udp_handed st"
  by (cases st) (simp add: udp_handed_def udp_close_def)

lemma udp_close_quiet: "fst (udp_close st) = Inr ()"
  by (cases st) (simp add: udp_close_def)

lemmas udp_ops_ok = udp_send_ok udp_reconnect_ok udp_close_ok runtime_event_ok

interpretation udp: beat_transport udp_send "udp_reconnect env" udp_close udp_ok fst udp_handed "\<lambda>_. Some"
proof unfold_locales
  fix s s' :: "UdpTransport \<times> node_world" and e
  assume "udp_reconnect env s = (Inl e, s')"
  then show "fst s' = fst s"
    by (cases s) (auto elim: udp_reconnect_Inl)
next
  fix s s' :: "UdpTransport \<times> node_world" and b e
  assume "udp_ok s" and "udp_send b s = (Inl e, s')"
  then show "udp_handed s' = udp_handed s"
    by (auto dest: udp_send_handed)
next
  fix s s' :: "UdpTransport \<times> node_world" and b
  assume "udp_ok s" and "udp_send b s = (Inr (), s')"
  then show "\<exists>d. udp_handed s' = udp_handed s @ [d] \<and> Some d = Some b"
    by (auto dest: udp_send_handed)
qed (simp_all add: udp_ops_ok udp_reconnect_handed udp_close_handed udp_close_quiet)

interpretation udp_events: transport_events udp_send "udp_reconnect env" udp_close udp_ok fst udp_handed "\<lambda>_. Some"
  "\<lambda>ev st. snd (runtime_event ev st)" "\<lambda>ev. \<not> is_connect_failure ev"
  by unfold_locales (simp_all add: runtime_event_ok runtime_event_handed)

subsection \<open>Delivery over a whole run\<close>

lemma udp_step_ok: "udp_ok st \<Longrightarrow> udp_ok (snd (udp_step env ev st))"
  by (cases ev) (simp_all add: udp_ops_ok)

lemma udp_step_handed:
  assumes "udp_ok st" and "\<not> is_connect_failure ev" and "udp_step env ev st = (r, st')"
  shows "udp_handed st' = udp_handed st @ accepted ev r"
proof (cases ev)
  case (UserSend b)
  with assms udp_send_handed [of st b r st'] show ?thesis by (cases r) auto
next
  case UserReconnect
  with assms udp_reconnect_handed [of env st] show ?thesis by simp
next
  case UserClose
  with assms udp_close_handed [of st] show ?thesis by simp
qed (use assms runtime_event_handed [of st ev] in simp_all)

lemma new_UdpTransport_Inr:
  assumes "new_UdpTransport env host port w0 = (Inr t, w)"
  shows "valid_port port" and "w_wire w = w_wire w0" and "w_fresh w = Suc (w_fresh w0)"
    and "t = \<lparr>pendingError = None, u_socket = w_fresh w0, u_host = host, u_port = port,
              u_connected = False, u_preConnectQueue = []\<rparr>"
    and "w_socks w = (w_socks w0)(w_fresh w0 := fresh_sock t)"
proof -
  obtain s where "openSocket env \<lparr>pendingError = None, u_socket = 0, u_host = host, u_port = port,
      u_connected = False, u_preConnectQueue = []\<rparr> w0 = (Inr s, w)"
    and t: "t = \<lparr>pendingError = None, u_socket = s, u_host = host, u_port = port,
      u_connected = False, u_preConnectQueue = []\<rparr>"
    using assms by (auto simp: new_UdpTransport_def Let_def split: prod.splits sum.splits)
  then show "valid_port port" "w_wire w = w_wire w0" "w_fresh w = Suc (w_fresh w0)"
    "t = \<lparr>pendingError = None, u_socket = w_fresh w0, u_host = host, u_port = port,
              u_connected = False, u_preConnectQueue = []\<rparr>"
    "w_socks w = (w_socks w0)(w_fresh w0 := fresh_sock t)"
    by (simp_all add: openSocket_Inr fresh_sock_def)
qed

lemma new_UdpTransport_ok: "new_UdpTransport env host port w0 = (Inr t, w) \<Longrightarrow> udp_ok (t, w)"
  using new_UdpTransport_Inr [of env host port w0 t w]
  by (simp add: udp_ok_def fresh_sock_def PRE_CONNECT_QUEUE_LIMIT_def)

lemma udp_reach_handed:
  assumes "udp_reach env P st0 acc st" and "udp_ok st0"
  shows "udp_ok st" and "(\<And>ev. P ev \<Longrightarrow> \<not> is_connect_failure ev) \<Longrightarrow> udp_handed st = udp_handed st0 @ acc"
  using assms
proof (induction rule: udp_reach.induct)
  case (udp_more acc st ev r st')
  { case 1 with udp_more show ?case using udp_step_ok [of st env ev] by simp }
  { case 2 with udp_more show ?case using udp_step_handed [of st ev env r st'] by simp }
qed simp_all

text \<open>When no connect fails, the flag agrees with the state of the socket.\<close>

definition udp_agrees :: "'a UdpTransport_scheme \<times> node_world \<Rightarrow> bool" where
  "udp_agrees = (\<lambda>(t, w). u_connected t \<longrightarrow> ds_conn (w_socks w (u_socket t)) = Connected)"

lemma runtime_event_agrees:
  "udp_agrees st \<Longrightarrow> \<not> is_connect_failure ev \<Longrightarrow> udp_agrees (snd (runtime_event ev st))"
  by (induction ev st rule: runtime_event.induct)
    (auto simp: udp_agrees_def udp_on_error_def udp_on_sent_def on_connect_done can_complete_def)

lemma udp_send_agrees: "udp_agrees st \<Longrightarrow> udp_agrees (snd (udp_send b st))"
  by (cases st) (auto simp: udp_agrees_def udp_send_def takePendingError_def sock_send_def split: option.splits)

lemma udp_reconnect_agrees:
  assumes "udp_ok st" and "udp_agrees st" shows "udp_agrees (snd (udp_reconnect env st))"
proof (cases "udp_reconnect env st" rule: prod.exhaust)
  case (Pair r st')
  obtain t w where st: "st = (t, w)" by (cases st)
  show ?thesis
  proof (cases r)
    case (Inl e)
    with Pair st obtain w' where "st' = (t, w')" "openSocket env t w = (Inl e, w')"
      by (auto elim: udp_reconnect_Inl)
    with assms Pair st openSocket_Inl(5) [of env t w e w' "u_socket t"] show ?thesis
      by (auto simp: udp_agrees_def udp_ok_def)
  next
    case (Inr u)
    with assms Pair st udp_reconnect_Inr [of env t w st'] show ?thesis
      by (auto simp: udp_agrees_def)
  qed
qed

lemma udp_close_agrees: "udp_agrees st \<Longrightarrow> udp_agrees (snd (udp_close st))"
  by (cases st) (auto simp: udp_agrees_def udp_close_def)

lemma udp_step_agrees:
  assumes "udp_ok st" and "udp_agrees st" and "\<not> is_connect_failure ev"
  shows "udp_agrees (snd (udp_step env ev st))"
  using assms
  by (cases ev) (simp_all add: udp_send_agrees udp_reconnect_agrees runtime_event_agrees udp_close_agrees)

lemma udp_reach_agrees:
  assumes "udp_reach env P st0 acc st" and "udp_ok st0" and "udp_agrees st0"
    and "\<And>ev. P ev \<Longrightarrow> \<not> is_connect_failure ev"
  shows "udp_agrees st"
  using assms
proof (induction rule: udp_reach.induct)
  case (udp_more acc st ev r st')
  with udp_reach_handed(1) [of env P st0 acc st] udp_step_agrees [of st ev env] show ?case by simp
qed

text \<open>The sockets of a transport: which one is open, and where its datagrams go.\<close>

definition udp_sockets :: "node_world \<Rightarrow> 'a UdpTransport_scheme \<times> node_world \<Rightarrow> bool" where
  "udp_sockets w0 = (\<lambda>(t, w).
     w_fresh w0 \<le> u_socket t \<and> u_socket t < w_fresh w \<and>
     ds_peer (w_socks w (u_socket t)) = Some (u_host t, u_port t) \<and>
     (\<forall>s. w_fresh w0 \<le> s \<and> s < w_fresh w \<and> s \<noteq> u_socket t \<longrightarrow> \<not> ds_open (w_socks w s)) \<and>
     (\<exists>out. w_wire w = w_wire w0 @ out \<and>
        (\<forall>(s, d) \<in> set out. s < w_fresh w \<and> ds_peer (w_socks w s) = Some (u_host t, u_port t))))"

lemma runtime_event_sockets: "udp_sockets w0 st \<Longrightarrow> udp_sockets w0 (snd (runtime_event ev st))"
proof (induction ev st rule: runtime_event.induct)
  case (1 s t w)
  then show ?case
    by (fastforce simp: udp_sockets_def on_connect_done)
next
  case (2 s e t w)
  then show ?case
    by (fastforce simp: udp_sockets_def on_connect_failed)
qed (auto simp: udp_sockets_def udp_on_error_def udp_on_sent_def)

lemma udp_send_sockets: "udp_sockets w0 st \<Longrightarrow> udp_sockets w0 (snd (udp_send b st))"
  by (cases st) (auto simp: udp_sockets_def udp_send_def takePendingError_def sock_send_def split: option.splits)

lemma udp_close_sockets: "udp_sockets w0 st \<Longrightarrow> udp_sockets w0 (snd (udp_close st))"
  by (cases st) (fastforce simp: udp_sockets_def udp_close_def)

text \<open>The replacement of the socket, as both transports do it.\<close>

lemma openSocket_sockets:
  assumes "udp_sockets w0 (t, w)" and "openSocket env t w = (Inl e, w')"
  shows "udp_sockets w0 (t, w')"
proof -
  note o = openSocket_Inl [OF assms(2)]
  have old: "w_socks w' s = w_socks w s \<and> s < w_fresh w'" if "s < w_fresh w" for s
    using o(2) o(5) [OF that] that by simp
  have closed: "\<not> ds_open (w_socks w' s)"
    if "w_fresh w0 \<le> s" "s < w_fresh w'" "s \<noteq> u_socket t" for s
    using that assms(1) old [of s] o(6) [of s] by (cases "s < w_fresh w") (auto simp: udp_sockets_def)
  obtain out where out: "w_wire w = w_wire w0 @ out"
    "\<forall>(s, d) \<in> set out. s < w_fresh w \<and> ds_peer (w_socks w s) = Some (u_host t, u_port t)"
    using assms(1) by (auto simp: udp_sockets_def)
  have "\<forall>(s, d) \<in> set out. s < w_fresh w' \<and> ds_peer (w_socks w' s) = Some (u_host t, u_port t)"
    using out(2) old by fastforce
  with assms(1) old [of "u_socket t"] closed out(1) o(1) show ?thesis
    by (auto simp: udp_sockets_def)
qed

lemma replace_sockets:
  assumes "udp_sockets w0 (t, w)" and "openSocket env t w = (Inr s, w')"
    and "u_socket t' = s" and "u_host t' = u_host t" and "u_port t' = u_port t"
  shows "udp_sockets w0 (t', snd (sock_close (u_socket t) w'))"
proof -
  have w': "s = w_fresh w" "w_wire w' = w_wire w" "w_fresh w' = Suc (w_fresh w)"
    "w_socks w' = (w_socks w)(w_fresh w := fresh_sock t)"
    using assms(2) by (simp_all add: openSocket_Inr)
  obtain out where out: "w_wire w = w_wire w0 @ out"
    "\<forall>(s, d) \<in> set out. s < w_fresh w \<and> ds_peer (w_socks w s) = Some (u_host t, u_port t)"
    using assms(1) by (auto simp: udp_sockets_def)
  have "\<forall>(s', d) \<in> set out. s' < Suc (w_fresh w) \<and>
      ds_peer (((w_socks w)(w_fresh w := fresh_sock t, u_socket t := (w_socks w (u_socket t))\<lparr>ds_open := False\<rparr>)) s') =
      Some (u_host t, u_port t)"
    using out(2) by fastforce
  with assms(1,3-) w' out(1) show ?thesis
    by (auto simp: udp_sockets_def fresh_sock_def less_Suc_eq)
qed

lemma udp_reconnect_sockets:
  assumes "udp_sockets w0 st" shows "udp_sockets w0 (snd (udp_reconnect env st))"
  using assms
  by (cases st) (auto simp: udp_reconnect_def openSocket_sockets replace_sockets split: prod.splits sum.splits)

lemma udp_step_sockets: "udp_sockets w0 st \<Longrightarrow> udp_sockets w0 (snd (udp_step env ev st))"
  by (cases ev) (simp_all add: udp_send_sockets udp_reconnect_sockets udp_close_sockets runtime_event_sockets)

lemma new_UdpTransport_sockets:
  "new_UdpTransport env host port w0 = (Inr t, w) \<Longrightarrow> udp_sockets w0 (t, w)"
  using new_UdpTransport_Inr [of env host port w0 t w]
  by (auto simp: udp_sockets_def fresh_sock_def less_Suc_eq)

lemma udp_step_target:
  "udp_step env ev (t, w) = (r, t', w') \<Longrightarrow> u_host t' = u_host t \<and> u_port t' = u_port t"
  by (cases ev) (auto simp: udp_send_def takePendingError_def udp_reconnect_def udp_close_def udp_on_connect_def
      udp_on_error_def udp_on_sent_def Let_def split: prod.splits sum.splits option.splits if_splits)

lemma udp_reach_sockets:
  assumes "udp_reach env P (t0, w1) acc (t, w)" and "udp_sockets w0 (t0, w1)"
  shows "udp_sockets w0 (t, w) \<and> u_host t = u_host t0 \<and> u_port t = u_port t0"
  using assms
proof (induction acc "(t, w)" arbitrary: t w rule: udp_reach.induct)
  case (udp_more acc st ev r)
  obtain ta wa where "st = (ta, wa)" by (cases st)
  with udp_more udp_step_sockets [of w0 st env ev] udp_step_target [of env ev ta wa r t w]
  show ?case by simp
qed simp

subsection \<open>Properties of the UDP transport\<close>

text \<open>C8: over any run of sends, reconnects, closes and runtime events in which no connect fails, the
  datagrams given to the kernel followed by those still queued are exactly the accepted ones, in
  order: reconnecting never loses or duplicates a queued beat. At most 64 datagrams wait, and
  once connected none does.\<close>

theorem udp_delivery:
  assumes "new_UdpTransport env host port w0 = (Inr t0, w1)"
    and "udp_reach env (\<lambda>ev. \<not> is_connect_failure ev) (t0, w1) acc (t, w)"
  shows "map snd (w_wire w) @ u_preConnectQueue t = map snd (w_wire w0) @ acc \<and>
    length (u_preConnectQueue t) \<le> PRE_CONNECT_QUEUE_LIMIT \<and>
    (u_connected t \<longrightarrow> map snd (w_wire w) = map snd (w_wire w0) @ acc)"
proof -
  note n = new_UdpTransport_Inr [OF assms(1)]
  have ok0: "udp_ok (t0, w1)" by (rule new_UdpTransport_ok [OF assms(1)])
  have "udp_agrees (t0, w1)" using n(4) by (simp add: udp_agrees_def)
  with udp_reach_agrees [OF assms(2) ok0] have "udp_agrees (t, w)" by simp
  moreover have "udp_ok (t, w)" by (rule udp_reach_handed(1) [OF assms(2) ok0])
  moreover have "udp_handed (t, w) = udp_handed (t0, w1) @ acc"
    by (rule udp_reach_handed(2) [OF assms(2) ok0])
  ultimately show ?thesis
    using n(2,4) by (auto simp: udp_handed_def udp_ok_def udp_agrees_def split: if_splits)
qed

text \<open>A run to instantiate it: a beat is queued, the socket connects, a second beat is sent.\<close>

lemma udp_example_new:
  "new_UdpTransport quiet_env ''127.0.0.1'' (js_int 9000) start_world =
     (Inr \<lparr>pendingError = None, u_socket = 0, u_host = ''127.0.0.1'', u_port = js_int 9000,
           u_connected = False, u_preConnectQueue = []\<rparr>,
      start_world\<lparr>w_calls := 1, w_fresh := 1,
        w_socks := (\<lambda>_. no_sock)(0 := \<lparr>ds_family = Udp4, ds_conn = Connecting,
          ds_peer = Some (''127.0.0.1'', js_int 9000), ds_open = True, ds_ref = False\<rparr>)\<rparr>)"
  by (simp add: new_UdpTransport_def openSocket_def createSocket_def sock_connect_def sock_unref_def upd_sock_def
      tick_def start_defs fun_eq_iff)

theorem udp_delivery_witness:
  "\<exists>t0 w1 t w. new_UdpTransport quiet_env ''127.0.0.1'' (js_int 9000) start_world = (Inr t0, w1) \<and>
     udp_reach quiet_env (\<lambda>ev. \<not> is_connect_failure ev) (t0, w1) [[1], [2]] (t, w) \<and>
     u_connected t \<and> map snd (w_wire w) = [[1], [2]]"
proof -
  obtain t0 w1 where new: "new_UdpTransport quiet_env ''127.0.0.1'' (js_int 9000) start_world = (Inr t0, w1)"
    and t0: "t0 = \<lparr>pendingError = None, u_socket = 0, u_host = ''127.0.0.1'', u_port = js_int 9000,
           u_connected = False, u_preConnectQueue = []\<rparr>"
    and w1: "w1 = start_world\<lparr>w_calls := 1, w_fresh := 1,
        w_socks := (\<lambda>_. no_sock)(0 := \<lparr>ds_family = Udp4, ds_conn = Connecting,
          ds_peer = Some (''127.0.0.1'', js_int 9000), ds_open = True, ds_ref = False\<rparr>)\<rparr>"
    using udp_example_new by blast
  define t w where "t = t0\<lparr>u_connected := True\<rparr>"
    and "w = (sock_connected 0 w1)\<lparr>w_wire := [(0, [1]), (0, [2])]\<rparr>"
  have "udp_reach quiet_env (\<lambda>ev. \<not> is_connect_failure ev) (t0, w1) ([] @ accepted (UserSend [1]) (Inr ()))
      (t0\<lparr>u_preConnectQueue := [[1]]\<rparr>, w1)"
    by (rule udp_more [OF udp_start])
      (simp_all add: udp_send_def takePendingError_def t0 PRE_CONNECT_QUEUE_LIMIT_def)
  then have "udp_reach quiet_env (\<lambda>ev. \<not> is_connect_failure ev) (t0, w1)
      (([] @ accepted (UserSend [1]) (Inr ())) @ accepted (ConnectDone 0) (Inr ()))
      (t, (sock_connected 0 w1)\<lparr>w_wire := [(0, [1])]\<rparr>)"
    by (rule udp_more) (simp_all add: can_complete_def on_connect_done t0 w1 t_def start_world_def)
  then have "udp_reach quiet_env (\<lambda>ev. \<not> is_connect_failure ev) (t0, w1)
      ((([] @ accepted (UserSend [1]) (Inr ())) @ accepted (ConnectDone 0) (Inr ())) @ accepted (UserSend [2]) (Inr ()))
      (t, w)"
    by (rule udp_more)
      (simp_all add: udp_send_def takePendingError_def t0 w1 t_def w_def sock_send_def)
  then have run: "udp_reach quiet_env (\<lambda>ev. \<not> is_connect_failure ev) (t0, w1) [[1], [2]] (t, w)"
    by simp
  have c: "u_connected t" by (simp add: t_def)
  with udp_delivery [OF new run] have "map snd (w_wire w) = [[1], [2]]"
    by (simp add: start_world_def)
  with new run c show ?thesis by (intro exI conjI)
qed

text \<open>Whatever the runtime does, a transport never leaks a socket and never sends elsewhere:
  of the sockets it created only the current one can be open, that one is aimed at the
  configured host and port, and so was the socket of every datagram it put on the wire.\<close>

theorem udp_single_socket:
  assumes "new_UdpTransport env host port w0 = (Inr t0, w1)"
    and "udp_reach env (\<lambda>_. True) (t0, w1) acc (t, w)"
  shows "{s. w_fresh w0 \<le> s \<and> s < w_fresh w \<and> ds_open (w_socks w s)} \<subseteq> {u_socket t} \<and>
    ds_peer (w_socks w (u_socket t)) = Some (host, port) \<and>
    (\<exists>out. w_wire w = w_wire w0 @ out \<and> (\<forall>(s, d) \<in> set out. ds_peer (w_socks w s) = Some (host, port)))"
proof -
  have "udp_sockets w0 (t, w)" and "u_host t = host" and "u_port t = port"
    using udp_reach_sockets [OF assms(2) new_UdpTransport_sockets [OF assms(1)]]
      new_UdpTransport_Inr(4) [OF assms(1)] by simp_all
  then show ?thesis by (fastforce simp: udp_sockets_def)
qed

theorem udp_single_socket_witness:
  "\<exists>t0 w1 t w. new_UdpTransport quiet_env ''127.0.0.1'' (js_int 9000) start_world = (Inr t0, w1) \<and>
     udp_reach quiet_env (\<lambda>_. True) (t0, w1) [] (t, w) \<and> u_socket t = 1 \<and>
     \<not> ds_open (w_socks w 0) \<and> ds_peer (w_socks w 1) = Some (''127.0.0.1'', js_int 9000)"
proof -
  obtain t0 w1 where new: "new_UdpTransport quiet_env ''127.0.0.1'' (js_int 9000) start_world = (Inr t0, w1)"
    using udp_example_new by blast
  have w1: "w_fresh w1 = 1" "w_fresh start_world = 0" "valid_port (u_port t0)"
    using new_UdpTransport_Inr [OF new] by (simp_all add: start_world_def)
  obtain t w where step: "udp_step quiet_env UserReconnect (t0, w1) = (Inr (), t, w)"
    and t: "u_socket t = 1" and w: "w_fresh w = 2"
    using udp_reconnect_Inr [of quiet_env t0 w1] w1 by (fastforce simp: quiet_env_def)
  have run: "udp_reach quiet_env (\<lambda>_. True) (t0, w1) [] (t, w)"
    using udp_more [OF udp_start, of "\<lambda>_. True" UserReconnect quiet_env "(t0, w1)"] step by simp
  have "\<not> ds_open (w_socks w 0)" and "ds_peer (w_socks w 1) = Some (''127.0.0.1'', js_int 9000)"
    using udp_single_socket [OF new run] w1 t w by (auto dest: subsetD [where c = 0])
  with new run t show ?thesis by blast
qed

text \<open>A connect that fails after it was started is not reported. Node passes the error to the
  callback, which ignores it, marks the transport connected and sends: with a queue this throws
  out of the callback and the first queued datagram is gone, the error slot stays as it was,
  and every later send throws a bad-port error until a reconnect.\<close>

theorem udp_connect_failure_unreported:
  assumes "can_complete (u_socket t) w" and "pendingError t = None"
    and "u_preConnectQueue t = first # rest"
  shows "\<exists>t' w'. udp_step env (ConnectFailed (u_socket t) e) (t, w) = (Inl ERR_SOCKET_BAD_PORT, t', w') \<and>
    pendingError t' = None \<and> u_connected t' \<and> u_preConnectQueue t' = rest \<and> w_wire w' = w_wire w \<and>
    (\<forall>b. udp_send b (t', w') = (Inl ERR_SOCKET_BAD_PORT, t', w'))"
  using assms by (simp add: on_connect_failed udp_send_def takePendingError_def sock_send_def)

theorem udp_connect_failure_unreported_witness:
  "\<exists>t0 w1 t' w'. new_UdpTransport quiet_env ''127.0.0.1'' (js_int 9000) start_world = (Inr t0, w1) \<and>
     udp_step quiet_env (ConnectFailed 0 (new_Error ''getaddrinfo''))
       (t0\<lparr>u_preConnectQueue := [[1], [2]]\<rparr>, w1) = (Inl ERR_SOCKET_BAD_PORT, t', w') \<and>
     pendingError t' = None \<and> w_wire w' = [] \<and> u_preConnectQueue t' = [[2]]"
proof -
  obtain t0 w1 where new: "new_UdpTransport quiet_env ''127.0.0.1'' (js_int 9000) start_world = (Inr t0, w1)"
    using udp_example_new by blast
  note n = new_UdpTransport_Inr [OF new]
  have "can_complete 0 w1" and "pendingError t0 = None" and "w_wire w1 = []" and "u_socket t0 = 0"
    using n by (simp_all add: can_complete_def fresh_sock_def start_world_def)
  with new udp_connect_failure_unreported [of "t0\<lparr>u_preConnectQueue := [[1], [2]]\<rparr>" w1 "[1]" "[[2]]"
      quiet_env "new_Error ''getaddrinfo''"]
  show ?thesis by fastforce
qed

end
