(* ===== verification/Secure_Transport.thy ===== *)
theory Secure_Transport
  imports Udp_Transport Vlp_Secure
begin

section \<open>Secure UDP (\<open>clients/node/src/transport.ts\<close>, \<open>SecureUdpTransport\<close>)\<close>

text \<open>
  The AEAD transport. On top of the socket handling it shares with plaintext UDP it keeps a
  session: a random salt, the index of the current IV prefix and a 32-bit counter. A send reserves
  a nonce, seals the frame, hands the datagram over and only then commits the nonce. The main
  results: every accepted datagram opens, under the transport's key, to the frame that was sent,
  and no nonce is used twice in a session.
\<close>

datatype SecureKey = SharedSecret bytes | MasterSecret bytes

record SecureUdpTransport = UdpTransport +
  s_secret :: SecureKey
  s_sessionSalt :: bytes
  s_ivPrefix :: bytes
  s_prefixIndex :: u32
  s_counter :: u32

record NonceReservation =
  nr_ivRandom :: bytes
  nr_counter :: u32
  nr_nextPrefixIndex :: u32
  nr_nextIvPrefix :: bytes
  nr_nextCounter :: u32

definition U32_MAX :: u32 where "U32_MAX = 0xffffffff"

abbreviation js_u32 :: "u32 \<Rightarrow> jsnum" where "js_u32 n \<equiv> js_int (uint n)"

text \<open>\<open>openSocket\<close> of this class has the body of the plaintext one.\<close>

definition secure_openSocket ::
  "node_env \<Rightarrow> SecureUdpTransport \<Rightarrow> node_world \<Rightarrow> nat throws \<times> node_world" where
  "secure_openSocket env t w = openSocket env t w"

definition new_SecureUdpTransport ::
  "node_env \<Rightarrow> string \<Rightarrow> jsnum \<Rightarrow> SecureKey \<Rightarrow> node_world \<Rightarrow> SecureUdpTransport throws \<times> node_world" where
  "new_SecureUdpTransport env host port secret w =
     (case randomBytes env SESSION_SALT_BYTES w of
        (Inl e, w1) \<Rightarrow> (Inl e, w1)
      | (Inr salt, w1) \<Rightarrow>
          (case deriveIvPrefix salt (js_u32 0) of
             Inl e \<Rightarrow> (Inl e, w1)
           | Inr prefix \<Rightarrow>
               (let t = \<lparr>pendingError = None, u_socket = 0, u_host = host, u_port = port,
                         u_connected = False, u_preConnectQueue = [], s_secret = secret,
                         s_sessionSalt = salt, s_ivPrefix = prefix, s_prefixIndex = 0, s_counter = 0\<rparr>
                in case secure_openSocket env t w1 of
                     (Inl e, w2) \<Rightarrow> (Inl e, w2)
                   | (Inr s, w2) \<Rightarrow> (Inr (t\<lparr>u_socket := s\<rparr>), w2))))"

definition secure_shared ::
  "node_env \<Rightarrow> string \<Rightarrow> jsnum \<Rightarrow> bytes \<Rightarrow> node_world \<Rightarrow> SecureUdpTransport throws \<times> node_world" where
  "secure_shared env host port key w =
     (if length key \<noteq> 32 then (Inl (new_RangeError ''secure-UDP shared key must be 32 bytes''), w)
      else new_SecureUdpTransport env host port (SharedSecret key) w)"

definition secure_master ::
  "node_env \<Rightarrow> string \<Rightarrow> jsnum \<Rightarrow> bytes \<Rightarrow> node_world \<Rightarrow> SecureUdpTransport throws \<times> node_world" where
  "secure_master env host port masterKey w =
     (if length masterKey \<noteq> 32 then (Inl (new_RangeError ''secure-UDP master key must be 32 bytes''), w)
      else new_SecureUdpTransport env host port (MasterSecret masterKey) w)"

definition secure_reconnect ::
  "node_env \<Rightarrow> SecureUdpTransport \<times> node_world \<Rightarrow> unit throws \<times> SecureUdpTransport \<times> node_world" where
  "secure_reconnect env = (\<lambda>(t, w).
     case randomBytes env SESSION_SALT_BYTES w of
       (Inl e, w1) \<Rightarrow> (Inl e, t, w1)
     | (Inr newSalt, w1) \<Rightarrow>
         (case deriveIvPrefix newSalt (js_u32 0) of
            Inl e \<Rightarrow> (Inl e, t, w1)
          | Inr newIvPrefix \<Rightarrow>
              (case secure_openSocket env t w1 of
                 (Inl e, w2) \<Rightarrow> (Inl e, t, w2)
               | (Inr newSocket, w2) \<Rightarrow>
                   (let old = u_socket t
                    in (Inr (),
                        t\<lparr>u_socket := newSocket, u_connected := False, pendingError := None,
                          s_sessionSalt := newSalt, s_prefixIndex := 0, s_counter := 0,
                          s_ivPrefix := newIvPrefix\<rparr>,
                        snd (sock_close old w2))))))"

definition reserve_nonce :: "SecureUdpTransport \<Rightarrow> NonceReservation throws" where
  "reserve_nonce t =
     js_bind
       (if s_counter t = U32_MAX
        then js_bind (deriveIvPrefix (s_sessionSalt t) (js_u32 (s_prefixIndex t + 1)))
               (\<lambda>p. Inr (s_prefixIndex t + 1, p, 0))
        else Inr (s_prefixIndex t, s_ivPrefix t, s_counter t))
       (\<lambda>(nextPrefixIndex, nextIvPrefix, counter).
          Inr \<lparr>nr_ivRandom = subarray nextIvPrefix 0 IV_RANDOM_BYTES, nr_counter = counter,
               nr_nextPrefixIndex = nextPrefixIndex, nr_nextIvPrefix = nextIvPrefix,
               nr_nextCounter = counter + 1\<rparr>)"

definition prepareNonce ::
  "node_env \<Rightarrow> SecureUdpTransport \<times> node_world \<Rightarrow> NonceReservation throws \<times> SecureUdpTransport \<times> node_world" where
  "prepareNonce env = (\<lambda>(t, w).
     if s_counter t = U32_MAX \<and> s_prefixIndex t = U32_MAX
     then (case secure_reconnect env (t, w) of
             (Inl e, t1, w1) \<Rightarrow> (Inl e, t1, w1)
           | (Inr _, t1, w1) \<Rightarrow> (reserve_nonce t1, t1, w1))
     else (reserve_nonce t, t, w))"

definition commitNonce :: "NonceReservation \<Rightarrow> SecureUdpTransport \<Rightarrow> SecureUdpTransport" where
  "commitNonce r t =
     t\<lparr>s_prefixIndex := nr_nextPrefixIndex r, s_ivPrefix := nr_nextIvPrefix r, s_counter := nr_nextCounter r\<rparr>"

text \<open>Sealing the frame under the reserved nonce, with the key the transport was made with.\<close>

definition seal_frame :: "SecureKey \<Rightarrow> int \<Rightarrow> NonceReservation \<Rightarrow> bytes \<Rightarrow> bytes throws" where
  "seal_frame secret pid nonce buf =
     (case secret of
        SharedSecret key \<Rightarrow> encodeShared key (nr_ivRandom nonce) (js_u32 (nr_counter nonce)) buf
      | MasterSecret masterKey \<Rightarrow>
          encodeMaster masterKey (js_u32 (to_uint32 (js_int pid))) (nr_ivRandom nonce)
            (js_u32 (nr_counter nonce)) buf)"

definition secure_send ::
  "node_env \<Rightarrow> bytes \<Rightarrow> SecureUdpTransport \<times> node_world \<Rightarrow> unit throws \<times> SecureUdpTransport \<times> node_world" where
  "secure_send env buf = (\<lambda>(t0, w0).
     case takePendingError t0 of
       (Some queued, t) \<Rightarrow> (Inl queued, t, w0)
     | (None, t1) \<Rightarrow>
         if length buf \<noteq> PLAINTEXT_BYTES
         then (Inl (new_RangeError ''plaintext must be a 32-byte VLP frame''), t1, w0)
         else if \<not> u_connected t1 \<and> length (u_preConnectQueue t1) \<ge> PRE_CONNECT_QUEUE_LIMIT
         then (Inl (queue_full_error ''SecureUdpTransport''), t1, w0)
         else case prepareNonce env (t1, w0) of
           (Inl e, t, w) \<Rightarrow> (Inl e, t, w)
         | (Inr nonce, t, w) \<Rightarrow>
             (case seal_frame (s_secret t) (w_pid w) nonce buf of
                Inl e \<Rightarrow> (Inl e, t, w)
              | Inr wire \<Rightarrow>
                  if \<not> u_connected t
                  then (Inr (), commitNonce nonce (t\<lparr>u_preConnectQueue := u_preConnectQueue t @ [wire]\<rparr>), w)
                  else (case sock_send (u_socket t) wire w of
                          (Inl e, w1) \<Rightarrow> (Inl e, t, w1)
                        | (Inr _, w1) \<Rightarrow> (Inr (), commitNonce nonce t, w1))))"

text \<open>The hooks that the tests of the client use.\<close>

definition secure_close :: "'a UdpTransport_scheme \<times> node_world \<Rightarrow> unit throws \<times> 'a UdpTransport_scheme \<times> node_world" where
  "secure_close = (\<lambda>(t, w). (Inr (), t, snd (sock_close (u_socket t) w)))"

lemma secure_close_eq [simp]: "secure_close = udp_close"
  by (simp add: secure_close_def udp_close_def)

definition getCounterForTest :: "SecureUdpTransport \<Rightarrow> u32" where
  "getCounterForTest t = s_counter t"

definition getPrefixIndexForTest :: "SecureUdpTransport \<Rightarrow> u32" where
  "getPrefixIndexForTest t = s_prefixIndex t"

definition getIvPrefixForTest :: "SecureUdpTransport \<Rightarrow> bytes" where
  "getIvPrefixForTest t = s_ivPrefix t"

definition setCounterForTest :: "jsnum \<Rightarrow> SecureUdpTransport \<Rightarrow> SecureUdpTransport" where
  "setCounterForTest v t = t\<lparr>s_counter := to_uint32 v\<rparr>"

definition setPrefixIndexForTest :: "jsnum \<Rightarrow> SecureUdpTransport \<Rightarrow> unit throws \<times> SecureUdpTransport" where
  "setPrefixIndexForTest v t =
     (case deriveIvPrefix (s_sessionSalt t) (js_u32 (to_uint32 v)) of
        Inl e \<Rightarrow> (Inl e, t\<lparr>s_prefixIndex := to_uint32 v\<rparr>)
      | Inr p \<Rightarrow> (Inr (), t\<lparr>s_prefixIndex := to_uint32 v, s_ivPrefix := p\<rparr>))"

subsection \<open>Runs\<close>

fun secure_step ::
  "node_env \<Rightarrow> net_event \<Rightarrow> SecureUdpTransport \<times> node_world \<Rightarrow> unit throws \<times> SecureUdpTransport \<times> node_world" where
  "secure_step env (UserSend b) st = secure_send env b st"
| "secure_step env UserReconnect st = secure_reconnect env st"
| "secure_step env UserClose st = secure_close st"
| "secure_step env ev st = runtime_event ev st"

text \<open>The nonce of an accepted send, read off the state after it: the salt and prefix index that
  the IV prefix was derived from, and the counter that was committed past.\<close>

type_synonym nonce_id = "bytes \<times> u32 \<times> u32"

fun used_nonce :: "net_event \<Rightarrow> unit throws \<Rightarrow> SecureUdpTransport \<Rightarrow> nonce_id list" where
  "used_nonce (UserSend b) (Inr _) t' = [(s_sessionSalt t', s_prefixIndex t', s_counter t' - 1)]"
| "used_nonce _ _ _ = []"

inductive secure_reach ::
  "node_env \<Rightarrow> SecureUdpTransport \<times> node_world \<Rightarrow> nonce_id list \<Rightarrow> SecureUdpTransport \<times> node_world \<Rightarrow> bool"
  for env st0 where
  secure_start: "secure_reach env st0 [] st0"
| secure_more: "secure_reach env st0 used st \<Longrightarrow> secure_step env ev st = (r, t', w') \<Longrightarrow>
     secure_reach env st0 (used @ used_nonce ev r t') (t', w')"

subsection \<open>The session invariant\<close>

definition iv_prefix :: "bytes \<Rightarrow> u32 \<Rightarrow> bytes" where
  "iv_prefix salt i = hkdfSync salt [] (info_of (IvPrefix i)) 8"

fun secret_ok :: "SecureKey \<Rightarrow> bool" where
  "secret_ok (SharedSecret key) \<longleftrightarrow> length key = 32"
| "secret_ok (MasterSecret key) \<longleftrightarrow> length key = 32"

definition session_ok :: "SecureUdpTransport \<Rightarrow> bool" where
  "session_ok t \<longleftrightarrow> secret_ok (s_secret t) \<and> length (s_sessionSalt t) = 16 \<and>
     s_ivPrefix t = iv_prefix (s_sessionSalt t) (s_prefixIndex t)"

definition secure_ok :: "SecureUdpTransport \<times> node_world \<Rightarrow> bool" where
  "secure_ok st \<longleftrightarrow> udp_ok st \<and> session_ok (fst st)"

definition salt_at :: "node_env \<Rightarrow> nat \<Rightarrow> bytes" where
  "salt_at env k = (case env_randomBytes env k of Inl e \<Rightarrow> [] | Inr f \<Rightarrow> map f [0..<16])"

lemma length_iv_prefix [simp]: "length (iv_prefix salt i) = 8"
  by (simp add: iv_prefix_def)

lemma deriveIvPrefix_u32: "length salt = 16 \<Longrightarrow> deriveIvPrefix salt (js_u32 i) = Inr (iv_prefix salt i)"
  by (simp only: deriveIvPrefix_eq to_uint32_uint iv_prefix_def info_of.simps) simp

lemmas deriveIvPrefix_0 = deriveIvPrefix_u32 [of _ 0, simplified]

lemma randomBytes_salt:
  "randomBytes env SESSION_SALT_BYTES w = (Inr salt, w') \<Longrightarrow>
     salt = salt_at env (w_calls w) \<and> length salt = 16 \<and> w' = tick w"
  by (auto simp: randomBytes_def salt_at_def SESSION_SALT_BYTES_def split: sum.splits)

lemma randomBytes_throws: "randomBytes env n w = (Inl e, w') \<Longrightarrow> w' = tick w"
  by (auto simp: randomBytes_def split: sum.splits)

lemma secure_reconnect_Inr:
  assumes "secure_reconnect env (t, w) = (Inr (), t', w')"
  obtains w2 where "openSocket env t (tick w) = (Inr (u_socket t'), w2)"
    and "w' = snd (sock_close (u_socket t) w2)"
    and "t' = t\<lparr>u_socket := u_socket t', u_connected := False, pendingError := None,
           s_sessionSalt := salt_at env (w_calls w), s_prefixIndex := 0, s_counter := 0,
           s_ivPrefix := iv_prefix (salt_at env (w_calls w)) 0\<rparr>"
    and "length (salt_at env (w_calls w)) = 16"
proof -
  obtain salt where r: "randomBytes env SESSION_SALT_BYTES w = (Inr salt, tick w)"
    using assms by (auto simp: secure_reconnect_def split: prod.splits sum.splits
        dest: randomBytes_salt randomBytes_throws)
  have s: "salt = salt_at env (w_calls w)" and "length salt = 16"
    using randomBytes_salt [OF r] by blast+
  then have "length (salt_at env (w_calls w)) = 16"
    and "deriveIvPrefix salt (js_u32 0) = Inr (iv_prefix salt 0)"
    by (simp_all add: deriveIvPrefix_0)
  with assms r s show ?thesis
    by (auto simp: secure_reconnect_def secure_openSocket_def Let_def split: prod.splits sum.splits intro!: that)
qed

lemma secure_reconnect_Inl:
  assumes "secure_reconnect env (t, w) = (Inl e, t', w')"
  shows "t' = t \<and> (w' = tick w \<or> openSocket env t (tick w) = (Inl e, w'))"
proof (cases "randomBytes env SESSION_SALT_BYTES w")
  case (Pair r w1)
  show ?thesis
  proof (cases r)
    case (Inl e')
    with assms Pair randomBytes_throws [of env SESSION_SALT_BYTES w e' w1] show ?thesis
      by (simp add: secure_reconnect_def)
  next
    case (Inr salt)
    with Pair have s: "length salt = 16" "w1 = tick w" using randomBytes_salt by blast+
    with assms Pair Inr deriveIvPrefix_u32 [OF s(1), of 0] show ?thesis
      by (auto simp: secure_reconnect_def secure_openSocket_def Let_def split: prod.splits sum.splits)
  qed
qed

lemma secure_reconnect_ok:
  assumes "secure_ok (t, w)" and "secure_reconnect env (t, w) = (r, t', w')"
  shows "secure_ok (t', w')"
    and "w_wire w' = w_wire w" and "w_calls w < w_calls w'" and "w_pid w' = w_pid w"
    and "u_preConnectQueue t' = u_preConnectQueue t" and "s_secret t' = s_secret t"
proof -
  have u: "udp_ok (t, tick w)" using assms(1) by (simp add: secure_ok_def udp_ok_def)
  have "secure_ok (t', w') \<and> w_wire w' = w_wire w \<and> w_calls w < w_calls w' \<and> w_pid w' = w_pid w \<and>
    u_preConnectQueue t' = u_preConnectQueue t \<and> s_secret t' = s_secret t"
  proof (cases r)
    case (Inl e)
    then have "t' = t" and "w' = tick w \<or> openSocket env t (tick w) = (Inl e, w')"
      using secure_reconnect_Inl assms(2) by blast+
    with u assms(1) openSocket_Inl [of env t "tick w" e w'] show ?thesis
      by (auto simp: secure_ok_def udp_ok_def)
  next
    case (Inr v)
    with assms(2) have "secure_reconnect env (t, w) = (Inr (), t', w')" by simp
    then obtain w2 where "openSocket env t (tick w) = (Inr (u_socket t'), w2)"
      and "w' = snd (sock_close (u_socket t) w2)"
      and "t' = t\<lparr>u_socket := u_socket t', u_connected := False, pendingError := None,
           s_sessionSalt := salt_at env (w_calls w), s_prefixIndex := 0, s_counter := 0,
           s_ivPrefix := iv_prefix (salt_at env (w_calls w)) 0\<rparr>"
      and "length (salt_at env (w_calls w)) = 16"
      by (rule secure_reconnect_Inr)
    with u assms(1) show ?thesis
      by (auto simp: openSocket_Inr secure_ok_def udp_ok_def session_ok_def fresh_sock_def split: if_splits)
  qed
  then show "secure_ok (t', w')" "w_wire w' = w_wire w" "w_calls w < w_calls w'" "w_pid w' = w_pid w"
    "u_preConnectQueue t' = u_preConnectQueue t" "s_secret t' = s_secret t" by simp_all
qed

subsection \<open>Reserving a nonce\<close>

text \<open>A session position is the salt with the prefix index and counter of the next frame; the slot
  that frame takes skips the counter value \<open>U32_MAX\<close>, which the code never uses.\<close>

definition session :: "SecureUdpTransport \<Rightarrow> nonce_id" where
  "session t = (s_sessionSalt t, s_prefixIndex t, s_counter t)"

fun slot :: "nonce_id \<Rightarrow> u32 \<times> u32" where
  "slot (salt, i, c) = (if c = U32_MAX then (i + 1, 0) else (i, c))"

fun exhausted :: "nonce_id \<Rightarrow> bool" where
  "exhausted (salt, i, c) \<longleftrightarrow> c = U32_MAX \<and> i = U32_MAX"

definition reservation :: "bytes \<Rightarrow> u32 \<times> u32 \<Rightarrow> NonceReservation" where
  "reservation salt = (\<lambda>(i, c).
     \<lparr>nr_ivRandom = iv_prefix salt i, nr_counter = c, nr_nextPrefixIndex = i,
      nr_nextIvPrefix = iv_prefix salt i, nr_nextCounter = c + 1\<rparr>)"

lemma reserve_nonce_eq:
  assumes "session_ok t"
  shows "reserve_nonce t = Inr (reservation (s_sessionSalt t) (slot (session t)))"
proof -
  have "length (s_sessionSalt t) = 16" and p: "s_ivPrefix t = iv_prefix (s_sessionSalt t) (s_prefixIndex t)"
    using assms by (simp_all add: session_ok_def)
  note d = deriveIvPrefix_u32 [OF this(1), of "s_prefixIndex t + 1"]
  have "subarray (iv_prefix (s_sessionSalt t) i) 0 8 = iv_prefix (s_sessionSalt t) i" for i
    by (rule subarray_all) simp
  then show ?thesis
    by (simp only: reserve_nonce_def session_def reservation_def IV_RANDOM_BYTES_def d p
        js_bind_simps slot.simps split_conv if_distrib [of Inr] split: if_split) simp
qed

lemma secure_reconnect_session:
  assumes "secure_reconnect env (t, w) = (Inr (), t', w')"
  shows "session t' = (salt_at env (w_calls w), 0, 0)" and "\<not> u_connected t'" and "pendingError t' = None"
proof -
  have "session t' = (salt_at env (w_calls w), 0, 0) \<and> \<not> u_connected t' \<and> pendingError t' = None"
    using assms
  proof (rule secure_reconnect_Inr)
    assume eq: "t' = t\<lparr>u_socket := u_socket t', u_connected := False, pendingError := None,
           s_sessionSalt := salt_at env (w_calls w), s_prefixIndex := 0, s_counter := 0,
           s_ivPrefix := iv_prefix (salt_at env (w_calls w)) 0\<rparr>"
    show ?thesis by (subst (1 2 3) eq) (simp add: session_def)
  qed
  then show "session t' = (salt_at env (w_calls w), 0, 0)" "\<not> u_connected t'" "pendingError t' = None"
    by simp_all
qed

lemma prepareNonce_result:
  assumes "secure_ok (t, w)" and "prepareNonce env (t, w) = (r, t', w')"
  shows "secure_ok (t', w') \<and> w_wire w' = w_wire w \<and> w_pid w' = w_pid w \<and> w_calls w \<le> w_calls w' \<and>
    u_preConnectQueue t' = u_preConnectQueue t \<and> s_secret t' = s_secret t \<and>
    (t' = t \<or> session t' = (salt_at env (w_calls w), 0, 0) \<and> w_calls w < w_calls w' \<and> \<not> u_connected t') \<and>
    (\<forall>n. r = Inr n \<longrightarrow> n = reservation (s_sessionSalt t') (slot (session t')) \<and> \<not> exhausted (session t'))"
proof (cases "exhausted (session t)")
  case False
  with assms show ?thesis
    by (auto simp: prepareNonce_def session_def reserve_nonce_eq secure_ok_def)
next
  case True
  then obtain q where q: "secure_reconnect env (t, w) = (q, t', w')"
    and r: "r = (case q of Inl e \<Rightarrow> Inl e | Inr _ \<Rightarrow> reserve_nonce t')"
    using assms(2) by (auto simp: prepareNonce_def session_def split: prod.splits sum.splits)
  note k = secure_reconnect_ok [OF assms(1) q]
  show ?thesis
  proof (cases q)
    case (Inl e)
    then have "t' = t" using secure_reconnect_Inl q by blast
    with k r Inl show ?thesis by simp
  next
    case (Inr u)
    then have "secure_reconnect env (t, w) = (Inr (), t', w')" using q by simp
    note new = secure_reconnect_session [OF this]
    moreover have "reserve_nonce t' = Inr (reservation (s_sessionSalt t') (slot (session t')))"
      using k(1) by (intro reserve_nonce_eq) (simp add: secure_ok_def)
    moreover have "\<not> exhausted (session t')" by (simp add: new(1) U32_MAX_def)
    ultimately show ?thesis using k r Inr by simp
  qed
qed

subsection \<open>Sending\<close>

lemma commit_session [simp]:
  "session (commitNonce (reservation salt (i, c)) t) = (s_sessionSalt t, i, c + 1)"
  by (simp add: session_def commitNonce_def reservation_def)

lemma commit_frame [simp]:
  "u_preConnectQueue (commitNonce n t) = u_preConnectQueue t" "s_secret (commitNonce n t) = s_secret t"
  "s_sessionSalt (commitNonce n t) = s_sessionSalt t"
  by (simp_all add: commitNonce_def)

lemma commit_ok:
  assumes "secure_ok (t, w)"
  shows "secure_ok (commitNonce (reservation (s_sessionSalt t) ic) t, w)"
  using assms
  by (cases ic) (auto simp: secure_ok_def udp_ok_def session_ok_def commitNonce_def reservation_def)

lemma push_ok:
  assumes "secure_ok (t, w)" and "\<not> u_connected t"
    and "length (u_preConnectQueue t) < PRE_CONNECT_QUEUE_LIMIT"
  shows "secure_ok (t\<lparr>u_preConnectQueue := u_preConnectQueue t @ [d]\<rparr>, w)"
  using assms by (auto simp: secure_ok_def udp_ok_def session_ok_def)

text \<open>The part of \<open>send\<close> after the nonce is reserved.\<close>

definition handover ::
  "NonceReservation \<Rightarrow> bytes \<Rightarrow> SecureUdpTransport \<times> node_world \<Rightarrow> unit throws \<times> SecureUdpTransport \<times> node_world" where
  "handover n b = (\<lambda>(t, w).
     case seal_frame (s_secret t) (w_pid w) n b of
       Inl e \<Rightarrow> (Inl e, t, w)
     | Inr wire \<Rightarrow>
         if \<not> u_connected t
         then (Inr (), commitNonce n (t\<lparr>u_preConnectQueue := u_preConnectQueue t @ [wire]\<rparr>), w)
         else (case sock_send (u_socket t) wire w of
                 (Inl e, w1) \<Rightarrow> (Inl e, t, w1)
               | (Inr _, w1) \<Rightarrow> (Inr (), commitNonce n t, w1)))"

lemma handover_result:
  assumes ok: "secure_ok (t, w)"
    and room: "\<not> u_connected t \<Longrightarrow> length (u_preConnectQueue t) < PRE_CONNECT_QUEUE_LIMIT"
    and n: "n = reservation (s_sessionSalt t) ic"
    and h: "handover n b (t, w) = (r, t', w')"
  shows "secure_ok (t', w') \<and> s_secret t' = s_secret t \<and> w_pid w' = w_pid w \<and> w_calls w' = w_calls w \<and>
    (case r of
       Inl e \<Rightarrow> udp_handed (t', w') = udp_handed (t, w) \<and> session t' = session t
     | Inr _ \<Rightarrow> session t' = (s_sessionSalt t, fst ic, snd ic + 1) \<and>
         (\<exists>d. seal_frame (s_secret t) (w_pid w) n b = Inr d \<and> udp_handed (t', w') = udp_handed (t, w) @ [d]))"
proof (cases "seal_frame (s_secret t) (w_pid w) n b")
  case (Inl e)
  with ok h show ?thesis by (auto simp: handover_def)
next
  case (Inr d)
  let ?t = "t\<lparr>u_preConnectQueue := u_preConnectQueue t @ [d]\<rparr>"
  show ?thesis
  proof (cases "u_connected t")
    case False
    then have "secure_ok (commitNonce (reservation (s_sessionSalt ?t) ic) ?t, w)"
      using ok room by (intro commit_ok push_ok) simp_all
    with h Inr False show ?thesis
      by (cases ic) (auto simp: handover_def n udp_handed_def)
  next
    case True
    note send = sock_send_frame [of "u_socket t" d w] sock_send_wire [of "u_socket t" d w]
    have ok': "secure_ok (t, snd (sock_send (u_socket t) d w))"
      using ok send by (simp add: secure_ok_def udp_ok_def)
    have "u_preConnectQueue t = []" if "fst (sock_send (u_socket t) d w) = Inr ()"
      using that ok by (auto simp: sock_send_ok_iff secure_ok_def udp_ok_def)
    with h Inr True ok' send commit_ok [OF ok', of ic] show ?thesis
      by (cases ic; cases "sock_send (u_socket t) d w")
        (auto simp: handover_def n udp_handed_def split: sum.splits)
  qed
qed

lemma secure_send_eq:
  "secure_send env b (t, w) =
     (if pendingError t \<noteq> None then (Inl (the (pendingError t)), t\<lparr>pendingError := None\<rparr>, w)
      else if length b \<noteq> PLAINTEXT_BYTES
      then (Inl (new_RangeError ''plaintext must be a 32-byte VLP frame''), t, w)
      else if \<not> u_connected t \<and> length (u_preConnectQueue t) \<ge> PRE_CONNECT_QUEUE_LIMIT
      then (Inl (queue_full_error ''SecureUdpTransport''), t, w)
      else case prepareNonce env (t, w) of
             (Inl e, st) \<Rightarrow> (Inl e, st)
           | (Inr n, st) \<Rightarrow> handover n b st)"
proof (cases "pendingError t")
  case None
  then have "t\<lparr>pendingError := None\<rparr> = t" by simp
  then have "takePendingError t = (None, t)" using None by (simp only: takePendingError_def)
  then show ?thesis
    using None by (simp add: secure_send_def handover_def split: prod.split sum.split)
next
  case (Some e)
  then show ?thesis by (simp add: secure_send_def takePendingError_def)
qed

text \<open>What one send does to the session and to the datagrams handed over. \<open>sess\<close> is the position
  the nonce was taken at: the old one, or the start of a fresh session.\<close>

definition send_effect ::
  "node_env \<Rightarrow> bytes \<Rightarrow> SecureUdpTransport \<times> node_world \<Rightarrow> unit throws \<Rightarrow> SecureUdpTransport \<times> node_world \<Rightarrow> nonce_id \<Rightarrow> bool" where
  "send_effect env b = (\<lambda>(t, w) r (t', w') sess.
     (sess = session t \<or> sess = (salt_at env (w_calls w), 0, 0) \<and> w_calls w < w_calls w') \<and>
     (case r of
        Inl e \<Rightarrow> udp_handed (t', w') = udp_handed (t, w) \<and> session t' = sess
      | Inr _ \<Rightarrow> \<not> exhausted sess \<and>
          session t' = (fst sess, fst (slot sess), snd (slot sess) + 1) \<and>
          (\<exists>d. seal_frame (s_secret t) (w_pid w) (reservation (fst sess) (slot sess)) b = Inr d \<and>
               udp_handed (t', w') = udp_handed (t, w) @ [d])))"

lemma secure_send_effect:
  assumes ok: "secure_ok (t, w)" and send: "secure_send env b (t, w) = (r, t', w')"
  shows "secure_ok (t', w') \<and> s_secret t' = s_secret t \<and> w_pid w' = w_pid w \<and> w_calls w \<le> w_calls w' \<and>
    (\<exists>sess. send_effect env b (t, w) r (t', w') sess)"
proof (cases "pendingError t = None \<and> length b = PLAINTEXT_BYTES \<and>
    (u_connected t \<or> length (u_preConnectQueue t) < PRE_CONNECT_QUEUE_LIMIT)")
  case False
  then have "isl r \<and> t' = t\<lparr>pendingError := None\<rparr> \<and> w' = w"
    using send by (auto simp: secure_send_eq isl_def split: if_splits)
  then have "send_effect env b (t, w) r (t', w') (session t)" and "secure_ok (t', w')" and "s_secret t' = s_secret t"
    using ok by (auto simp: send_effect_def udp_handed_def session_def isl_def secure_ok_def udp_ok_def session_ok_def)
  moreover have "w_pid w' = w_pid w" and "w_calls w \<le> w_calls w'"
    using \<open>isl r \<and> _\<close> by simp_all
  ultimately show ?thesis by blast
next
  case True
  obtain q t1 w1 where prep: "prepareNonce env (t, w) = (q, t1, w1)" by (metis prod_cases3)
  note p = prepareNonce_result [OF ok prep]
  have room: "length (u_preConnectQueue t1) < PRE_CONNECT_QUEUE_LIMIT" if "\<not> u_connected t1"
    using True that p ok by (cases "u_connected t") (auto simp: secure_ok_def udp_ok_def)
  have h1: "udp_handed (t1, w1) = udp_handed (t, w)" using p by (simp add: udp_handed_def)
  have "secure_ok (t', w') \<and> s_secret t' = s_secret t \<and> w_pid w' = w_pid w \<and> w_calls w \<le> w_calls w' \<and>
      send_effect env b (t, w) r (t', w') (session t1)"
  proof (cases q)
    case (Inl e)
    then have "r = Inl e \<and> t' = t1 \<and> w' = w1"
      using send True prep by (auto simp: secure_send_eq)
    with p h1 show ?thesis by (auto simp: send_effect_def)
  next
    case (Inr n)
    then have n: "n = reservation (s_sessionSalt t1) (slot (session t1))" "\<not> exhausted (session t1)"
      using p by auto
    have "handover n b (t1, w1) = (r, t', w')"
      using send True prep Inr by (auto simp: secure_send_eq)
    from handover_result [OF _ room n(1) this] p
    have h: "secure_ok (t', w') \<and> s_secret t' = s_secret t1 \<and> w_pid w' = w_pid w1 \<and> w_calls w' = w_calls w1 \<and>
      (case r of
         Inl e \<Rightarrow> udp_handed (t', w') = udp_handed (t1, w1) \<and> session t' = session t1
       | Inr _ \<Rightarrow> session t' = (s_sessionSalt t1, fst (slot (session t1)), snd (slot (session t1)) + 1) \<and>
           (\<exists>d. seal_frame (s_secret t1) (w_pid w1) n b = Inr d \<and> udp_handed (t', w') = udp_handed (t1, w1) @ [d]))"
      by simp
    have "fst (session t1) = s_sessionSalt t1" by (simp add: session_def)
    with h p h1 n show ?thesis by (cases r) (auto simp: send_effect_def)
  qed
  then show ?thesis by blast
qed

subsection \<open>The transport implements the interface\<close>

fun open_datagram :: "SecureKey \<Rightarrow> bytes \<Rightarrow> bytes option" where
  "open_datagram (SharedSecret key) d = (case decodeShared key d of Inl e \<Rightarrow> None | Inr b \<Rightarrow> Some b)"
| "open_datagram (MasterSecret key) d = (case decodeMaster key d of Inl e \<Rightarrow> None | Inr b \<Rightarrow> Some b)"

lemma open_sealed: "seal_frame secret pid n b = Inr d \<Longrightarrow> open_datagram secret d = Some b"
  by (cases secret) (auto simp: seal_frame_def decodeShared_encodeShared decodeMaster_encodeMaster(1))

lemma secure_reconnect_keeps:
  assumes "secure_ok st"
  shows "secure_ok (snd (secure_reconnect env st))"
    and "s_secret (fst (snd (secure_reconnect env st))) = s_secret (fst st)"
    and "udp_handed (snd (secure_reconnect env st)) = udp_handed st"
proof -
  obtain t w where st: "st = (t, w)" by (cases st)
  obtain r t' w' where r: "secure_reconnect env (t, w) = (r, t', w')" by (metis prod_cases3)
  from secure_reconnect_ok [OF assms [unfolded st] r]
  show "secure_ok (snd (secure_reconnect env st))"
    "s_secret (fst (snd (secure_reconnect env st))) = s_secret (fst st)"
    "udp_handed (snd (secure_reconnect env st)) = udp_handed st"
    by (simp_all add: st r udp_handed_def)
qed

lemma secure_send_keeps:
  assumes "secure_ok st"
  shows "secure_ok (snd (secure_send env b st))"
    and "s_secret (fst (snd (secure_send env b st))) = s_secret (fst st)"
proof -
  obtain t w where st: "st = (t, w)" by (cases st)
  obtain r t' w' where r: "secure_send env b (t, w) = (r, t', w')" by (metis prod_cases3)
  from secure_send_effect [OF assms [unfolded st] r]
  show "secure_ok (snd (secure_send env b st))"
    "s_secret (fst (snd (secure_send env b st))) = s_secret (fst st)"
    by (simp_all add: st r)
qed

lemma secure_close_ok: "secure_ok st \<Longrightarrow> secure_ok (snd (udp_close st))"
  by (cases st) (use udp_close_ok in \<open>auto simp: secure_ok_def udp_close_def\<close>)

definition secure_opens :: "SecureUdpTransport \<times> node_world \<Rightarrow> bytes \<Rightarrow> bytes option" where
  "secure_opens st = open_datagram (s_secret (fst st))"

lemma secure_send_handed:
  assumes "secure_ok st" and "secure_send env b st = (r, st')"
  shows "case r of Inl e \<Rightarrow> udp_handed st' = udp_handed st
    | Inr _ \<Rightarrow> \<exists>d. udp_handed st' = udp_handed st @ [d] \<and> secure_opens st d = Some b"
proof -
  obtain t w t' w' where [simp]: "st = (t, w)" "st' = (t', w')" by (cases st, cases st')
  from secure_send_effect [of t w env b r t' w'] assms
  obtain sess where "send_effect env b (t, w) r (t', w') sess" by auto
  then show ?thesis
    by (cases r) (auto simp: send_effect_def secure_opens_def dest: open_sealed)
qed

interpretation secure: beat_transport "secure_send env" "secure_reconnect env" secure_close secure_ok fst udp_handed secure_opens
proof unfold_locales
  fix s s' and b
  assume "secure_ok s" and "secure_send env b s = (Inr (), s')"
  from secure_send_handed [OF this]
  show "\<exists>d. udp_handed s' = udp_handed s @ [d] \<and> secure_opens s d = Some b" by simp
next
  fix s s' and b e
  assume "secure_ok s" and "secure_send env b s = (Inl e, s')"
  from secure_send_handed [OF this] show "udp_handed s' = udp_handed s" by simp
next
  fix s s' and e
  assume "secure_reconnect env s = (Inl e, s')"
  then show "fst s' = fst s" by (cases s, cases s') (auto dest: secure_reconnect_Inl)
qed (simp_all add: secure_send_keeps secure_reconnect_keeps secure_close_ok
    udp_close_handed udp_close_quiet secure_opens_def, simp add: udp_close_def split: prod.split)

subsection \<open>Nonces are never reused\<close>

definition nonce_pos :: "u32 \<Rightarrow> u32 \<Rightarrow> nat" where
  "nonce_pos i c = unat i * 2 ^ 32 + unat c"

lemma U32_MAX_minus_1: "U32_MAX = - 1"
  by code_simp

lemma unat_plus_1: "c \<noteq> U32_MAX \<Longrightarrow> unat (c + 1) = unat c + 1"
  using unatSuc [of c] by (simp add: U32_MAX_minus_1 add.commute eq_neg_iff_add_eq_0)

lemma slot_pos:
  assumes "\<not> exhausted (salt, i, c)" and "slot (salt, i, c) = (i', c')"
  shows "c' \<noteq> U32_MAX" and "nonce_pos i c \<le> nonce_pos i' c'" and "nonce_pos i' (c' + 1) = nonce_pos i' c' + 1"
proof -
  show c': "c' \<noteq> U32_MAX" using assms(2) by (auto simp: U32_MAX_def split: if_splits)
  show "nonce_pos i' (c' + 1) = nonce_pos i' c' + 1" using c' by (simp add: nonce_pos_def unat_plus_1)
  show "nonce_pos i c \<le> nonce_pos i' c'"
  proof (cases "c = U32_MAX")
    case True
    then have "i' = i + 1" "unat (i + 1) = unat i + 1"
      using assms unat_plus_1 [of i] by auto
    moreover have "unat c < 2 ^ 32" using unsigned_less [of c] by simp
    ultimately show ?thesis by (simp add: nonce_pos_def)
  qed (use assms(2) in simp)
qed

text \<open>The invariant of a run whose first session was drawn at call \<open>k0\<close>: the current salt is the
  latest drawn, and every nonce used under it lies before the current position.\<close>

definition nonce_inv :: "node_env \<Rightarrow> nat \<Rightarrow> nonce_id list \<Rightarrow> nonce_id \<Rightarrow> nat \<Rightarrow> bool" where
  "nonce_inv env k0 used = (\<lambda>(salt, i, c) n. \<exists>k. k0 \<le> k \<and> k < n \<and> salt = salt_at env k \<and>
     (\<forall>(salt', i', c') \<in> set used. c' \<noteq> U32_MAX \<and>
        (\<exists>j. k0 \<le> j \<and> j \<le> k \<and> salt' = salt_at env j \<and> (j = k \<longrightarrow> nonce_pos i' c' < nonce_pos i c))) \<and>
     (inj_on (salt_at env) {k0..<n} \<longrightarrow> distinct used))"

lemma nonce_keep: "nonce_inv env k0 used sess n \<Longrightarrow> n \<le> n' \<Longrightarrow> nonce_inv env k0 used sess n'"
proof -
  assume inv: "nonce_inv env k0 used sess n" and n: "n \<le> n'"
  have "inj_on (salt_at env) {k0..<n}" if "inj_on (salt_at env) {k0..<n'}"
    using inj_on_subset [OF that] n by auto
  with inv n show ?thesis by (cases sess) (fastforce simp: nonce_inv_def)
qed

lemma nonce_fresh:
  assumes "nonce_inv env k0 used sess n" and "n < n'"
  shows "nonce_inv env k0 used (salt_at env n, 0, 0) n'"
proof -
  have "inj_on (salt_at env) {k0..<n}" if "inj_on (salt_at env) {k0..<n'}"
    using inj_on_subset [OF that] assms(2) by auto
  moreover obtain k where "k0 \<le> k" "k < n"
    and "\<forall>(sa, i, c) \<in> set used. c \<noteq> U32_MAX \<and> (\<exists>j. k0 \<le> j \<and> j \<le> k \<and> sa = salt_at env j)"
    and "inj_on (salt_at env) {k0..<n} \<longrightarrow> distinct used"
    using assms(1) by (cases sess) (fastforce simp: nonce_inv_def)
  moreover from this have "\<forall>(sa, i, c) \<in> set used. c \<noteq> U32_MAX \<and>
      (\<exists>j. k0 \<le> j \<and> j \<le> n \<and> sa = salt_at env j \<and> (j = n \<longrightarrow> nonce_pos i c < nonce_pos 0 0))"
    by (fastforce simp: less_le)
  ultimately show ?thesis
    using assms(2) unfolding nonce_inv_def split_conv by (intro exI [of _ n]) auto
qed

lemma nonce_use:
  assumes inv: "nonce_inv env k0 used (salt, i, c) n" and ex: "\<not> exhausted (salt, i, c)"
    and slot: "slot (salt, i, c) = (i', c')"
  shows "nonce_inv env k0 (used @ [(salt, i', c')]) (salt, i', c' + 1) n"
proof -
  note pos = slot_pos [OF ex slot]
  from inv obtain k where k: "k0 \<le> k" "k < n" "salt = salt_at env k"
    and used: "\<forall>(sa, i2, c2) \<in> set used. c2 \<noteq> U32_MAX \<and>
      (\<exists>j. k0 \<le> j \<and> j \<le> k \<and> sa = salt_at env j \<and> (j = k \<longrightarrow> nonce_pos i2 c2 < nonce_pos i c))"
    and dist: "inj_on (salt_at env) {k0..<n} \<longrightarrow> distinct used"
    by (auto simp: nonce_inv_def)
  have new: "(salt, i', c') \<notin> set used" if inj: "inj_on (salt_at env) {k0..<n}"
  proof
    assume "(salt, i', c') \<in> set used"
    with used obtain j where j: "k0 \<le> j" "j \<le> k" "salt = salt_at env j"
      "j = k \<longrightarrow> nonce_pos i' c' < nonce_pos i c" by auto
    then have "j = k" using inj k by (auto dest: inj_onD)
    with j(4) pos(2) show False by simp
  qed
  have "\<forall>(sa, i2, c2) \<in> set (used @ [(salt, i', c')]). c2 \<noteq> U32_MAX \<and>
      (\<exists>j. k0 \<le> j \<and> j \<le> k \<and> sa = salt_at env j \<and> (j = k \<longrightarrow> nonce_pos i2 c2 < nonce_pos i' (c' + 1)))"
    using used k pos by fastforce
  with k dist new show ?thesis unfolding nonce_inv_def by auto
qed

lemma runtime_event_session:
  "session (fst (snd (runtime_event ev st))) = session (fst st)"
  "w_calls (snd (snd (runtime_event ev st))) = w_calls (snd st)"
  "s_secret (fst (snd (runtime_event ev st))) = s_secret (fst st)"
  "s_ivPrefix (fst (snd (runtime_event ev st))) = s_ivPrefix (fst st)"
  by (induction ev st rule: runtime_event.induct)
    (auto simp: session_def udp_on_error_def udp_on_sent_def on_connect_done on_connect_failed)

lemma secure_ok_udp: "secure_ok st \<Longrightarrow> udp_ok st"
  by (simp add: secure_ok_def)

lemma runtime_event_secure_ok: "secure_ok st \<Longrightarrow> secure_ok (snd (runtime_event ev st))"
  using runtime_event_ok [of st ev] runtime_event_session [of ev st]
  by (simp add: secure_ok_def session_ok_def session_def)

interpretation secure_events: transport_events "secure_send env" "secure_reconnect env" secure_close secure_ok fst udp_handed
  secure_opens "\<lambda>ev st. snd (runtime_event ev st)" "\<lambda>ev. \<not> is_connect_failure ev"
  by unfold_locales
    (simp_all add: runtime_event_secure_ok runtime_event_handed runtime_event_session(3) secure_opens_def secure_ok_udp)

lemma secure_step_nonces:
  assumes ok: "secure_ok (t, w)" and inv: "nonce_inv env k0 used (session t) (w_calls w)"
    and step: "secure_step env ev (t, w) = (r, t', w')"
  shows "secure_ok (t', w') \<and> nonce_inv env k0 (used @ used_nonce ev r t') (session t') (w_calls w') \<and>
    s_secret t' = s_secret t"
proof -
  have other: ?thesis if "runtime_event ev (t, w) = (r, t', w')" "used_nonce ev r t' = []"
    using that runtime_event_secure_ok [OF ok, of ev] runtime_event_session [of ev "(t, w)"] inv by simp
  show ?thesis
  proof (cases ev)
    case (UserSend b)
    then have send: "secure_send env b (t, w) = (r, t', w')" using step by simp
    note e = secure_send_effect [OF ok send]
    then obtain sess where eff: "send_effect env b (t, w) r (t', w') sess" by blast
    obtain salt i c where sess: "sess = (salt, i, c)" by (cases sess)
    have s1: "nonce_inv env k0 used sess (w_calls w')"
      using eff inv e nonce_keep [of env k0 used sess "w_calls w" "w_calls w'"]
        nonce_fresh [OF inv, of "w_calls w'"] by (auto simp: send_effect_def)
    show ?thesis
    proof (cases r)
      case (Inl x)
      with eff s1 e UserSend show ?thesis by (auto simp: send_effect_def)
    next
      case (Inr u)
      obtain i' c' where ic: "slot sess = (i', c')" by (cases "slot sess")
      with eff Inr sess have t': "session t' = (salt, i', c' + 1)" and ex: "\<not> exhausted (salt, i, c)"
        by (auto simp: send_effect_def)
      have "nonce_inv env k0 (used @ [(salt, i', c')]) (salt, i', c' + 1) (w_calls w')"
        using nonce_use [OF s1 [unfolded sess] ex] ic sess by simp
      moreover have "used_nonce ev r t' = [(salt, i', c')]"
        using t' UserSend Inr by (simp add: session_def)
      ultimately show ?thesis using t' e by simp
    qed
  next
    case UserReconnect
    then have rec: "secure_reconnect env (t, w) = (r, t', w')" using step by simp
    note k = secure_reconnect_ok [OF ok rec]
    have "nonce_inv env k0 used (session t') (w_calls w')"
    proof (cases r)
      case (Inl e)
      with rec have "t' = t" by (auto dest: secure_reconnect_Inl)
      with inv k(3) show ?thesis by (auto intro: nonce_keep)
    next
      case (Inr u)
      with rec secure_reconnect_session(1) [of env t w t' w'] nonce_fresh [OF inv k(3)] show ?thesis by simp
    qed
    with k UserReconnect show ?thesis by simp
  next
    case UserClose
    with step secure_close_ok [OF ok] inv show ?thesis by (auto simp: udp_close_def)
  qed (rule other; use step in simp)+
qed

lemma new_secure_ok:
  assumes "new_SecureUdpTransport env host port secret w0 = (Inr t, w)" and "secret_ok secret"
  shows "secure_ok (t, w)" and "nonce_inv env (w_calls w0) [] (session t) (w_calls w)" and "s_secret t = secret"
    and "u_preConnectQueue t = []" and "w_wire w = w_wire w0"
proof -
  obtain salt where r: "randomBytes env SESSION_SALT_BYTES w0 = (Inr salt, tick w0)"
    using assms(1) by (auto simp: new_SecureUdpTransport_def split: prod.splits sum.splits
        dest: randomBytes_salt randomBytes_throws)
  have s: "salt = salt_at env (w_calls w0)" and l: "length salt = 16"
    using randomBytes_salt [OF r] by blast+
  let ?t = "\<lparr>pendingError = None, u_socket = 0, u_host = host, u_port = port, u_connected = False,
      u_preConnectQueue = [], s_secret = secret, s_sessionSalt = salt, s_ivPrefix = iv_prefix salt 0,
      s_prefixIndex = 0, s_counter = 0\<rparr>"
  obtain n where o: "openSocket env ?t (tick w0) = (Inr n, w)" and t: "t = ?t\<lparr>u_socket := n\<rparr>"
    using assms(1) r deriveIvPrefix_0 [OF l]
    by (auto simp: new_SecureUdpTransport_def secure_openSocket_def Let_def split: prod.splits sum.splits)
  show "secure_ok (t, w)" "nonce_inv env (w_calls w0) [] (session t) (w_calls w)" "s_secret t = secret"
    "u_preConnectQueue t = []" "w_wire w = w_wire w0"
    using o assms(2) l s
    by (auto simp: t openSocket_Inr secure_ok_def udp_ok_def session_ok_def session_def fresh_sock_def
        nonce_inv_def PRE_CONNECT_QUEUE_LIMIT_def)
qed

lemma secure_reach_inv:
  assumes "secure_reach env (t0, w1) used (t, w)"
    and "new_SecureUdpTransport env host port secret w0 = (Inr t0, w1)" and "secret_ok secret"
  shows "secure_ok (t, w) \<and> nonce_inv env (w_calls w0) used (session t) (w_calls w) \<and> s_secret t = secret"
  using assms
proof (induction used "(t, w)" arbitrary: t w rule: secure_reach.induct)
  case secure_start
  with new_secure_ok [of env host port secret w0 t0 w1] show ?case by simp
next
  case (secure_more used st ev r t' w')
  obtain ta wa where st: "st = (ta, wa)" by (cases st)
  with secure_more have "secure_ok (ta, wa)" and "nonce_inv env (w_calls w0) used (session ta) (w_calls wa)"
    and "s_secret ta = secret" by blast+
  with secure_step_nonces [of ta wa env "w_calls w0" used ev r t' w'] secure_more(3) st show ?case by simp
qed

lemma seal_frame_total:
  "secret_ok secret \<Longrightarrow> length b = 32 \<Longrightarrow> \<exists>d. seal_frame secret pid (reservation salt ic) b = Inr d"
  by (cases secret; cases ic) (simp_all add: seal_frame_def reservation_def encodeShared_eq encodeMaster_eq Let_def)

text \<open>A send while the socket is connecting is accepted whenever the queue has room.\<close>

lemma secure_send_queues:
  assumes "secure_ok (t, w)" and "pendingError t = None" and "length b = 32" and "\<not> u_connected t"
    and "length (u_preConnectQueue t) < 64" and "\<not> exhausted (session t)"
  obtains t' d where "secure_send env b (t, w) = (Inr (), t', w)"
    and "pendingError t' = None" and "\<not> u_connected t'" and "u_preConnectQueue t' = u_preConnectQueue t @ [d]"
    and "session t' = (s_sessionSalt t, fst (slot (session t)), snd (slot (session t)) + 1)"
proof -
  let ?n = "reservation (s_sessionSalt t) (slot (session t))"
  have p: "prepareNonce env (t, w) = (Inr ?n, t, w)"
    using assms(1,6) by (auto simp: prepareNonce_def session_def secure_ok_def reserve_nonce_eq)
  obtain d where d: "seal_frame (s_secret t) (w_pid w) ?n b = Inr d"
    using seal_frame_total [of "s_secret t" b "w_pid w" "s_sessionSalt t" "slot (session t)"] assms(1,3)
    by (auto simp: secure_ok_def session_ok_def)
  let ?t = "commitNonce ?n (t\<lparr>u_preConnectQueue := u_preConnectQueue t @ [d]\<rparr>)"
  have "secure_send env b (t, w) = (Inr (), ?t, w)"
    using assms p d by (simp add: secure_send_eq handover_def PLAINTEXT_BYTES_def PRE_CONNECT_QUEUE_LIMIT_def)
  moreover have "session ?t = (s_sessionSalt t, fst (slot (session t)), snd (slot (session t)) + 1)"
    by (cases "slot (session t)") simp
  ultimately show ?thesis
    using assms(2,4) that [of ?t d] by (simp add: commitNonce_def)
qed

definition zero_key :: bytes where "zero_key = replicate 32 0"

lemma secure_example_new:
  obtains t0 w1 where
    "new_SecureUdpTransport quiet_env ''127.0.0.1'' (js_int 9000) (SharedSecret zero_key) start_world = (Inr t0, w1)"
    and "secret_ok (SharedSecret zero_key)" and "secure_ok (t0, w1)"
    and "pendingError t0 = None" and "\<not> u_connected t0" and "u_preConnectQueue t0 = []"
    and "session t0 = (salt_at quiet_env 0, 0, 0)" and "w_calls w1 = 2" and "w_pid w1 = 42"
proof -
  have r: "randomBytes quiet_env SESSION_SALT_BYTES start_world = (Inr (salt_at quiet_env 0), tick start_world)"
    by (simp add: randomBytes_def salt_at_def start_defs SESSION_SALT_BYTES_def)
  have l: "length (salt_at quiet_env 0) = 16" by (simp add: salt_at_def quiet_env_def)
  let ?t = "\<lparr>pendingError = None, u_socket = 0, u_host = ''127.0.0.1'', u_port = js_int 9000, u_connected = False,
      u_preConnectQueue = [], s_secret = SharedSecret zero_key, s_sessionSalt = salt_at quiet_env 0,
      s_ivPrefix = iv_prefix (salt_at quiet_env 0) 0, s_prefixIndex = 0, s_counter = 0\<rparr>"
  obtain w1 where o: "openSocket quiet_env ?t (tick start_world) = (Inr 0, w1)"
    using openSocket_Inr [of quiet_env ?t "tick start_world" 0] by (simp add: start_defs)
  have k: "secret_ok (SharedSecret zero_key)" by (simp add: zero_key_def)
  have new: "new_SecureUdpTransport quiet_env ''127.0.0.1'' (js_int 9000) (SharedSecret zero_key) start_world = (Inr ?t, w1)"
    using r o deriveIvPrefix_0 [OF l] by (simp add: new_SecureUdpTransport_def secure_openSocket_def)
  have "w_calls w1 = 2" and "w_pid w1 = 42" using o by (simp_all add: openSocket_Inr start_world_def)
  then show ?thesis
    by (intro that [OF new k new_secure_ok(1) [OF new k]]) (simp_all add: session_def)
qed

subsection \<open>Properties of the secure transport\<close>

text \<open>C7: no nonce is used twice. In any run of sends, reconnects, closes, forks and runtime
  events, if the session salts that the random source returned differ, then no two accepted
  datagrams share salt, prefix index and counter; and the counter value \<open>U32_MAX\<close> is never used.\<close>

theorem secure_nonce_unique:
  assumes "new_SecureUdpTransport env host port secret w0 = (Inr t0, w1)" and "secret_ok secret"
    and "secure_reach env (t0, w1) used (t, w)"
    and "inj_on (salt_at env) {w_calls w0..<w_calls w}"
  shows "distinct used \<and> (\<forall>(salt, i, c) \<in> set used. c \<noteq> U32_MAX)"
proof -
  have "nonce_inv env (w_calls w0) used (session t) (w_calls w)"
    using secure_reach_inv [OF assms(3,1,2)] by simp
  with assms(4) show ?thesis by (cases "session t") (auto simp: nonce_inv_def)
qed

theorem secure_nonce_unique_witness:
  "\<exists>t0 w1 used t w.
     new_SecureUdpTransport quiet_env ''127.0.0.1'' (js_int 9000) (SharedSecret zero_key) start_world = (Inr t0, w1) \<and>
     secure_reach quiet_env (t0, w1) used (t, w) \<and>
     used = [(salt_at quiet_env 0, 0, 0), (salt_at quiet_env 0, 0, 1)] \<and> distinct used"
proof -
  obtain t0 w1 where new: "new_SecureUdpTransport quiet_env ''127.0.0.1'' (js_int 9000) (SharedSecret zero_key) start_world = (Inr t0, w1)"
    and k: "secret_ok (SharedSecret zero_key)" and ok0: "secure_ok (t0, w1)"
    and t0: "pendingError t0 = None" "\<not> u_connected t0" "u_preConnectQueue t0 = []"
      "session t0 = (salt_at quiet_env 0, 0, 0)" and w1: "w_calls w1 = 2"
    by (rule secure_example_new)
  let ?b = "replicate 32 0 :: bytes"
  have salt: "s_sessionSalt t0 = salt_at quiet_env 0" using t0(4) by (simp add: session_def)
  obtain t1 d1 where s1: "secure_send quiet_env ?b (t0, w1) = (Inr (), t1, w1)"
    and t1: "pendingError t1 = None" "\<not> u_connected t1" "u_preConnectQueue t1 = [] @ [d1]"
      "session t1 = (salt_at quiet_env 0, 0, 1)"
    by (rule secure_send_queues [OF ok0, of ?b quiet_env]) (use t0 salt in \<open>simp_all add: U32_MAX_def\<close>)
  have ok1: "secure_ok (t1, w1)" using secure_send_effect [OF ok0 s1] by simp
  have salt1: "s_sessionSalt t1 = salt_at quiet_env 0" using t1(4) by (simp add: session_def)
  obtain t2 where s2: "secure_send quiet_env ?b (t1, w1) = (Inr (), t2, w1)"
    and t2: "session t2 = (salt_at quiet_env 0, 0, 2)"
    by (rule secure_send_queues [OF ok1, of ?b quiet_env]) (use t1 salt1 in \<open>simp_all add: U32_MAX_def\<close>)
  have "secure_reach quiet_env (t0, w1) ([] @ used_nonce (UserSend ?b) (Inr ()) t1) (t1, w1)"
    by (rule secure_more [OF secure_start]) (simp add: s1)
  then have "secure_reach quiet_env (t0, w1)
      (([] @ used_nonce (UserSend ?b) (Inr ()) t1) @ used_nonce (UserSend ?b) (Inr ()) t2) (t2, w1)"
    by (rule secure_more) (simp add: s2)
  then have run: "secure_reach quiet_env (t0, w1) [(salt_at quiet_env 0, 0, 0), (salt_at quiet_env 0, 0, 1)] (t2, w1)"
    using t1(4) t2 by (simp add: session_def)
  have "salt_at quiet_env 0 \<noteq> salt_at quiet_env 1" by (simp add: salt_at_def quiet_env_def upt_rec)
  then have "inj_on (salt_at quiet_env) {w_calls start_world..<w_calls w1}"
    using w1 by (simp add: start_world_def inj_on_def numeral_2_eq_2 atLeast0_lessThan_Suc)
  from secure_nonce_unique [OF new k run this] new run show ?thesis by blast
qed

text \<open>C16: an accepted send hands over exactly one datagram. It is the frame sealed under the
  transport's key with the nonce just committed, and opening it under that key gives the
  frame back; a send that throws hands over nothing.\<close>

theorem secure_send_sealed:
  assumes "new_SecureUdpTransport env host port secret w0 = (Inr t0, w1)" and "secret_ok secret"
    and "secure_reach env (t0, w1) used (t, w)" and "secure_send env b (t, w) = (r, t', w')"
  shows "case r of
      Inl e \<Rightarrow> udp_handed (t', w') = udp_handed (t, w)
    | Inr _ \<Rightarrow> \<exists>d. udp_handed (t', w') = udp_handed (t, w) @ [d] \<and>
        seal_frame secret (w_pid w) (reservation (s_sessionSalt t') (s_prefixIndex t', s_counter t' - 1)) b = Inr d \<and>
        open_datagram secret d = Some b"
proof -
  have ok: "secure_ok (t, w)" and secret: "s_secret t = secret"
    using secure_reach_inv [OF assms(3,1,2)] by simp_all
  obtain sess where eff: "send_effect env b (t, w) r (t', w') sess"
    using secure_send_effect [OF ok assms(4)] by blast
  show ?thesis
  proof (cases r)
    case (Inl e)
    with eff show ?thesis by (simp add: send_effect_def)
  next
    case (Inr u)
    with eff secret obtain d where d: "seal_frame secret (w_pid w) (reservation (fst sess) (slot sess)) b = Inr d"
      and h: "udp_handed (t', w') = udp_handed (t, w) @ [d]"
      and "session t' = (fst sess, fst (slot sess), snd (slot sess) + 1)"
      by (auto simp: send_effect_def)
    then have "fst sess = s_sessionSalt t'" "slot sess = (s_prefixIndex t', s_counter t' - 1)"
      by (simp_all add: session_def prod_eq_iff)
    with d h open_sealed [OF d] Inr show ?thesis by simp
  qed
qed

theorem secure_send_sealed_witness:
  "\<exists>t0 w1 t' d.
     new_SecureUdpTransport quiet_env ''127.0.0.1'' (js_int 9000) (SharedSecret zero_key) start_world = (Inr t0, w1) \<and>
     secure_send quiet_env (replicate 32 0) (t0, w1) = (Inr (), t', w1) \<and>
     udp_handed (t', w1) = udp_handed (t0, w1) @ [d] \<and>
     open_datagram (SharedSecret zero_key) d = Some (replicate 32 0)"
proof -
  obtain t0 w1 where new: "new_SecureUdpTransport quiet_env ''127.0.0.1'' (js_int 9000) (SharedSecret zero_key) start_world = (Inr t0, w1)"
    and k: "secret_ok (SharedSecret zero_key)" and ok0: "secure_ok (t0, w1)"
    and t0: "pendingError t0 = None" "\<not> u_connected t0" "u_preConnectQueue t0 = []"
      "session t0 = (salt_at quiet_env 0, 0, 0)"
    by (rule secure_example_new)
  obtain t1 where s1: "secure_send quiet_env (replicate 32 0) (t0, w1) = (Inr (), t1, w1)"
    by (rule secure_send_queues [OF ok0, of "replicate 32 0" quiet_env]) (use t0 in \<open>simp_all add: U32_MAX_def\<close>)
  from secure_send_sealed [OF new k secure_start s1] new s1 show ?thesis by auto
qed




end
