(* ===== verification/Uds_Transport.thy ===== *)
theory Uds_Transport
  imports Beat_Transport Outcome
begin

section \<open>Unix datagram sockets (\<open>clients/node/src/transport.ts\<close>, \<open>UdsTransport\<close>)\<close>

text \<open>
  The transport over the optional \<open>node-unix-socket\<close> addon. What the addon does (whether it
  loads, whether its constructor or \<open>sendTo\<close> throws) comes from the environment; loading is
  cached for the whole process, also when it failed. The addon reports errors as messages only;
  \<open>normalizeUdsError\<close> recovers the symbolic code that the classification needs.
\<close>

text \<open>What a callback or a \<open>catch\<close> receives: an \<open>Error\<close>, or another value through \<open>String\<close>.\<close>

datatype raised = RaisedError js_error | RaisedValue string

definition UdsUnavailableError :: js_error where
  "UdsUnavailableError =
     \<lparr>e_name = ''UdsUnavailableError'',
      e_message = ''UDS transport requires the optional `node-unix-socket` addon. '' @
        ''Install it with `npm install node-unix-socket`, or fall back to '' @
        ''`Varta.connectUdp(\"127.0.0.1\", port)` on platforms without a prebuild.'',
      e_code = None, e_errno = None\<rparr>"

definition normalizeUdsError :: "raised \<Rightarrow> js_error" where
  "normalizeUdsError err =
     (let e = (case err of RaisedError x \<Rightarrow> x | RaisedValue s \<Rightarrow> new_Error s)
      in if e_code e \<noteq> None \<and> e_code e \<noteq> Some [] then e
         else let msg = toLowerCase (e_message e)
              in if str_includes msg ''no such file'' then e\<lparr>e_code := Some ''ENOENT''\<rparr>
                 else if str_includes msg ''connection refused'' then e\<lparr>e_code := Some ''ECONNREFUSED''\<rparr>
                 else if str_includes msg ''no buffer space'' then e\<lparr>e_code := Some ''ENOBUFS''\<rparr>
                 else if str_includes msg ''resource temporarily unavailable'' then e\<lparr>e_code := Some ''EAGAIN''\<rparr>
                 else if str_includes msg ''would block'' then e\<lparr>e_code := Some ''EWOULDBLOCK''\<rparr>
                 else if str_includes msg ''no space left'' then e\<lparr>e_code := Some ''ENOSPC''\<rparr>
                 else if str_includes msg ''broken pipe'' then e\<lparr>e_code := Some ''EPIPE''\<rparr>
                 else if str_includes msg ''connection reset'' then e\<lparr>e_code := Some ''ECONNRESET''\<rparr>
                 else if str_includes msg ''transport endpoint is not connected'' then e\<lparr>e_code := Some ''ENOTCONN''\<rparr>
                 else e)"

definition loadNodeUnixSocket :: "node_env \<Rightarrow> node_world \<Rightarrow> unit throws \<times> node_world" where
  "loadNodeUnixSocket env w =
     (case w_module w of
        UdsMissing \<Rightarrow> (Inl UdsUnavailableError, w)
      | UdsLoaded \<Rightarrow> (Inr (), w)
      | UdsNotLoaded \<Rightarrow>
          (case require_uds env w of
             (Inr _, w1) \<Rightarrow> (Inr (), w1\<lparr>w_module := UdsLoaded\<rparr>)
           | (Inl err, w1) \<Rightarrow> (Inl UdsUnavailableError, w1\<lparr>w_module := UdsMissing\<rparr>)))"

record UdsTransport = pending_holder +
  uds_socket :: nat
  uds_path :: string

definition uds_openSocket :: "node_env \<Rightarrow> node_world \<Rightarrow> nat throws \<times> node_world" where
  "uds_openSocket env w =
     (case loadNodeUnixSocket env w of
        (Inl e, w1) \<Rightarrow> (Inl e, w1)
      | (Inr _, w1) \<Rightarrow> new_DgramSocket env w1)"

definition new_UdsTransport :: "node_env \<Rightarrow> string \<Rightarrow> node_world \<Rightarrow> UdsTransport throws \<times> node_world" where
  "new_UdsTransport env path w =
     (case uds_openSocket env w of
        (Inl e, w1) \<Rightarrow> (Inl e, w1)
      | (Inr s, w1) \<Rightarrow> (Inr \<lparr>pendingError = None, uds_socket = s, uds_path = path\<rparr>, w1))"

definition uds_on_error :: "nat \<Rightarrow> raised \<Rightarrow> UdsTransport \<Rightarrow> UdsTransport" where
  "uds_on_error s err t = (if uds_socket t = s then t\<lparr>pendingError := Some (normalizeUdsError err)\<rparr> else t)"

definition uds_on_write :: "nat \<Rightarrow> raised option \<Rightarrow> UdsTransport \<Rightarrow> UdsTransport" where
  "uds_on_write s err t =
     (case err of
        Some e \<Rightarrow> if uds_socket t = s then t\<lparr>pendingError := Some (normalizeUdsError e)\<rparr> else t
      | None \<Rightarrow> t)"

definition uds_send ::
  "node_env \<Rightarrow> bytes \<Rightarrow> UdsTransport \<times> node_world \<Rightarrow> unit throws \<times> UdsTransport \<times> node_world" where
  "uds_send env buf = (\<lambda>(t0, w).
     case takePendingError t0 of
       (Some queued, t) \<Rightarrow> (Inl queued, t, w)
     | (None, t) \<Rightarrow> (case uds_sendTo env (uds_socket t) buf (uds_path t) w of (r, w1) \<Rightarrow> (r, t, w1)))"

definition uds_reconnect ::
  "node_env \<Rightarrow> UdsTransport \<times> node_world \<Rightarrow> unit throws \<times> UdsTransport \<times> node_world" where
  "uds_reconnect env = (\<lambda>(t, w).
     case uds_openSocket env w of
       (Inl e, w1) \<Rightarrow> (Inl e, t, w1)
     | (Inr replacement, w1) \<Rightarrow>
         (let old = uds_socket t
          in (Inr (), t\<lparr>uds_socket := replacement, pendingError := None\<rparr>, uds_close old w1)))"

definition uds_closeTransport :: "UdsTransport \<times> node_world \<Rightarrow> unit throws \<times> UdsTransport \<times> node_world" where
  "uds_closeTransport = (\<lambda>(t, w). (Inr (), t, uds_close (uds_socket t) w))"

datatype uds_runtime = UdsErrorEvent nat raised | UdsWriteDone nat "raised option" | UdsForked int

fun uds_event :: "uds_runtime \<Rightarrow> UdsTransport \<times> node_world \<Rightarrow> UdsTransport \<times> node_world" where
  "uds_event (UdsErrorEvent s err) (t, w) = (uds_on_error s err t, w)"
| "uds_event (UdsWriteDone s err) (t, w) = (uds_on_write s err t, w)"
| "uds_event (UdsForked p) (t, w) = (t, w\<lparr>w_pid := p\<rparr>)"

subsection \<open>The interface laws\<close>

definition uds_handed :: "UdsTransport \<times> node_world \<Rightarrow> bytes list" where
  "uds_handed = (\<lambda>(t, w). map (snd \<circ> snd) (w_uds_wire w))"

definition uds_ok :: "UdsTransport \<times> node_world \<Rightarrow> bool" where
  "uds_ok = (\<lambda>(t, w). uds_socket t < w_fresh w \<and> w_module w = UdsLoaded)"

lemma uds_openSocket_Inr:
  "uds_openSocket env w = (Inr s, w') \<Longrightarrow>
     s = w_fresh w \<and> w_fresh w' = Suc s \<and> w_module w' = UdsLoaded \<and> w_uds_wire w' = w_uds_wire w \<and>
     w_uds_open w' = (w_uds_open w)(s := True)"
  by (auto simp: uds_openSocket_def loadNodeUnixSocket_def require_uds_def new_DgramSocket_def
      split: uds_module.splits option.splits prod.splits sum.splits)

lemma uds_openSocket_Inl:
  "uds_openSocket env w = (Inl e, w') \<Longrightarrow>
     w_fresh w' = w_fresh w \<and> w_uds_wire w' = w_uds_wire w \<and> w_uds_open w' = w_uds_open w \<and>
     (w_module w = UdsLoaded \<longrightarrow> w_module w' = UdsLoaded)"
  by (auto simp: uds_openSocket_def loadNodeUnixSocket_def require_uds_def new_DgramSocket_def
      split: uds_module.splits option.splits prod.splits sum.splits)

lemma uds_reconnect_cases:
  assumes "uds_reconnect env (t, w) = (r, t', w')"
  shows "case r of
      Inl e \<Rightarrow> t' = t \<and> uds_openSocket env w = (Inl e, w')
    | Inr _ \<Rightarrow> \<exists>w1. uds_openSocket env w = (Inr (uds_socket t'), w1) \<and>
        t' = t\<lparr>uds_socket := uds_socket t', pendingError := None\<rparr> \<and> w' = uds_close (uds_socket t) w1"
  using assms by (auto simp: uds_reconnect_def Let_def split: prod.splits sum.splits)

interpretation uds: beat_transport "uds_send env" "uds_reconnect env" uds_closeTransport uds_ok fst uds_handed "\<lambda>_. Some"
proof unfold_locales
  fix s s' :: "UdsTransport \<times> node_world" and b e
  show "uds_ok (snd (uds_send env b s))" if "uds_ok s"
    using that by (cases s) (auto simp: uds_ok_def uds_send_def takePendingError_def uds_sendTo_def
        split: option.split)
  show "uds_ok (snd (uds_reconnect env s))" and "uds_handed (snd (uds_reconnect env s)) = uds_handed s" if "uds_ok s"
    using that uds_reconnect_cases [of env "fst s" "snd s"]
    by (cases s; cases "uds_reconnect env s"; auto simp: uds_ok_def uds_handed_def uds_close_def
        dest!: uds_openSocket_Inl uds_openSocket_Inr split: sum.splits)+
  show "uds_ok (snd (uds_closeTransport s))" and "uds_handed (snd (uds_closeTransport s)) = uds_handed s" if "uds_ok s"
    using that by (cases s; auto simp: uds_ok_def uds_handed_def uds_closeTransport_def uds_close_def)+
  show "fst (uds_closeTransport s) = Inr ()" by (cases s) (simp add: uds_closeTransport_def)
  show "\<exists>d. uds_handed s' = uds_handed s @ [d] \<and> Some d = Some b" if "uds_send env b s = (Inr (), s')"
    using that by (cases s) (auto simp: uds_send_def takePendingError_def uds_sendTo_def uds_handed_def
        split: option.splits)
  show "uds_handed s' = uds_handed s" if "uds_send env b s = (Inl e, s')"
    using that by (cases s) (auto simp: uds_send_def takePendingError_def uds_sendTo_def uds_handed_def
        split: option.splits)
  show "fst s' = fst s" if "uds_reconnect env s = (Inl e, s')"
    using that uds_reconnect_cases [of env "fst s" "snd s" "Inl e" "fst s'" "snd s'"] by simp
qed simp_all

interpretation uds_events: transport_events "uds_send env" "uds_reconnect env" uds_closeTransport uds_ok fst uds_handed "\<lambda>_. Some"
  uds_event "\<lambda>_. True"
proof unfold_locales
  fix e and s :: "UdsTransport \<times> node_world"
  show "uds_ok (uds_event e s)" if "uds_ok s"
    using that by (cases e; cases s) (auto simp: uds_ok_def uds_on_error_def uds_on_write_def split: option.split)
  show "uds_handed (uds_event e s) = uds_handed s"
    by (cases e; cases s) (simp_all add: uds_handed_def)
qed simp

subsection \<open>Properties of the UDS transport\<close>

definition uds_messages :: "(string \<times> string) list" where
  "uds_messages =
     [(''no such file'', ''ENOENT''), (''connection refused'', ''ECONNREFUSED''), (''no buffer space'', ''ENOBUFS''),
      (''resource temporarily unavailable'', ''EAGAIN''), (''would block'', ''EWOULDBLOCK''),
      (''no space left'', ''ENOSPC''), (''broken pipe'', ''EPIPE''), (''connection reset'', ''ECONNRESET''),
      (''transport endpoint is not connected'', ''ENOTCONN'')]"

lemma normalizeUdsError_find:
  assumes "e_code e = None"
  shows "normalizeUdsError (RaisedError e) =
    (case find (\<lambda>(frag, code). str_includes (toLowerCase (e_message e)) frag) uds_messages of
       None \<Rightarrow> e | Some (frag, code) \<Rightarrow> e\<lparr>e_code := Some code\<rparr>)"
  unfolding normalizeUdsError_def uds_messages_def Let_def raised.case by (simp add: assms)

lemma uds_messages_codes: "(frag, code) \<in> set uds_messages \<Longrightarrow> map_of drop_table code \<noteq> None"
  by (auto simp: uds_messages_def drop_table_def)

lemma classify_symbol:
  assumes "e_code e = Some name" and "e_errno e = None" and "map_of drop_table name = Some r"
    and "\<forall>n \<in> fst ` set drop_table. errno_const os n \<noteq> Some 0"
  shows "classifySendError os e = Dropped r"
proof -
  have ne: "errno_const os n \<noteq> Some 0" if "n \<in> fst ` set drop_table" for n
    using assms(4) that by blast
  have z: "errno_const os ''ENOBUFS'' \<noteq> Some 0" "errno_const os ''EAGAIN'' \<noteq> Some 0" "errno_const os ''EWOULDBLOCK'' \<noteq> Some 0"
    "errno_const os ''ECONNREFUSED'' \<noteq> Some 0" "errno_const os ''ENOENT'' \<noteq> Some 0" "errno_const os ''ECONNRESET'' \<noteq> Some 0"
    "errno_const os ''ENOTCONN'' \<noteq> Some 0" "errno_const os ''EPIPE'' \<noteq> Some 0" "errno_const os ''ENOSPC'' \<noteq> Some 0"
    by (rule ne, simp add: drop_table_def)+
  show ?thesis
    using assms(3) unfolding classifySendError_def Let_def assms(1,2) option.case
    by (auto simp: drop_table_def z z [symmetric] split: if_splits)
qed

lemma classify_no_symbol:
  assumes "e_code e = None" and "e_errno e = None"
    and "\<forall>n \<in> fst ` set drop_table. errno_const os n \<noteq> Some 0"
  shows "classifySendError os e = Failed (fromNodeError os e)"
proof -
  have "\<not> Some 0 = errno_const os n" if "n \<in> fst ` set drop_table" for n
    using assms(3) that by fastforce
  note ne = this
  have "\<not> Some 0 = errno_const os ''ENOBUFS''" "\<not> Some 0 = errno_const os ''EAGAIN''" "\<not> Some 0 = errno_const os ''EWOULDBLOCK''"
    "\<not> Some 0 = errno_const os ''ECONNREFUSED''" "\<not> Some 0 = errno_const os ''ENOENT''" "\<not> Some 0 = errno_const os ''ECONNRESET''"
    "\<not> Some 0 = errno_const os ''ENOTCONN''" "\<not> Some 0 = errno_const os ''EPIPE''" "\<not> Some 0 = errno_const os ''ENOSPC''"
    by (rule ne, simp add: drop_table_def)+
  then show ?thesis
    unfolding classifySendError_def Let_def assms(1,2) option.case by simp
qed

text \<open>An error that the addon reports by message only is bucketed by the first known phrase it
  contains, in any letter case: normalising it and classifying the result drops the beat
  with that phrase's reason, and fails with the error's own name when it has none.\<close>

theorem uds_error_outcome:
  assumes "e_code e = None" and "e_errno e = None"
    and "\<forall>n \<in> fst ` set drop_table. errno_const os n \<noteq> Some 0"
  shows "classifySendError os (normalizeUdsError (RaisedError e)) =
    (case find (\<lambda>(frag, code). str_includes (toLowerCase (e_message e)) frag) uds_messages of
       None \<Rightarrow> Failed (fromNodeError os e)
     | Some (frag, code) \<Rightarrow> Dropped (the (map_of drop_table code)))"
proof (cases "find (\<lambda>(frag, code). str_includes (toLowerCase (e_message e)) frag) uds_messages")
  case None
  with classify_no_symbol [OF assms] show ?thesis
    by (simp add: normalizeUdsError_find [OF assms(1)])
next
  case (Some p)
  obtain frag code where p: "p = (frag, code)" by (cases p)
  with Some have "(frag, code) \<in> set uds_messages" by (auto simp: find_Some_iff in_set_conv_nth)
  then obtain r where "map_of drop_table code = Some r" using uds_messages_codes by fastforce
  with Some p classify_symbol [of "e\<lparr>e_code := Some code\<rparr>" code r os] assms show ?thesis
    by (simp add: normalizeUdsError_find)
qed

theorem uds_error_outcome_witness:
  "classifySendError linux_os (normalizeUdsError (RaisedError (new_Error ''Connection Refused (os error 111)'')))
     = Dropped NoObserver"
proof -
  have l: "str_includes (toLowerCase ''Connection Refused (os error 111)'') ''no such file'' = False"
    "str_includes (toLowerCase ''Connection Refused (os error 111)'') ''connection refused'' = True"
    by code_simp+
  have z: "\<forall>n \<in> fst ` set drop_table. errno_const linux_os n \<noteq> Some 0"
    by (simp add: drop_table_def errno_const_def linux_os_def selectEnobufs_def LINUX_ENOBUFS_def Let_def)
  show ?thesis
    using uds_error_outcome [OF _ _ z, of "new_Error ''Connection Refused (os error 111)''"]
    by (simp add: new_Error_def uds_messages_def l drop_table_def)
qed

text \<open>A failed load of the addon is final for the process. The construction throws
  \<open>UdsUnavailableError\<close>, and so does every later construction and reconnect, without another
  attempt to load it.\<close>

theorem uds_missing_is_final:
  assumes "w_module w = UdsNotLoaded" and "env_require env (w_calls w) = Some err"
  shows "\<exists>w1. new_UdsTransport env path w = (Inl UdsUnavailableError, w1) \<and>
    new_UdsTransport env' path' w1 = (Inl UdsUnavailableError, w1) \<and>
    uds_reconnect env' (t, w1) = (Inl UdsUnavailableError, t, w1)"
  using assms
  by (simp add: new_UdsTransport_def uds_openSocket_def loadNodeUnixSocket_def require_uds_def uds_reconnect_def)

theorem uds_missing_is_final_witness:
  "\<exists>w1. new_UdsTransport (quiet_env\<lparr>env_require := (\<lambda>_. Some (new_Error ''Cannot find module''))\<rparr>) ''/run/varta.sock'' start_world
       = (Inl UdsUnavailableError, w1) \<and>
     new_UdsTransport quiet_env ''/run/varta.sock'' w1 = (Inl UdsUnavailableError, w1)"
proof -
  let ?env = "quiet_env\<lparr>env_require := (\<lambda>_. Some (new_Error ''Cannot find module''))\<rparr>"
  have "w_module start_world = UdsNotLoaded" by (simp add: start_world_def)
  moreover have "env_require ?env (w_calls start_world) = Some (new_Error ''Cannot find module'')" by simp
  ultimately show ?thesis
    using uds_missing_is_final [of start_world ?env _ "''/run/varta.sock''" quiet_env "''/run/varta.sock''" undefined]
    by blast
qed

end
