(* ===== verification/Client.thy ===== *)
theory Client
  imports Udp_Transport Secure_Transport Uds_Transport
begin

section \<open>The agent (\<open>clients/node/src/client.ts\<close>)\<close>

text \<open>
  \<open>Varta\<close> over any transport. The transport is a record of its three operations on a state
  \<open>'s\<close>; the module's own variables (the warning flag, the clock hook, what was written to
  stderr) are a second record. \<open>process.pid\<close> at the time of a call is an argument. Every
  operation takes and returns the agent, the module variables and the transport state.
\<close>

record 's BeatTransport =
  bt_send :: "bytes \<Rightarrow> 's \<Rightarrow> unit throws \<times> 's"
  bt_reconnect :: "'s \<Rightarrow> unit throws \<times> 's"
  bt_close :: "'s \<Rightarrow> unit throws \<times> 's"

definition U64_MAX :: int where "U64_MAX = 0xffffffffffffffff"

definition MAX_SAFE_INTEGER :: int where "MAX_SAFE_INTEGER = 2 ^ 53 - 1"

definition satAddBig :: "int \<Rightarrow> int \<Rightarrow> int" where
  "satAddBig val delta = (let next = val + delta in if next > U64_MAX then U64_MAX else next)"

record client_module =
  m_nonceWrapWarned :: bool
  m_stderr :: "string list"
  m_hrtime :: "nat \<Rightarrow> int"
  m_override :: "(nat \<Rightarrow> int) option"
  m_reads :: nat

text \<open>Node reports a failing write to stderr asynchronously or by throwing; both are swallowed.\<close>

definition warnNonceWrapping :: "client_module \<Rightarrow> client_module" where
  "warnNonceWrapping m =
     (if m_nonceWrapWarned m then m
      else m\<lparr>m_nonceWrapWarned := True,
             m_stderr := m_stderr m @ [''[varta] nonce exhausted; wrapping to 0'' @ [CHR 0x0A]]\<rparr>)"

definition closedReconnectError :: js_error where
  "closedReconnectError =
     (new_Error ''Varta.reconnect: Closed'')\<lparr>e_code := Some ''EBADF'', e_errno := Some 9\<rparr>"

text \<open>The clock: the hook when one is set, \<open>process.hrtime.bigint\<close> otherwise.\<close>

definition monotonicNs :: "client_module \<Rightarrow> int \<times> client_module" where
  "monotonicNs m =
     ((case m_override m of Some f \<Rightarrow> f (m_reads m) | None \<Rightarrow> m_hrtime m (m_reads m)),
      m\<lparr>m_reads := Suc (m_reads m)\<rparr>)"

definition setMonotonicForTest :: "(nat \<Rightarrow> int) option \<Rightarrow> client_module \<Rightarrow> client_module" where
  "setMonotonicForTest fn m = m\<lparr>m_override := fn\<rparr>"

fun coerceBeatStatus :: "StatusLike \<Rightarrow> Status option" where
  "coerceBeatStatus (StatusName name) =
     (let s = toLowerCase name
      in if s = ''ok'' then Some Ok
         else if s = ''degraded'' then Some Degraded
         else if s = ''critical'' then Some Critical
         else if s = ''stall'' then Some Stall
         else None)"
| "coerceBeatStatus (StatusNumber n) =
     (if n = js_int 0 then Some Ok
      else if n = js_int 1 then Some Degraded
      else if n = js_int 2 then Some Critical
      else if n = js_int 3 then Some Stall
      else None)"

record Varta =
  v_buf :: bytes
  v_startNs :: int
  v_nonce :: int
  v_consecutiveDropped :: int
  v_reconnectAfter :: jsnum
  v_lastTimestamp :: int
  v_clockRegressionsCount :: int
  v_connectPid :: int
  v_forkRecoveriesCount :: int
  v_closed :: bool

definition new_Varta :: "int \<Rightarrow> client_module \<Rightarrow> Varta \<times> client_module" where
  "new_Varta pid m =
     (let (start, m1) = monotonicNs m
      in (\<lparr>v_buf = buffer_alloc FRAME_BYTES, v_startNs = start, v_nonce = 0, v_consecutiveDropped = 0,
           v_reconnectAfter = js_int 0, v_lastTimestamp = 0, v_clockRegressionsCount = 0,
           v_connectPid = pid, v_forkRecoveriesCount = 0, v_closed = False\<rparr>, m1))"

text \<open>The constructors: the transport first, then the agent.\<close>

definition with_transport ::
  "'t throws \<times> node_world \<Rightarrow> client_module \<Rightarrow> (Varta \<times> 't) throws \<times> client_module \<times> node_world" where
  "with_transport = (\<lambda>(r, w) m.
     case r of
       Inl e \<Rightarrow> (Inl e, m, w)
     | Inr t \<Rightarrow> (let (v, m1) = new_Varta (w_pid w) m in (Inr (v, t), m1, w)))"

definition connectUds ::
  "node_env \<Rightarrow> string \<Rightarrow> client_module \<Rightarrow> node_world \<Rightarrow> (Varta \<times> UdsTransport) throws \<times> client_module \<times> node_world" where
  "connectUds env path m w = with_transport (new_UdsTransport env path w) m"

definition connectUdp ::
  "node_env \<Rightarrow> string \<Rightarrow> jsnum \<Rightarrow> client_module \<Rightarrow> node_world \<Rightarrow> (Varta \<times> UdpTransport) throws \<times> client_module \<times> node_world" where
  "connectUdp env host port m w = with_transport (new_UdpTransport env host port w) m"

definition connectSecureUdp ::
  "node_env \<Rightarrow> string \<Rightarrow> jsnum \<Rightarrow> bytes \<Rightarrow> client_module \<Rightarrow> node_world \<Rightarrow>
     (Varta \<times> SecureUdpTransport) throws \<times> client_module \<times> node_world" where
  "connectSecureUdp env host port key m w = with_transport (secure_shared env host port key w) m"

definition connectSecureUdpWithMaster ::
  "node_env \<Rightarrow> string \<Rightarrow> jsnum \<Rightarrow> bytes \<Rightarrow> client_module \<Rightarrow> node_world \<Rightarrow>
     (Varta \<times> SecureUdpTransport) throws \<times> client_module \<times> node_world" where
  "connectSecureUdpWithMaster env host port masterKey m w =
     with_transport (secure_master env host port masterKey w) m"

definition fromTransport ::
  "'t \<Rightarrow> client_module \<Rightarrow> node_world \<Rightarrow> (Varta \<times> 't) throws \<times> client_module \<times> node_world" where
  "fromTransport t m w = with_transport (Inr t, w) m"

definition sendFrame :: "node_os \<Rightarrow> 's BeatTransport \<Rightarrow> Varta \<Rightarrow> 's \<Rightarrow> BeatOutcome \<times> 's" where
  "sendFrame os bt v s =
     (case bt_send bt (v_buf v) s of
        (Inr _, s') \<Rightarrow> (Sent, s')
      | (Inl err, s') \<Rightarrow> (classifySendError os err, s'))"

definition commitSentFrame :: "int \<Rightarrow> int \<Rightarrow> bool \<Rightarrow> Varta \<times> client_module \<Rightarrow> Varta \<times> client_module" where
  "commitSentFrame nonce timestamp wrapped = (\<lambda>(v, m).
     (v\<lparr>v_nonce := nonce, v_lastTimestamp := timestamp\<rparr>, if wrapped then warnNonceWrapping m else m))"

text \<open>The threshold is a JavaScript number; \<open>setReconnectAfter\<close> leaves zero, a positive integer or
  infinity in it.\<close>

fun threshold_reached :: "jsnum \<Rightarrow> int \<Rightarrow> bool" where
  "threshold_reached (JNum r) dropped \<longleftrightarrow> r > 0 \<and> of_int dropped \<ge> r"
| "threshold_reached _ _ \<longleftrightarrow> False"

text \<open>The second half of \<open>beat\<close>: candidates, encoding, sending, and what follows the outcome.\<close>

definition beat_emit ::
  "node_os \<Rightarrow> 's BeatTransport \<Rightarrow> int \<Rightarrow> Status \<Rightarrow> jsnum \<Rightarrow> Varta \<times> client_module \<times> 's \<Rightarrow>
     BeatOutcome throws \<times> Varta \<times> client_module \<times> 's" where
  "beat_emit os bt pid statusValue payload = (\<lambda>(v0, m0, s0).
     let wrappedNonce = \<not> v_nonce v0 < NONCE_TERMINAL - 1;
         candidateNonce = (if v_nonce v0 < NONCE_TERMINAL - 1 then v_nonce v0 + 1 else 0);
         (now, m1) = monotonicNs m0;
         elapsed = now - v_startNs v0;
         elapsed1 = (if elapsed < 0 then 0 else elapsed);
         rawElapsed = (if elapsed1 > U64_MAX then U64_MAX else elapsed1);
         v1 = (if rawElapsed < v_lastTimestamp v0
               then v0\<lparr>v_clockRegressionsCount := satAddBig (v_clockRegressionsCount v0) 1\<rparr> else v0);
         candidateTimestamp = (if rawElapsed > v_lastTimestamp v1 then rawElapsed else v_lastTimestamp v1)
     in case encodeInto (v_buf v1) (StatusEnum statusValue) (js_int pid) candidateTimestamp candidateNonce payload of
          (buf, Inl e) \<Rightarrow> (Inl e, v1\<lparr>v_buf := buf\<rparr>, m1, s0)
        | (buf, Inr _) \<Rightarrow>
            let v = v1\<lparr>v_buf := buf\<rparr>
            in case sendFrame os bt v s0 of
                 (Sent, s1) \<Rightarrow>
                   (let (v2, m2) = commitSentFrame candidateNonce candidateTimestamp wrappedNonce (v, m1)
                    in (Inr Sent, v2\<lparr>v_consecutiveDropped := 0\<rparr>, m2, s1))
               | (Dropped reason, s1) \<Rightarrow>
                   (let dropped = min (v_consecutiveDropped v + 1) MAX_SAFE_INTEGER
                    in if threshold_reached (v_reconnectAfter v) dropped
                       then let v2 = v\<lparr>v_consecutiveDropped := 0\<rparr>
                            in case bt_reconnect bt s1 of
                                 (Inl e, s2) \<Rightarrow> (Inr (Dropped reason), v2, m1, s2)
                               | (Inr _, s2) \<Rightarrow>
                                   (case sendFrame os bt v2 s2 of
                                      (Sent, s3) \<Rightarrow>
                                        (let (v3, m2) = commitSentFrame candidateNonce candidateTimestamp wrappedNonce (v2, m1)
                                         in (Inr Sent, v3, m2, s3))
                                    | (retry, s3) \<Rightarrow> (Inr retry, v2, m1, s3))
                       else (Inr (Dropped reason), v\<lparr>v_consecutiveDropped := dropped\<rparr>, m1, s1))
               | (Failed err, s1) \<Rightarrow> (Inr (Failed err), v\<lparr>v_consecutiveDropped := 0\<rparr>, m1, s1))"

definition beat ::
  "node_os \<Rightarrow> 's BeatTransport \<Rightarrow> int \<Rightarrow> StatusLike \<Rightarrow> jsnum \<Rightarrow> Varta \<times> client_module \<times> 's \<Rightarrow>
     BeatOutcome throws \<times> Varta \<times> client_module \<times> 's" where
  "beat os bt pid status payload = (\<lambda>(v, m, s).
     case coerceBeatStatus status of
       None \<Rightarrow> (Inr (Failed (new_BeatError 0 ''InvalidInput'' None)), v\<lparr>v_consecutiveDropped := 0\<rparr>, m, s)
     | Some statusValue \<Rightarrow>
         if statusValue = Stall
         then (Inr (Failed (new_BeatError 0 ''InvalidInput'' None)), v\<lparr>v_consecutiveDropped := 0\<rparr>, m, s)
         else if v_closed v
         then (Inr (Failed (new_BeatError 0 ''Closed'' None)), v\<lparr>v_consecutiveDropped := 0\<rparr>, m, s)
         else if pid \<noteq> v_connectPid v
         then case bt_reconnect bt s of
                (Inl err, s1) \<Rightarrow> (Inr (Failed (fromNodeError os err)), v, m, s1)
              | (Inr _, s1) \<Rightarrow>
                  (let (start, m1) = monotonicNs m
                   in beat_emit os bt pid statusValue payload
                        (v\<lparr>v_connectPid := pid, v_forkRecoveriesCount := satAddBig (v_forkRecoveriesCount v) 1,
                           v_nonce := 0, v_startNs := start, v_lastTimestamp := 0, v_consecutiveDropped := 0\<rparr>, m1, s1))
         else beat_emit os bt pid statusValue payload (v, m, s))"

definition reconnect ::
  "'s BeatTransport \<Rightarrow> int \<Rightarrow> Varta \<times> 's \<Rightarrow> unit throws \<times> Varta \<times> 's" where
  "reconnect bt pid = (\<lambda>(v, s).
     if v_closed v then (Inl closedReconnectError, v\<lparr>v_consecutiveDropped := 0\<rparr>, s)
     else case bt_reconnect bt s of
            (Inl e, s1) \<Rightarrow> (Inl e, v, s1)
          | (Inr _, s1) \<Rightarrow> (Inr (), v\<lparr>v_connectPid := pid, v_consecutiveDropped := 0\<rparr>, s1))"

fun positive_trunc :: "jsnum \<Rightarrow> jsnum" where
  "positive_trunc (JNum r) = (if r > 0 then js_int \<lfloor>r\<rfloor> else js_int 0)"
| "positive_trunc JPosInf = JPosInf"
| "positive_trunc _ = js_int 0"

definition setReconnectAfter :: "jsnum option \<Rightarrow> Varta \<Rightarrow> Varta" where
  "setReconnectAfter n v =
     v\<lparr>v_reconnectAfter := (case n of None \<Rightarrow> js_int 0 | Some x \<Rightarrow> positive_trunc x), v_consecutiveDropped := 0\<rparr>"

definition clockRegressions :: "Varta \<Rightarrow> int" where
  "clockRegressions v = v_clockRegressionsCount v"

definition forkRecoveries :: "Varta \<Rightarrow> int" where
  "forkRecoveries v = v_forkRecoveriesCount v"

definition close :: "'s BeatTransport \<Rightarrow> Varta \<times> 's \<Rightarrow> unit throws \<times> Varta \<times> 's" where
  "close bt = (\<lambda>(v, s).
     if v_closed v then (Inr (), v, s)
     else case bt_close bt s of
            (r, s1) \<Rightarrow> (r, v\<lparr>v_closed := True, v_consecutiveDropped := 0\<rparr>, s1))"

definition setConnectPidForTest :: "jsnum \<Rightarrow> Varta \<Rightarrow> Varta" where
  "setConnectPidForTest pid v = v\<lparr>v_connectPid := uint (to_uint32 pid)\<rparr>"

definition setNonceForTest :: "int \<Rightarrow> Varta \<Rightarrow> Varta" where
  "setNonceForTest n v = v\<lparr>v_nonce := n\<rparr>"

subsection \<open>One emission, in closed form\<close>

definition client_ok :: "Varta \<Rightarrow> bool" where
  "client_ok v \<longleftrightarrow>
     length (v_buf v) = FRAME_BYTES \<and> 0 \<le> v_nonce v \<and> v_nonce v < NONCE_TERMINAL \<and>
     0 \<le> v_lastTimestamp v \<and> v_lastTimestamp v \<le> U64_MAX \<and>
     0 \<le> v_clockRegressionsCount v \<and> v_clockRegressionsCount v \<le> U64_MAX \<and>
     0 \<le> v_forkRecoveriesCount v \<and> v_forkRecoveriesCount v \<le> U64_MAX \<and>
     0 \<le> v_consecutiveDropped v \<and> v_consecutiveDropped v \<le> MAX_SAFE_INTEGER"

definition next_nonce :: "Varta \<Rightarrow> int" where
  "next_nonce v = (v_nonce v + 1) mod NONCE_TERMINAL"

definition raw_elapsed :: "Varta \<Rightarrow> client_module \<Rightarrow> int" where
  "raw_elapsed v m = min U64_MAX (max 0 (fst (monotonicNs m) - v_startNs v))"

definition next_timestamp :: "Varta \<Rightarrow> client_module \<Rightarrow> int" where
  "next_timestamp v m = max (raw_elapsed v m) (v_lastTimestamp v)"

definition sent_frame :: "Status \<Rightarrow> int \<Rightarrow> jsnum \<Rightarrow> Varta \<Rightarrow> client_module \<Rightarrow> Frame" where
  "sent_frame st pid payload v m =
     \<lparr>fr_status = st, fr_pid = to_uint32 (js_int pid), fr_timestamp = next_timestamp v m,
      fr_nonce = next_nonce v, fr_payload = to_uint32 payload\<rparr>"

definition wire_of :: "Frame \<Rightarrow> bytes" where
  "wire_of f = frame_wire (status_byte (CStatus (fr_status f))) (fr_pid f) (word_of_int (fr_timestamp f))
     (word_of_int (fr_nonce f)) (fr_payload f)"

definition noted :: "client_module \<Rightarrow> Varta \<Rightarrow> Varta" where
  "noted m v = (if raw_elapsed v m < v_lastTimestamp v
     then v\<lparr>v_clockRegressionsCount := satAddBig (v_clockRegressionsCount v) 1\<rparr> else v)"

lemma NONCE_TERMINAL_eq: "NONCE_TERMINAL = 2 ^ 64 - 1" and U64_MAX_eq: "U64_MAX = 2 ^ 64 - 1"
  by (simp_all add: NONCE_TERMINAL_def U64_MAX_def)

lemma next_nonce_eq:
  assumes "0 \<le> v_nonce v" and "v_nonce v < NONCE_TERMINAL"
  shows "(if v_nonce v < NONCE_TERMINAL - 1 then v_nonce v + 1 else 0) = next_nonce v"
proof (cases "v_nonce v < NONCE_TERMINAL - 1")
  case False
  with assms have "v_nonce v + 1 = NONCE_TERMINAL" by simp
  with False show ?thesis by (simp add: next_nonce_def)
qed (use assms in \<open>simp add: next_nonce_def\<close>)

lemma next_nonce_range: "0 \<le> next_nonce v" "next_nonce v < NONCE_TERMINAL"
  by (simp_all add: next_nonce_def NONCE_TERMINAL_def)

lemma raw_elapsed_range: "0 \<le> raw_elapsed v m" "raw_elapsed v m \<le> U64_MAX"
  by (simp_all add: raw_elapsed_def U64_MAX_def)

lemma next_timestamp_range:
  "client_ok v \<Longrightarrow> v_lastTimestamp v \<le> next_timestamp v m \<and> 0 \<le> next_timestamp v m \<and> next_timestamp v m \<le> U64_MAX"
  using raw_elapsed_range [of v m] by (auto simp: next_timestamp_def client_ok_def)

lemma length_wire_of [simp]: "length (wire_of f) = 32"
  by (simp add: wire_of_def)

lemma classify_not_Sent: "classifySendError os e \<noteq> Sent"
  by (simp add: classifySendError_def Let_def)

lemma noted_simps [simp]:
  "v_nonce (noted m v) = v_nonce v" "v_lastTimestamp (noted m v) = v_lastTimestamp v" "v_buf (noted m v) = v_buf v"
  "v_startNs (noted m v) = v_startNs v" "v_connectPid (noted m v) = v_connectPid v" "v_closed (noted m v) = v_closed v"
  "v_reconnectAfter (noted m v) = v_reconnectAfter v" "v_consecutiveDropped (noted m v) = v_consecutiveDropped v"
  "v_forkRecoveriesCount (noted m v) = v_forkRecoveriesCount v"
  by (simp_all add: noted_def)

text \<open>What follows the first attempt, with the encoded agent \<open>v\<close> and the module after the clock was read.\<close>

definition after_send ::
  "node_os \<Rightarrow> 's BeatTransport \<Rightarrow> int \<Rightarrow> int \<Rightarrow> bool \<Rightarrow> Varta \<Rightarrow> client_module \<Rightarrow> 's \<Rightarrow>
     BeatOutcome throws \<times> Varta \<times> client_module \<times> 's" where
  "after_send os bt nonce ts wrapped v m s =
     (case sendFrame os bt v s of
        (Sent, s1) \<Rightarrow>
          (let (v2, m2) = commitSentFrame nonce ts wrapped (v, m)
           in (Inr Sent, v2\<lparr>v_consecutiveDropped := 0\<rparr>, m2, s1))
      | (Dropped reason, s1) \<Rightarrow>
          (let dropped = min (v_consecutiveDropped v + 1) MAX_SAFE_INTEGER
           in if threshold_reached (v_reconnectAfter v) dropped
              then let v2 = v\<lparr>v_consecutiveDropped := 0\<rparr>
                   in case bt_reconnect bt s1 of
                        (Inl e, s2) \<Rightarrow> (Inr (Dropped reason), v2, m, s2)
                      | (Inr _, s2) \<Rightarrow>
                          (case sendFrame os bt v2 s2 of
                             (Sent, s3) \<Rightarrow>
                               (let (v3, m2) = commitSentFrame nonce ts wrapped (v2, m)
                                in (Inr Sent, v3, m2, s3))
                           | (retry, s3) \<Rightarrow> (Inr retry, v2, m, s3))
              else (Inr (Dropped reason), v\<lparr>v_consecutiveDropped := dropped\<rparr>, m, s1))
      | (Failed err, s1) \<Rightarrow> (Inr (Failed err), v\<lparr>v_consecutiveDropped := 0\<rparr>, m, s1))"

lemma beat_emit_eq:
  assumes "client_ok v"
  shows "beat_emit os bt pid st payload (v, m, s) =
    after_send os bt (next_nonce v) (next_timestamp v m) (next_nonce v = 0)
      ((noted m v)\<lparr>v_buf := wire_of (sent_frame st pid payload v m)\<rparr>) (snd (monotonicNs m)) s"
proof -
  let ?n = "next_nonce v" and ?ts = "next_timestamp v m"
  have n: "(if v_nonce v < NONCE_TERMINAL - 1 then v_nonce v + 1 else 0) = ?n"
    "(\<not> v_nonce v < NONCE_TERMINAL - 1) = (?n = 0)"
    using assms next_nonce_eq [of v] by (auto simp: client_ok_def split: if_splits)
  obtain now m1 where mono: "monotonicNs m = (now, m1)" by (cases "monotonicNs m")
  have raw: "(if (if now - v_startNs v < 0 then 0 else now - v_startNs v) > U64_MAX then U64_MAX
      else (if now - v_startNs v < 0 then 0 else now - v_startNs v)) = raw_elapsed v m"
    by (simp add: raw_elapsed_def mono U64_MAX_def)
  have ts: "(if raw_elapsed v m > v_lastTimestamp v then raw_elapsed v m else v_lastTimestamp v) = ?ts"
    by (simp add: next_timestamp_def)
  have e: "encodeInto (v_buf v) (StatusEnum st) (js_int pid) ?ts ?n payload =
      (wire_of (sent_frame st pid payload v m), Inr ())"
    using assms next_nonce_range [of v] next_timestamp_range [OF assms, of m]
    by (subst encodeInto_result [OF _ coerceStatus_enum])
      (simp_all add: client_ok_def FRAME_BYTES_def is_u64_def wire_of_def sent_frame_def NONCE_TERMINAL_def U64_MAX_def Let_def)
  show ?thesis
    unfolding beat_emit_def after_send_def Let_def mono split_conv snd_conv raw noted_def [symmetric]
      noted_simps ts n e prod.case sum.case
    by (rule refl)
qed

lemma sendFrame_cases:
  "bt_send bt (v_buf v) s = (r, s') \<Longrightarrow>
     sendFrame os bt v s = ((case r of Inl e \<Rightarrow> classifySendError os e | Inr _ \<Rightarrow> Sent), s')"
  by (simp add: sendFrame_def split: sum.split)

lemma commitSentFrame_eq [simp]:
  "commitSentFrame nonce ts wrapped (v, m) =
     (v\<lparr>v_nonce := nonce, v_lastTimestamp := ts\<rparr>, if wrapped then warnNonceWrapping m else m)"
  by (simp add: commitSentFrame_def)

subsection \<open>The agent over any transport that keeps its contract\<close>

text \<open>What the caller can rely on after an emission that started with frame \<open>b\<close> in the buffer.\<close>

definition emitted ::
  "(('s \<Rightarrow> bytes list) \<times> ('s \<Rightarrow> bytes \<Rightarrow> bytes option)) \<Rightarrow> 's \<Rightarrow> bytes \<Rightarrow> BeatOutcome \<Rightarrow> 's \<Rightarrow> bool" where
  "emitted = (\<lambda>(handed, opens) s b out s'.
     if out = Sent then \<exists>d. handed s' = handed s @ [d] \<and> opens s d = Some b else handed s' = handed s)"

context beat_transport
begin

lemma sendFrame_emits:
  assumes "inv s" and "length (v_buf v) = FRAME_BYTES"
    and "sendFrame os \<lparr>bt_send = send, bt_reconnect = reconnect, bt_close = close\<rparr> v s = (o1, s')"
  shows "inv s' \<and> opens s' = opens s \<and> emitted (handed, opens) s (v_buf v) o1 s'"
proof -
  obtain r t where r: "send (v_buf v) s = (r, t)" by (cases "send (v_buf v) s")
  then have "o1 = (case r of Inl e \<Rightarrow> classifySendError os e | Inr _ \<Rightarrow> Sent)" and "s' = t"
    using assms(3) sendFrame_cases [of "\<lparr>bt_send = send, bt_reconnect = reconnect, bt_close = close\<rparr>" v s r t os]
    by simp_all
  with r assms send_inv [OF assms(1), of "v_buf v"] opens_send [OF assms(1), of "v_buf v"]
    send_ok [OF assms(1,2), of t] send_throws [OF assms(1), of "v_buf v" _ t]
  show ?thesis by (cases r) (auto simp: emitted_def classify_not_Sent)
qed

lemma after_send_emits:
  assumes "inv s" and "length (v_buf v) = FRAME_BYTES"
    and "after_send os \<lparr>bt_send = send, bt_reconnect = reconnect, bt_close = close\<rparr> nonce ts wrapped v m s = (r, v', m', s')"
  shows "inv s' \<and> opens s' = opens s \<and> (\<exists>o1 k. r = Inr o1 \<and> emitted (handed, opens) s (v_buf v) o1 s' \<and>
    (k = 0 \<or> k = min (v_consecutiveDropped v + 1) MAX_SAFE_INTEGER) \<and>
    v' = (if o1 = Sent then v\<lparr>v_nonce := nonce, v_lastTimestamp := ts\<rparr> else v)\<lparr>v_consecutiveDropped := k\<rparr>)"
proof -
  let ?bt = "\<lparr>bt_send = send, bt_reconnect = reconnect, bt_close = close\<rparr>"
  obtain o1 s1 where f1: "sendFrame os ?bt v s = (o1, s1)" by (cases "sendFrame os ?bt v s")
  note e1 = sendFrame_emits [OF assms(1,2) f1]
  show ?thesis
  proof (cases "\<exists>reason. o1 = Dropped reason \<and>
      threshold_reached (v_reconnectAfter v) (min (v_consecutiveDropped v + 1) MAX_SAFE_INTEGER)")
    case False
    let ?k = "if isDropped o1 then min (v_consecutiveDropped v + 1) MAX_SAFE_INTEGER else 0"
    have "r = Inr o1 \<and> s' = s1 \<and>
        v' = (if o1 = Sent then v\<lparr>v_nonce := nonce, v_lastTimestamp := ts\<rparr> else v)\<lparr>v_consecutiveDropped := ?k\<rparr>"
      using False assms(3) f1 by (cases o1) (simp_all add: after_send_def Let_def)
    with e1 show ?thesis by (intro conjI exI [of _ o1] exI [of _ ?k]) simp_all
  next
    case True
    then obtain reason where o1: "o1 = Dropped reason"
      and th: "threshold_reached (v_reconnectAfter v) (min (v_consecutiveDropped v + 1) MAX_SAFE_INTEGER)" by blast
    let ?v = "v\<lparr>v_consecutiveDropped := 0\<rparr>"
    obtain q s2 where rc: "reconnect s1 = (q, s2)" by (cases "reconnect s1")
    have k2: "inv s2" "opens s2 = opens s" "handed s2 = handed s"
      using e1 o1 rc reconnect_inv [of s1] opens_reconnect [of s1] reconnect_handed [of s1]
      by (auto simp: emitted_def)
    obtain o2 s3 where f2: "sendFrame os ?bt ?v s2 = (o2, s3)" by (cases "sendFrame os ?bt ?v s2")
    have e2: "inv s3 \<and> opens s3 = opens s \<and> emitted (handed, opens) s (v_buf v) o2 s3"
      using sendFrame_emits [OF k2(1) _ f2] assms(2) k2 by (cases "o2 = Sent") (auto simp: emitted_def)
    show ?thesis
    proof (cases q)
      case (Inl e)
      then have "r = Inr o1 \<and> s' = s2 \<and> v' = ?v"
        using assms(3) f1 o1 th rc by (simp add: after_send_def Let_def)
      with k2 o1 show ?thesis
        by (intro conjI exI [of _ o1] exI [of _ 0]) (simp_all add: emitted_def)
    next
      case (Inr u)
      then have "r = Inr o2 \<and> s' = s3 \<and>
          v' = (if o2 = Sent then v\<lparr>v_nonce := nonce, v_lastTimestamp := ts\<rparr> else v)\<lparr>v_consecutiveDropped := 0\<rparr>"
        using assms(3) f1 o1 th rc f2 by (cases o2) (auto simp: after_send_def Let_def)
      with e2 show ?thesis by (intro conjI exI [of _ o2] exI [of _ 0]) simp_all
    qed
  qed
qed

lemma beat_emit_sound:
  assumes "inv s" and "client_ok v"
    and "beat_emit os \<lparr>bt_send = send, bt_reconnect = reconnect, bt_close = close\<rparr> pid st payload (v, m, s) = (r, v', m', s')"
  shows "inv s' \<and> opens s' = opens s \<and> client_ok v' \<and>
    (\<exists>out. r = Inr out \<and> emitted (handed, opens) s (wire_of (sent_frame st pid payload v m)) out s' \<and>
       v_nonce v' = (if out = Sent then next_nonce v else v_nonce v) \<and>
       v_lastTimestamp v' = (if out = Sent then next_timestamp v m else v_lastTimestamp v)) \<and>
    v_startNs v' = v_startNs v \<and> v_connectPid v' = v_connectPid v \<and> v_closed v' = v_closed v \<and>
    v_reconnectAfter v' = v_reconnectAfter v \<and> v_forkRecoveriesCount v' = v_forkRecoveriesCount v"
proof -
  let ?v = "(noted m v)\<lparr>v_buf := wire_of (sent_frame st pid payload v m)\<rparr>"
  have b: "length (v_buf ?v) = FRAME_BYTES" by (simp add: FRAME_BYTES_def)
  from after_send_emits [OF assms(1) b, of os "next_nonce v" "next_timestamp v m" "next_nonce v = 0"
      "snd (monotonicNs m)" r v' m' s'] assms(2,3)
  obtain out k where o: "inv s'" "opens s' = opens s" "r = Inr out"
    "emitted (handed, opens) s (wire_of (sent_frame st pid payload v m)) out s'"
    and k: "k = 0 \<or> k = min (v_consecutiveDropped v + 1) MAX_SAFE_INTEGER"
    and v': "v' = (if out = Sent then ?v\<lparr>v_nonce := next_nonce v, v_lastTimestamp := next_timestamp v m\<rparr> else ?v)\<lparr>v_consecutiveDropped := k\<rparr>"
    by (auto simp: beat_emit_eq)
  have k': "0 \<le> k" "k \<le> MAX_SAFE_INTEGER" using k assms(2) by (auto simp: client_ok_def MAX_SAFE_INTEGER_def)
  have "client_ok ?v" using assms(2) b by (auto simp: client_ok_def noted_def satAddBig_def Let_def U64_MAX_def)
  then have "client_ok v'"
    using k' next_nonce_range [of v] next_timestamp_range [OF assms(2), of m]
    by (auto simp: v' client_ok_def)
  with o show ?thesis by (auto simp: v')
qed

end

subsection \<open>Properties of one operation, over any transport\<close>

lemma after_send_state:
  assumes "after_send os bt nonce ts wrapped v m s = (r, v', m', s')"
  shows "\<exists>out k. r = Inr out \<and> (k = 0 \<or> k = min (v_consecutiveDropped v + 1) MAX_SAFE_INTEGER) \<and>
    v' = (if out = Sent then v\<lparr>v_nonce := nonce, v_lastTimestamp := ts\<rparr> else v)\<lparr>v_consecutiveDropped := k\<rparr> \<and>
    m' = (if out = Sent \<and> wrapped then warnNonceWrapping m else m)"
proof -
  obtain o1 s1 where f1: "sendFrame os bt v s = (o1, s1)" by (cases "sendFrame os bt v s")
  let ?d = "min (v_consecutiveDropped v + 1) MAX_SAFE_INTEGER" and ?v = "v\<lparr>v_consecutiveDropped := 0\<rparr>"
  obtain q s2 where rc: "bt_reconnect bt s1 = (q, s2)" by (cases "bt_reconnect bt s1")
  obtain o2 s3 where f2: "sendFrame os bt ?v s2 = (o2, s3)" by (cases "sendFrame os bt ?v s2")
  let ?out = "if isDropped o1 \<and> threshold_reached (v_reconnectAfter v) ?d \<and> \<not> isl q then o2 else o1"
  let ?k = "if isDropped o1 \<and> \<not> threshold_reached (v_reconnectAfter v) ?d then ?d else 0"
  have "r = Inr ?out \<and>
    v' = (if ?out = Sent then v\<lparr>v_nonce := nonce, v_lastTimestamp := ts\<rparr> else v)\<lparr>v_consecutiveDropped := ?k\<rparr> \<and>
    m' = (if ?out = Sent \<and> wrapped then warnNonceWrapping m else m)"
    using assms f1 rc f2 by (cases o1; cases q; cases o2) (auto simp: after_send_def Let_def split: if_splits)
  then show ?thesis by (intro exI [of _ ?out] exI [of _ ?k]) auto
qed

lemma beat_emit_state:
  assumes "client_ok v" and "beat_emit os bt pid st payload (v, m, s) = (r, v', m', s')"
  shows "client_ok v' \<and> (\<exists>out. r = Inr out \<and>
      v_nonce v' = (if out = Sent then next_nonce v else v_nonce v) \<and>
      v_lastTimestamp v' = (if out = Sent then next_timestamp v m else v_lastTimestamp v) \<and>
      m' = (if out = Sent \<and> next_nonce v = 0 then warnNonceWrapping (snd (monotonicNs m)) else snd (monotonicNs m))) \<and>
    v_startNs v' = v_startNs v \<and> v_connectPid v' = v_connectPid v \<and>
    v_forkRecoveriesCount v' = v_forkRecoveriesCount v \<and>
    v_clockRegressionsCount v' = v_clockRegressionsCount (noted m v)"
proof -
  let ?v = "(noted m v)\<lparr>v_buf := wire_of (sent_frame st pid payload v m)\<rparr>"
  obtain out k where r: "r = Inr out" and k: "k = 0 \<or> k = min (v_consecutiveDropped ?v + 1) MAX_SAFE_INTEGER"
    and v': "v' = (if out = Sent then ?v\<lparr>v_nonce := next_nonce v, v_lastTimestamp := next_timestamp v m\<rparr> else ?v)\<lparr>v_consecutiveDropped := k\<rparr>"
    and m': "m' = (if out = Sent \<and> next_nonce v = 0 then warnNonceWrapping (snd (monotonicNs m)) else snd (monotonicNs m))"
    using after_send_state [OF assms(2) [unfolded beat_emit_eq [OF assms(1)]]] by blast
  have k': "0 \<le> k" "k \<le> MAX_SAFE_INTEGER" using k assms(1) by (auto simp: client_ok_def MAX_SAFE_INTEGER_def)
  have "client_ok ?v" using assms(1) by (auto simp: client_ok_def noted_def satAddBig_def Let_def U64_MAX_def FRAME_BYTES_def)
  then have "client_ok v'"
    using k' next_nonce_range [of v] next_timestamp_range [OF assms(1), of m] by (auto simp: v' client_ok_def)
  with r v' m' show ?thesis by auto
qed

lemma satAddBig_min: "satAddBig a b = min U64_MAX (a + b)"
  by (simp add: satAddBig_def Let_def min_def)

text \<open>C13: \<open>beat\<close> never throws and keeps the agent well formed, whatever status, payload and transport it
  is given: the scratch buffer stays 32 bytes, the nonce stays below the reserved terminal
  value, timestamps and counters stay within 64 bits and the drop count within the safe
  integers, so encoding the next frame cannot fail either.\<close>

theorem beat_total_and_well_formed:
  assumes "client_ok v"
  shows "\<exists>out v' m' s'. beat os bt pid status payload (v, m, s) = (Inr out, v', m', s') \<and> client_ok v'"
proof -
  let ?ok = "\<lambda>x. \<exists>out v' m' s'. x = (Inr out, v', m', s') \<and> client_ok v'"
  have emit: "?ok (beat_emit os bt pid st payload (u, n, x))" if "client_ok u" for st u n x
  proof -
    obtain r v' m' s' where e: "beat_emit os bt pid st payload (u, n, x) = (r, v', m', s')" by (metis prod_cases4)
    from beat_emit_state [OF that e] e show ?thesis by auto
  qed
  have "client_ok (v\<lparr>v_connectPid := pid, v_forkRecoveriesCount := satAddBig (v_forkRecoveriesCount v) 1,
      v_nonce := 0, v_startNs := i, v_lastTimestamp := 0, v_consecutiveDropped := 0\<rparr>)" for i
    using assms by (auto simp: client_ok_def satAddBig_def Let_def U64_MAX_def NONCE_TERMINAL_def MAX_SAFE_INTEGER_def)
  with assms emit show ?thesis
    by (auto simp: beat_def client_ok_def MAX_SAFE_INTEGER_def Let_def split: option.split prod.split sum.split)
qed

text \<open>A recording transport for the witnesses: it counts reconnects and answers every send alike.\<close>

definition counting_transport :: "unit throws \<Rightarrow> nat BeatTransport" where
  "counting_transport answer =
     \<lparr>bt_send = (\<lambda>_ c. (answer, c)), bt_reconnect = (\<lambda>c. (Inr (), Suc c)), bt_close = (\<lambda>c. (Inr (), c))\<rparr>"

definition sample_agent :: Varta where
  "sample_agent =
     \<lparr>v_buf = replicate 32 0, v_startNs = 0, v_nonce = 5, v_consecutiveDropped = 0, v_reconnectAfter = js_int 0,
      v_lastTimestamp = 70, v_clockRegressionsCount = 0, v_connectPid = 42, v_forkRecoveriesCount = 0, v_closed = False\<rparr>"

definition sample_module :: client_module where
  "sample_module = \<lparr>m_nonceWrapWarned = False, m_stderr = [], m_hrtime = (\<lambda>k. 100 + int k), m_override = None, m_reads = 0\<rparr>"

lemma sample_agent_ok: "client_ok sample_agent"
  by (simp add: client_ok_def sample_agent_def FRAME_BYTES_def NONCE_TERMINAL_def U64_MAX_def MAX_SAFE_INTEGER_def)

theorem beat_total_and_well_formed_witness:
  "\<exists>out v' m' s'. beat linux_os (counting_transport (Inr ())) 42 (StatusName ''degraded'') JNaN (sample_agent, sample_module, 0)
     = (Inr out, v', m', s') \<and> client_ok v'"
  by (rule beat_total_and_well_formed [OF sample_agent_ok])



text \<open>Closing is final and idempotent. After \<open>close\<close> no beat reaches the transport (it fails as
  closed, or as invalid input when the status is), \<open>reconnect\<close> throws \<open>EBADF\<close> without touching
  the transport, and a second \<open>close\<close> does nothing.\<close>

theorem closed_agent_is_silent:
  "\<exists>r v1 s1. close bt (v, s) = (r, v1, s1) \<and> v_closed v1 \<and> close bt (v1, s2) = (Inr (), v1, s2) \<and>
     reconnect bt pid (v1, s2) = (Inl closedReconnectError, v1\<lparr>v_consecutiveDropped := 0\<rparr>, s2) \<and>
     beat os bt pid status payload (v1, m, s2) =
       (Inr (Failed (new_BeatError 0
          (case coerceBeatStatus status of None \<Rightarrow> ''InvalidInput'' | Some st \<Rightarrow> if st = Stall then ''InvalidInput'' else ''Closed'') None)),
        v1\<lparr>v_consecutiveDropped := 0\<rparr>, m, s2)"
proof -
  obtain r v1 s1 where c: "close bt (v, s) = (r, v1, s1)" by (metis prod_cases3)
  then have "v_closed v1" by (auto simp: close_def split: if_splits prod.splits)
  with c show ?thesis by (simp add: close_def reconnect_def beat_def split: option.split)
qed

text \<open>The agent and the codec agree on statuses: \<open>coerceBeatStatus\<close> accepts exactly the values that
  \<open>coerceStatus\<close> resolves to a member of the enumeration, so the names that \<open>coerceStatus\<close>
  finds on the object prototype are refused before they reach the encoder.\<close>

theorem beat_status_agrees_with_codec:
  "coerceBeatStatus x = Some st \<longleftrightarrow> coerceStatus x = Inr (CStatus st)"
proof (cases x)
  case (StatusName n)
  then show ?thesis by (auto simp: status_by_name_def STATUS_BY_NAME_def lower_inherited_names_def Let_def)
qed auto

text \<open>Clock regressions. An elapsed time below the last committed timestamp is counted, whether or not
  the frame is then sent, and never reaches the wire: the timestamp committed by a beat
  never decreases.\<close>

theorem clock_regression_counted:
  assumes "client_ok v" and "v_connectPid v = pid" and "\<not> v_closed v"
    and "coerceBeatStatus status = Some st" and "st \<noteq> Stall"
    and "beat os bt pid status payload (v, m, s) = (r, v', m', s')"
  shows "v_lastTimestamp v \<le> v_lastTimestamp v' \<and>
    clockRegressions v' = (if raw_elapsed v m < v_lastTimestamp v
      then min U64_MAX (clockRegressions v + 1) else clockRegressions v)"
proof -
  have "beat_emit os bt pid st payload (v, m, s) = (r, v', m', s')"
    using assms by (simp add: beat_def)
  from beat_emit_state [OF assms(1) this] next_timestamp_range [OF assms(1), of m] show ?thesis
    by (auto simp: clockRegressions_def noted_def satAddBig_min)
qed

theorem clock_regression_counted_witness:
  "\<exists>r v' m' s'. beat linux_os (counting_transport (Inr ())) 42 (StatusEnum Ok) (js_int 0)
       (sample_agent\<lparr>v_lastTimestamp := 5000\<rparr>, sample_module, 0) = (r, v', m', s') \<and>
     5000 \<le> v_lastTimestamp v' \<and> clockRegressions v' = 1"
proof -
  let ?v = "sample_agent\<lparr>v_lastTimestamp := 5000\<rparr>"
  have ok: "client_ok ?v" using sample_agent_ok by (simp add: client_ok_def U64_MAX_def)
  obtain r v' m' s' where b: "beat linux_os (counting_transport (Inr ())) 42 (StatusEnum Ok) (js_int 0) (?v, sample_module, 0) = (r, v', m', s')"
    by (metis prod_cases4)
  have "raw_elapsed ?v sample_module = 100"
    by (simp add: raw_elapsed_def monotonicNs_def sample_agent_def sample_module_def U64_MAX_def)
  with clock_regression_counted [OF ok _ _ _ _ b, of Ok]
  have "5000 \<le> v_lastTimestamp v' \<and> clockRegressions v' = 1"
    by (simp add: sample_agent_def clockRegressions_def U64_MAX_def)
  with b show ?thesis by blast
qed

end
