(* ===== verification/Agent.thy ===== *)
theory Agent
  imports Client
begin

text \<open>
  Runs of an agent in one process: beats, reconnects, closing and the runtime's callbacks in any
  order. Proved once for every transport that keeps the contract of \<open>transport_events\<close>, and then
  stated for the client's own transports: the datagrams that leave the agent are, in order, the
  frames it reported as sent, with consecutive nonces and non-decreasing timestamps.
\<close>

section \<open>Runs of an agent\<close>

datatype 'e agent_action =
    Beat StatusLike jsnum | Reconnect | SetReconnectAfter "jsnum option" | Close | Runtime 'e

text \<open>One action in a process with a fixed pid; a beat that was sent yields the frame it carries.\<close>

fun agent_step ::
  "node_os \<Rightarrow> 's BeatTransport \<Rightarrow> ('e \<Rightarrow> 's \<Rightarrow> 's) \<Rightarrow> int \<Rightarrow> 'e agent_action \<Rightarrow> Varta \<times> client_module \<times> 's \<Rightarrow>
     Frame list \<times> Varta \<times> client_module \<times> 's" where
  "agent_step os bt ev pid (Beat status payload) (v, m, s) =
     (case beat os bt pid status payload (v, m, s) of
        (Inr Sent, v', m', s') \<Rightarrow>
          ([\<lparr>fr_status = the (coerceBeatStatus status), fr_pid = to_uint32 (js_int pid),
             fr_timestamp = v_lastTimestamp v', fr_nonce = v_nonce v', fr_payload = to_uint32 payload\<rparr>], v', m', s')
      | (_, v', m', s') \<Rightarrow> ([], v', m', s'))"
| "agent_step os bt ev pid Reconnect (v, m, s) =
     (case reconnect bt pid (v, s) of (_, v', s') \<Rightarrow> ([], v', m, s'))"
| "agent_step os bt ev pid (SetReconnectAfter n) (v, m, s) = ([], setReconnectAfter n v, m, s)"
| "agent_step os bt ev pid Close (v, m, s) = (case close bt (v, s) of (_, v', s') \<Rightarrow> ([], v', m, s'))"
| "agent_step os bt ev pid (Runtime e) (v, m, s) = ([], v, m, ev e s)"

fun agent_run ::
  "node_os \<Rightarrow> 's BeatTransport \<Rightarrow> ('e \<Rightarrow> 's \<Rightarrow> 's) \<Rightarrow> int \<Rightarrow> 'e agent_action list \<Rightarrow> Varta \<times> client_module \<times> 's \<Rightarrow>
     Frame list \<times> Varta \<times> client_module \<times> 's" where
  "agent_run os bt ev pid [] st = ([], st)"
| "agent_run os bt ev pid (a # as) st =
     (case agent_step os bt ev pid a st of
        (fs1, st1) \<Rightarrow> (case agent_run os bt ev pid as st1 of (fs2, st2) \<Rightarrow> (fs1 @ fs2, st2)))"

lemma agent_run_append:
  "agent_run os bt ev pid (as @ bs) st =
     (case agent_run os bt ev pid as st of (fs1, st1) \<Rightarrow>
        (case agent_run os bt ev pid bs st1 of (fs2, st2) \<Rightarrow> (fs1 @ fs2, st2)))"
  by (induction as arbitrary: st) (simp_all split: prod.split)

definition nonces_from :: "int \<Rightarrow> Frame list \<Rightarrow> bool" where
  "nonces_from n fs \<longleftrightarrow> (\<forall>i < length fs. fr_nonce (fs ! i) = (n + 1 + int i) mod NONCE_TERMINAL)"

lemma nonces_from_append:
  assumes "nonces_from n fs1" and "nonces_from ((n + int (length fs1)) mod NONCE_TERMINAL) fs2"
  shows "nonces_from n (fs1 @ fs2)"
proof -
  have "((n + int (length fs1)) mod NONCE_TERMINAL + 1 + int (i - length fs1)) mod NONCE_TERMINAL =
      (n + 1 + int i) mod NONCE_TERMINAL" if "length fs1 \<le> i" for i
    using mod_add_left_eq [of "n + int (length fs1)" NONCE_TERMINAL "1 + int (i - length fs1)"] that
    by (simp add: algebra_simps of_nat_diff)
  with assms show ?thesis
    by (auto simp: nonces_from_def nth_append less_diff_conv2 not_less)
qed

text \<open>What a run owes to the receiver: one datagram per logged frame, in order.\<close>

definition delivered :: "('s \<Rightarrow> bytes list) \<times> ('s \<Rightarrow> bytes \<Rightarrow> bytes option) \<Rightarrow> 's \<Rightarrow> Frame list \<Rightarrow> 's \<Rightarrow> bool" where
  "delivered = (\<lambda>(handed, opens) s fs s'. \<exists>ds. handed s' = handed s @ ds \<and> opens s' = opens s \<and>
     list_all2 (\<lambda>d f. opens s d = Some (wire_of f)) ds fs)"

lemma delivered_refl: "handed s' = handed s \<Longrightarrow> opens s' = opens s \<Longrightarrow> delivered (handed, opens) s [] s'"
  by (simp add: delivered_def)

lemma delivered_trans:
  "delivered ho s fs1 s1 \<Longrightarrow> delivered ho s1 fs2 s2 \<Longrightarrow> delivered ho s (fs1 @ fs2) s2"
  by (cases ho) (fastforce simp: delivered_def intro: list_all2_appendI)

definition run_ok :: "int \<Rightarrow> Varta \<Rightarrow> Frame list \<Rightarrow> Varta \<Rightarrow> bool" where
  "run_ok pid v fs v' \<longleftrightarrow> client_ok v' \<and> v_connectPid v' = pid \<and>
     nonces_from (v_nonce v) fs \<and> v_nonce v' = (v_nonce v + int (length fs)) mod NONCE_TERMINAL \<and>
     sorted (v_lastTimestamp v # map fr_timestamp fs @ [v_lastTimestamp v']) \<and>
     (\<forall>f \<in> set fs. fr_pid f = to_uint32 (js_int pid) \<and> fr_status f \<noteq> Stall \<and> 0 \<le> fr_timestamp f \<and> fr_timestamp f \<le> U64_MAX)"

lemma run_ok_refl: "client_ok v \<Longrightarrow> run_ok (v_connectPid v) v [] v"
  by (simp add: run_ok_def nonces_from_def client_ok_def)

lemma run_ok_trans:
  assumes "run_ok pid v fs1 v1" and "run_ok pid v1 fs2 v2"
  shows "run_ok pid v (fs1 @ fs2) v2"
proof -
  have "nonces_from (v_nonce v) (fs1 @ fs2)"
    using assms by (intro nonces_from_append) (simp_all add: run_ok_def)
  moreover have "v_nonce v2 = (v_nonce v + int (length (fs1 @ fs2))) mod NONCE_TERMINAL"
    using assms by (simp add: run_ok_def mod_add_left_eq add.assoc)
  moreover have "sorted (v_lastTimestamp v # map fr_timestamp (fs1 @ fs2) @ [v_lastTimestamp v2])"
    using assms by (auto simp: run_ok_def sorted_append intro: order_trans)
  ultimately show ?thesis using assms by (auto simp: run_ok_def)
qed

lemma client_ok_dropped_0 [simp]: "client_ok v \<Longrightarrow> client_ok (v\<lparr>v_consecutiveDropped := 0\<rparr>)"
  by (simp add: client_ok_def MAX_SAFE_INTEGER_def)

lemma coerceBeatStatus_cases: "coerceBeatStatus status = None \<or> (\<exists>st. coerceBeatStatus status = Some st)"
  by (cases "coerceBeatStatus status") auto

lemma beat_same_pid:
  assumes "pid = v_connectPid v"
  shows "beat os bt pid status payload (v, m, s) =
    (if coerceBeatStatus status = None \<or> coerceBeatStatus status = Some Stall
     then (Inr (Failed (new_BeatError 0 ''InvalidInput'' None)), v\<lparr>v_consecutiveDropped := 0\<rparr>, m, s)
     else if v_closed v then (Inr (Failed (new_BeatError 0 ''Closed'' None)), v\<lparr>v_consecutiveDropped := 0\<rparr>, m, s)
     else beat_emit os bt pid (the (coerceBeatStatus status)) payload (v, m, s))"
  using assms by (auto simp: beat_def split: option.split)

context transport_events
begin

lemma beat_delivers:
  assumes "inv s" and "client_ok v" and "v_connectPid v = pid"
    and "agent_step os \<lparr>bt_send = send, bt_reconnect = reconnect, bt_close = close\<rparr> event pid (Beat status payload) (v, m, s)
           = (fs, v', m', s')"
  shows "inv s' \<and> delivered (handed, opens) s fs s' \<and> run_ok pid v fs v'"
proof -
  let ?bt = "\<lparr>bt_send = send, bt_reconnect = reconnect, bt_close = close\<rparr>"
  let ?st = "coerceBeatStatus status"
  show ?thesis
  proof (cases "?st = None \<or> ?st = Some Stall \<or> v_closed v")
    case True
    then have "fs = []" "v' = v\<lparr>v_consecutiveDropped := 0\<rparr>" "s' = s"
      using assms(3,4) by (auto simp: beat_same_pid split: if_splits)
    with assms run_ok_refl [of "v\<lparr>v_consecutiveDropped := 0\<rparr>"] show ?thesis
      by (auto simp: delivered_refl run_ok_def)
  next
    case False
    obtain r v1 m1 s1 where e: "beat_emit os ?bt pid (the ?st) payload (v, m, s) = (r, v1, m1, s1)"
      by (metis prod_cases4)
    note k = beat_emit_sound [OF assms(1,2) e]
    then obtain out where r: "r = Inr out"
      and em: "emitted (handed, opens) s (wire_of (sent_frame (the ?st) pid payload v m)) out s1"
      and n: "v_nonce v1 = (if out = Sent then next_nonce v else v_nonce v)"
      and ts: "v_lastTimestamp v1 = (if out = Sent then next_timestamp v m else v_lastTimestamp v)" by blast
    have b: "beat os ?bt pid status payload (v, m, s) = (Inr out, v1, m1, s1)"
      using False e r assms(3) by (auto simp: beat_same_pid)
    show ?thesis
    proof (cases "out = Sent")
      case True
      let ?f = "sent_frame (the ?st) pid payload v m"
      have "fs = [?f]" "v' = v1" "s' = s1"
        using assms(4) b True n ts by (simp_all add: sent_frame_def)
      moreover have "run_ok pid v [?f] v1"
        using k n ts True False assms(3) next_timestamp_range [OF assms(2), of m]
        by (auto simp: run_ok_def nonces_from_def sent_frame_def next_nonce_def client_ok_def)
      ultimately show ?thesis using k em True by (auto simp: emitted_def delivered_def)
    next
      case False
      then have "fs = []" "v' = v1" "s' = s1" using assms(4) b by (auto split: BeatOutcome.splits)
      moreover have "run_ok pid v [] v1"
        using k n ts False assms(2,3) by (auto simp: run_ok_def nonces_from_def client_ok_def)
      ultimately show ?thesis using k em False by (auto simp: emitted_def delivered_refl)
    qed
  qed
qed

lemma agent_step_delivers:
  assumes "inv s" and "client_ok v" and "v_connectPid v = pid"
    and "\<And>e. a = Runtime e \<Longrightarrow> quiet e"
    and "agent_step os \<lparr>bt_send = send, bt_reconnect = reconnect, bt_close = close\<rparr> event pid a (v, m, s) = (fs, v', m', s')"
  shows "inv s' \<and> delivered (handed, opens) s fs s' \<and> run_ok pid v fs v'"
proof (cases a)
  case (Beat status payload)
  with assms beat_delivers show ?thesis by blast
next
  case Reconnect
  obtain r s1 where r: "reconnect s = (r, s1)" by (cases "reconnect s")
  have "fs = [] \<and> (s' = s \<or> s' = s1) \<and> run_ok pid v [] v'"
    using assms(2,3,5) r Reconnect
    by (auto simp: Client.reconnect_def run_ok_def nonces_from_def client_ok_def MAX_SAFE_INTEGER_def split: if_splits sum.splits)
  with assms(1) r reconnect_inv [of s] reconnect_handed [of s] opens_reconnect [of s] show ?thesis
    by (auto simp: delivered_refl)
next
  case Close
  obtain r s1 where r: "close s = (r, s1)" by (cases "close s")
  have "fs = [] \<and> (s' = s \<or> s' = s1) \<and> run_ok pid v [] v'"
    using assms(2,3,5) r Close
    by (auto simp: Client.close_def run_ok_def nonces_from_def client_ok_def MAX_SAFE_INTEGER_def split: if_splits)
  with assms(1) r close_inv [of s] close_handed [of s] opens_close [of s] show ?thesis
    by (auto simp: delivered_refl)
next
  case (SetReconnectAfter n)
  with assms show ?thesis
    by (auto simp: setReconnectAfter_def delivered_refl run_ok_def nonces_from_def client_ok_def MAX_SAFE_INTEGER_def)
next
  case (Runtime e)
  with assms event_inv [of s e] event_handed [of s e] event_opens [of s e] run_ok_refl [of v] show ?thesis
    by (auto simp: delivered_refl)
qed

lemma agent_run_delivers:
  assumes "inv s" and "client_ok v" and "v_connectPid v = pid" and "\<forall>e. Runtime e \<in> set as \<longrightarrow> quiet e"
    and "agent_run os \<lparr>bt_send = send, bt_reconnect = reconnect, bt_close = close\<rparr> event pid as (v, m, s) = (fs, v', m', s')"
  shows "inv s' \<and> delivered (handed, opens) s fs s' \<and> run_ok pid v fs v'"
  using assms
proof (induction as arbitrary: v m s fs)
  case Nil
  then show ?case using run_ok_refl [of v] by (simp add: delivered_refl)
next
  case (Cons a as)
  let ?bt = "\<lparr>bt_send = send, bt_reconnect = reconnect, bt_close = close\<rparr>"
  obtain fs1 v1 m1 s1 where st: "agent_step os ?bt event pid a (v, m, s) = (fs1, v1, m1, s1)" by (metis prod_cases4)
  obtain fs2 where run: "agent_run os ?bt event pid as (v1, m1, s1) = (fs2, v', m', s')" and fs: "fs = fs1 @ fs2"
    using Cons.prems(5) st by (auto split: prod.splits)
  have s1: "inv s1" "delivered (handed, opens) s fs1 s1" "run_ok pid v fs1 v1"
    using agent_step_delivers [OF Cons.prems(1-3) _ st] Cons.prems(4) by auto
  then have "client_ok v1" and "v_connectPid v1 = pid" by (simp_all add: run_ok_def)
  with Cons.IH [OF s1(1) _ _ _ run] Cons.prems(4) s1 show ?case
    by (auto simp: fs intro: delivered_trans run_ok_trans)
qed

end

subsection \<open>The agent over its three transports\<close>

definition udp_transport :: "node_env \<Rightarrow> (UdpTransport \<times> node_world) BeatTransport" where
  "udp_transport env = \<lparr>bt_send = udp_send, bt_reconnect = udp_reconnect env, bt_close = udp_close\<rparr>"

definition secure_transport :: "node_env \<Rightarrow> (SecureUdpTransport \<times> node_world) BeatTransport" where
  "secure_transport env = \<lparr>bt_send = secure_send env, bt_reconnect = secure_reconnect env, bt_close = secure_close\<rparr>"

definition uds_transport :: "node_env \<Rightarrow> (UdsTransport \<times> node_world) BeatTransport" where
  "uds_transport env = \<lparr>bt_send = uds_send env, bt_reconnect = uds_reconnect env, bt_close = uds_closeTransport\<rparr>"

abbreviation net_callback :: "net_event \<Rightarrow> 'a UdpTransport_scheme \<times> node_world \<Rightarrow> 'a UdpTransport_scheme \<times> node_world" where
  "net_callback ev st \<equiv> snd (runtime_event ev st)"

lemma new_Varta_ok: "new_Varta pid m = (v, m') \<Longrightarrow> client_ok v \<and> v_connectPid v = pid \<and> v_nonce v = 0 \<and> v_lastTimestamp v = 0 \<and> \<not> v_closed v"
  by (auto simp: new_Varta_def client_ok_def NONCE_TERMINAL_def U64_MAX_def MAX_SAFE_INTEGER_def length_buffer_alloc
      split: prod.splits)

lemma with_transport_Inr:
  "with_transport rw m = (Inr (v, t), m', w') \<Longrightarrow> rw = (Inr t, w') \<and> new_Varta (w_pid w') m = (v, m')"
  by (cases rw) (auto simp: with_transport_def split: sum.splits prod.splits)

lemma agent_beat_sent:
  assumes "client_ok v" and "v_connectPid v = pid" and "\<not> v_closed v"
    and "coerceBeatStatus status = Some st" and "st \<noteq> Stall"
    and "bt_send bt (wire_of (sent_frame st pid payload v m)) s = (Inr (), s')"
  shows "\<exists>v' m'. agent_step os bt ev pid (Beat status payload) (v, m, s) = ([sent_frame st pid payload v m], v', m', s')"
  using assms
  by (simp add: beat_same_pid beat_emit_eq after_send_def sendFrame_def Let_def)
    (simp add: sent_frame_def)

text \<open>What the observer decodes out of a frame the agent sent.\<close>

lemma decode_wire_of:
  assumes "frame_ok f"
  shows "decode (wire_of f) = Inr f"
proof -
  have "uint (word_of_int (fr_timestamp f) :: u64) = fr_timestamp f" "uint (word_of_int (fr_nonce f) :: u64) = fr_nonce f"
    using assms by (simp_all only: frame_ok_def uint_of_u64)
  with assms show ?thesis
    by (cases "fr_status f") (simp_all add: wire_of_def decode_frame_wire frame_ok_def status_of_byte_def)
qed

lemma run_frames_ok:
  assumes "run_ok pid v fs v'" and "f \<in> set fs" and "fr_timestamp f < TIMESTAMP_INVALID" and "1 < to_uint32 (js_int pid)"
  shows "frame_ok f"
proof -
  obtain i where "i < length fs" and f: "f = fs ! i" using assms(2) by (auto simp: in_set_conv_nth)
  then have n: "fr_nonce f = (v_nonce v + 1 + int i) mod NONCE_TERMINAL"
    using assms(1) by (simp add: run_ok_def nonces_from_def)
  have "0 \<le> fr_nonce f" "fr_nonce f < NONCE_TERMINAL" unfolding n by (simp_all add: NONCE_TERMINAL_def)
  moreover have "fr_pid f = to_uint32 (js_int pid)" "fr_status f \<noteq> Stall" "0 \<le> fr_timestamp f"
    using assms(1,2) by (auto simp: run_ok_def)
  moreover have "to_uint32 (js_int pid) \<noteq> 0" "to_uint32 (js_int pid) \<noteq> 1" using assms(4) by auto
  ultimately show ?thesis
    using assms(3) by (simp add: frame_ok_def is_u64_def NONCE_TERMINAL_def TIMESTAMP_INVALID_def)
qed

text \<open>The observer's reading of a datagram: open it, then decode the frame.\<close>

definition read_datagram :: "(bytes \<Rightarrow> bytes option) \<Rightarrow> bytes \<Rightarrow> Frame option" where
  "read_datagram opn d = (case opn d of None \<Rightarrow> None | Some b \<Rightarrow> (case decode b of Inl e \<Rightarrow> None | Inr f \<Rightarrow> Some f))"

lemma delivered_readable:
  assumes "delivered (handed, opens) s fs s'" and "run_ok pid v fs v'"
    and "\<forall>f \<in> set fs. fr_timestamp f < TIMESTAMP_INVALID" and "1 < to_uint32 (js_int pid)"
  shows "\<exists>ds. handed s' = handed s @ ds \<and> map (read_datagram (opens s)) ds = map Some fs"
proof -
  obtain ds where ds: "handed s' = handed s @ ds" "list_all2 (\<lambda>d f. opens s d = Some (wire_of f)) ds fs"
    using assms(1) by (auto simp: delivered_def)
  have "map (read_datagram (opens s)) ds = map Some fs"
  proof (rule nth_equalityI)
    show "length (map (read_datagram (opens s)) ds) = length (map Some fs)"
      using ds(2) by (simp add: list_all2_lengthD)
    fix i assume "i < length (map (read_datagram (opens s)) ds)"
    then have "i < length fs" "opens s (ds ! i) = Some (wire_of (fs ! i))" "i < length ds"
      using ds(2) by (auto simp: list_all2_conv_all_nth)
    moreover from this have "decode (wire_of (fs ! i)) = Inr (fs ! i)"
      using assms by (intro decode_wire_of run_frames_ok [OF assms(2)]) simp_all
    ultimately show "map (read_datagram (opens s)) ds ! i = map Some fs ! i"
      by (simp add: read_datagram_def)
  qed
  with ds(1) show ?thesis by blast
qed

subsection \<open>End-to-end properties\<close>

lemma agent_udp_run_ok:
  assumes "connectUdp env host port m w0 = (Inr (v, t), m1, w1)"
    and "\<forall>e. Runtime e \<in> set as \<longrightarrow> \<not> is_connect_failure e"
    and "agent_run os (udp_transport env) net_callback (w_pid w1) as (v, m1, t, w1) = (fs, v', m', t', w')"
  shows "delivered (udp_handed, \<lambda>_. Some) (t, w1) fs (t', w')" and "run_ok (w_pid w1) v fs v'"
proof -
  have new: "new_UdpTransport env host port w0 = (Inr t, w1)" and v: "new_Varta (w_pid w1) m = (v, m1)"
    using with_transport_Inr [OF assms(1) [unfolded connectUdp_def]] by simp_all
  then show "delivered (udp_handed, \<lambda>_. Some) (t, w1) fs (t', w')" and "run_ok (w_pid w1) v fs v'"
    using udp_events.agent_run_delivers [OF new_UdpTransport_ok [OF new] _ _ assms(2) assms(3) [unfolded udp_transport_def]]
      new_Varta_ok [OF v] by simp_all
qed

lemma agent_udp_run:
  assumes "connectUdp env host port m w0 = (Inr (v, t), m1, w1)"
    and "\<forall>e. Runtime e \<in> set as \<longrightarrow> \<not> is_connect_failure e"
    and "agent_run os (udp_transport env) net_callback (w_pid w1) as (v, m1, t, w1) = (fs, v', m', t', w')"
    and "1 < to_uint32 (js_int (w_pid w1))" and "\<forall>f \<in> set fs. fr_timestamp f < TIMESTAMP_INVALID"
  shows "map decode (drop (length (w_wire w0)) (map snd (w_wire w') @ u_preConnectQueue t')) = map Inr fs \<and>
    run_ok (w_pid w1) v fs v' \<and> nonces_from 0 fs \<and> sorted (map fr_timestamp fs)"
proof -
  have new: "new_UdpTransport env host port w0 = (Inr t, w1)" and v: "new_Varta (w_pid w1) m = (v, m1)"
    using with_transport_Inr [OF assms(1) [unfolded connectUdp_def]] by simp_all
  note vok = new_Varta_ok [OF v]
  note n = new_UdpTransport_Inr [OF new]
  note r = agent_udp_run_ok [OF assms(1-3)]
  from delivered_readable [OF r assms(5,4)] obtain ds
    where ds: "udp_handed (t', w') = udp_handed (t, w1) @ ds" "map (read_datagram Some) ds = map Some fs" by auto
  have dec: "read_datagram Some x = Some f \<longleftrightarrow> decode x = Inr f" for x f
    by (simp add: read_datagram_def split: sum.split)
  have "map decode ds = map Inr fs"
    using ds(2) by (auto simp: list_eq_iff_nth_eq dec)
  moreover have "drop (length (w_wire w0)) (map snd (w_wire w') @ u_preConnectQueue t') = ds"
    using ds(1) n(2,4) by (simp add: udp_handed_def)
  ultimately show ?thesis using r vok by (simp add: run_ok_def sorted_append)
qed


definition start_module :: client_module where
  "start_module = \<lparr>m_nonceWrapWarned = False, m_stderr = [], m_hrtime = (\<lambda>k. 1000 * int k), m_override = None, m_reads = 0\<rparr>"

lemma start_agent:
  obtains v m where "new_Varta 42 start_module = (v, m)" and "client_ok v" and "v_connectPid v = 42" and "\<not> v_closed v"
    and "next_nonce v = 1" and "next_timestamp v m = 1000"
proof -
  obtain v m where v: "new_Varta 42 start_module = (v, m)" by (cases "new_Varta 42 start_module")
  then have "v_startNs v = 0" "fst (monotonicNs m) = 1000"
    by (auto simp: new_Varta_def monotonicNs_def start_module_def)
  with v new_Varta_ok [OF v] that show ?thesis
    by (simp add: next_nonce_def next_timestamp_def raw_elapsed_def NONCE_TERMINAL_def U64_MAX_def)
qed




subsection \<open>Automatic reconnection and the wrap warning\<close>

text \<open>A beat that is dropped, on a transport that keeps dropping.\<close>

lemma dropped_beat:
  assumes "client_ok v" and "v_connectPid v = pid" and "\<not> v_closed v" and "classifySendError os err = Dropped reason"
    and "v_reconnectAfter v = js_int n" and "0 < n" and "n \<le> MAX_SAFE_INTEGER" and "v_consecutiveDropped v < n"
  shows "\<exists>v' m'. agent_step os (counting_transport (Inl err)) ev pid (Beat (StatusEnum Ok) payload) (v, m, c) =
      ([], v', m', if v_consecutiveDropped v + 1 = n then Suc c else c) \<and>
    client_ok v' \<and> v_connectPid v' = pid \<and> \<not> v_closed v' \<and> v_reconnectAfter v' = js_int n \<and> v_nonce v' = v_nonce v \<and>
    v_consecutiveDropped v' = (if v_consecutiveDropped v + 1 = n then 0 else v_consecutiveDropped v + 1)"
proof -
  let ?v = "(noted m v)\<lparr>v_buf := wire_of (sent_frame Ok pid payload v m)\<rparr>"
  let ?d = "v_consecutiveDropped v + 1"
  have th: "threshold_reached (js_int n) ?d \<longleftrightarrow> ?d = n"
    using assms(6,8) by (simp only: threshold_reached.simps of_int_0_less_iff of_int_le_iff) auto
  have "min ?d MAX_SAFE_INTEGER = ?d" using assms(7,8) by simp
  then have b: "beat os (counting_transport (Inl err)) pid (StatusEnum Ok) payload (v, m, c) =
      (Inr (Dropped reason), ?v\<lparr>v_consecutiveDropped := if ?d = n then 0 else ?d\<rparr>, snd (monotonicNs m), if ?d = n then Suc c else c)"
    using assms th by (simp add: beat_same_pid beat_emit_eq after_send_def sendFrame_def counting_transport_def Let_def)
  have "client_ok (?v\<lparr>v_consecutiveDropped := if ?d = n then 0 else ?d\<rparr>)"
    using assms(1,7,8) by (auto simp: client_ok_def noted_def satAddBig_min U64_MAX_def FRAME_BYTES_def)
  with b assms show ?thesis by simp
qed

lemma dropped_beats:
  assumes "client_ok v" and "v_connectPid v = pid" and "\<not> v_closed v" and "classifySendError os err = Dropped reason"
    and "v_reconnectAfter v = js_int (int n)" and "0 < n" and "int n \<le> MAX_SAFE_INTEGER"
    and "v_consecutiveDropped v = int d" and "d < n"
  shows "\<exists>v' m'. agent_run os (counting_transport (Inl err)) ev pid (replicate k (Beat (StatusEnum Ok) payload)) (v, m, c) =
      ([], v', m', c + (d + k) div n) \<and> v_nonce v' = v_nonce v \<and> v_consecutiveDropped v' = int ((d + k) mod n)"
  using assms
proof (induction k arbitrary: v m c d)
  case 0
  then show ?case by simp
next
  case (Suc k)
  obtain v1 m1 where st: "agent_step os (counting_transport (Inl err)) ev pid (Beat (StatusEnum Ok) payload) (v, m, c) =
      ([], v1, m1, if Suc d = n then Suc c else c)"
    and v1: "client_ok v1" "v_connectPid v1 = pid" "\<not> v_closed v1" "v_reconnectAfter v1 = js_int (int n)" "v_nonce v1 = v_nonce v"
    and d1: "v_consecutiveDropped v1 = (if Suc d = n then 0 else int (Suc d))"
    using dropped_beat [of v pid os err reason "int n" ev payload m c] Suc.prems by auto
  let ?d = "if Suc d = n then 0 else Suc d"
  have "\<exists>v' m'. agent_run os (counting_transport (Inl err)) ev pid (replicate k (Beat (StatusEnum Ok) payload))
      (v1, m1, if Suc d = n then Suc c else c) =
      ([], v', m', (if Suc d = n then Suc c else c) + (?d + k) div n) \<and> v_nonce v' = v_nonce v1 \<and> v_consecutiveDropped v' = int ((?d + k) mod n)"
    using Suc.prems v1 d1 by (intro Suc.IH) auto
  moreover have "(if Suc d = n then Suc c else c) + (?d + k) div n = c + (d + Suc k) div n \<and> (?d + k) mod n = (d + Suc k) mod n"
  proof (cases "Suc d = n")
    case True
    then have e: "d + Suc k = n + k" by simp
    show ?thesis unfolding e using Suc.prems(6) True by simp
  qed simp
  ultimately show ?case using st v1(5) by (simp del: agent_step.simps)
qed


definition ENOENT_error :: js_error where
  "ENOENT_error = (new_Error ''sendto'')\<lparr>e_code := Some ''ENOENT'', e_errno := Some (- 2)\<rparr>"


text \<open>The module state in which the warning has been written at most once.\<close>

definition warned_once :: "client_module \<Rightarrow> bool" where
  "warned_once m \<longleftrightarrow>
     m_stderr m = (if m_nonceWrapWarned m then [''[varta] nonce exhausted; wrapping to 0'' @ [CHR 0x0A]] else [])"

lemma warned_once_clock [simp]: "warned_once (snd (monotonicNs m)) = warned_once m"
  by (simp add: warned_once_def monotonicNs_def)

lemma warned_once_warn: "warned_once m \<Longrightarrow> warned_once (warnNonceWrapping m)"
  by (simp add: warned_once_def warnNonceWrapping_def)

lemma agent_step_warned:
  assumes "client_ok v" and "v_connectPid v = pid" and "warned_once m"
    and "agent_step os bt ev pid a (v, m, s) = (fs, v', m', s')"
  shows "client_ok v' \<and> v_connectPid v' = pid \<and> warned_once m'"
proof (cases a)
  case (Beat status payload)
  obtain r v1 m1 s1 where e: "beat os bt pid status payload (v, m, s) = (r, v1, m1, s1)" by (metis prod_cases4)
  have same: "v' = v1" "m' = m1"
    using assms(4) Beat e by (auto split: sum.splits BeatOutcome.splits)
  show ?thesis
  proof (cases "coerceBeatStatus status = None \<or> coerceBeatStatus status = Some Stall \<or> v_closed v")
    case True
    then have "v1 = v\<lparr>v_consecutiveDropped := 0\<rparr>" "m1 = m"
      using e assms(2) by (auto simp: beat_same_pid split: if_splits)
    with same assms show ?thesis by simp
  next
    case False
    then have "beat_emit os bt pid (the (coerceBeatStatus status)) payload (v, m, s) = (r, v1, m1, s1)"
      using e assms(2) by (auto simp: beat_same_pid)
    from beat_emit_state [OF assms(1) this] same assms(2,3) show ?thesis
      by (auto simp: warned_once_warn)
  qed
qed (use assms in \<open>auto simp: reconnect_def close_def setReconnectAfter_def client_ok_def MAX_SAFE_INTEGER_def split: prod.splits sum.splits if_splits\<close>)

text \<open>The wrap warning is written at most once per process, however often the nonce wraps.\<close>

theorem wrap_warning_at_most_once:
  assumes "client_ok v" and "v_connectPid v = pid" and "m_stderr m = []" and "\<not> m_nonceWrapWarned m"
    and "agent_run os bt ev pid as (v, m, s) = (fs, v', m', s')"
  shows "m_stderr m' = [] \<or> m_stderr m' = [''[varta] nonce exhausted; wrapping to 0'' @ [CHR 0x0A]]"
proof -
  have "warned_once m'" if "client_ok v" "v_connectPid v = pid" "warned_once m"
    "agent_run os bt ev pid as (v, m, s) = (fs, v', m', s')" for v m s fs as
    using that
  proof (induction as arbitrary: v m s fs)
    case (Cons a as)
    obtain fs1 v1 m1 s1 where st: "agent_step os bt ev pid a (v, m, s) = (fs1, v1, m1, s1)" by (metis prod_cases4)
    from agent_step_warned [OF Cons.prems(1-3) st] Cons.IH [of v1 m1 s1] Cons.prems(4) st show ?case
      by (auto split: prod.splits)
  qed simp
  from this [OF assms(1,2) _ assms(5)] assms(3,4) show ?thesis by (auto simp: warned_once_def split: if_splits)
qed

theorem wrap_warning_at_most_once_witness:
  "\<exists>fs v' m' s'. agent_run linux_os (counting_transport (Inr ())) (\<lambda>(_ :: unit) s. s) 42
       [Beat (StatusEnum Ok) (js_int 0)] (sample_agent\<lparr>v_nonce := NONCE_TERMINAL - 1\<rparr>, sample_module, 0) = (fs, v', m', s') \<and>
     v_nonce v' = 0 \<and> m_stderr m' = [''[varta] nonce exhausted; wrapping to 0'' @ [CHR 0x0A]]"
proof -
  let ?v = "sample_agent\<lparr>v_nonce := NONCE_TERMINAL - 1\<rparr>"
  have ok: "client_ok ?v" using sample_agent_ok by (simp add: client_ok_def NONCE_TERMINAL_def)
  have pid: "v_connectPid ?v = 42" and z: "next_nonce ?v = 0" by (simp_all add: sample_agent_def next_nonce_def)
  obtain fs v' m' s' where run: "agent_run linux_os (counting_transport (Inr ())) (\<lambda>(_ :: unit) s. s) 42
       [Beat (StatusEnum Ok) (js_int 0)] (?v, sample_module, 0) = (fs, v', m', s')" by (metis prod_cases4)
  have m: "m_stderr sample_module = []" "\<not> m_nonceWrapWarned sample_module" by (simp_all add: sample_module_def)
  have "\<not> v_closed ?v" by (simp add: sample_agent_def)
  then have "v_nonce v' = 0 \<and> m' = warnNonceWrapping (snd (monotonicNs sample_module))"
    using run pid z by (auto simp: beat_same_pid beat_emit_eq [OF ok] after_send_def sendFrame_def counting_transport_def Let_def)
  then have "v_nonce v' = 0" and "m_stderr m' \<noteq> []"
    using m by (simp_all add: warnNonceWrapping_def monotonicNs_def)
  with run wrap_warning_at_most_once [OF ok pid m run] show ?thesis by blast
qed

end
