(* ===== verification/Panic.thy ===== *)
theory Panic
  imports Secure_Transport Uds_Transport
begin

section \<open>Panic emitters (\<open>clients/node/src/panic.ts\<close>)\<close>

text \<open>
  The module variables, the listeners and immediates of the process, and the runtime world are
  one record. The emitter of an installer is a closure in the code; here it is a value with the
  variables the closure captures. \<open>dispatch\<close> delivers an event to the listeners registered for it
  and \<open>run_immediate\<close> runs the oldest \<open>setImmediate\<close> callback; listeners of the host application
  are recorded and otherwise left alone. An event nobody listens to ends the process.
\<close>

record panic_install_error = js_error +
  pe_kind :: string

definition PanicInstallError :: "string \<Rightarrow> string \<Rightarrow> panic_install_error" where
  "PanicInstallError kind message =
     \<lparr>e_name = ''PanicInstallError'', e_message = kind @ '': '' @ message, e_code = None, e_errno = None, pe_kind = kind\<rparr>"

datatype install_result = Installed | InstallFailed panic_install_error | KeyRejected js_error

definition FATAL_SIGNALS :: "string list" where
  "FATAL_SIGNALS = [''SIGTERM'', ''SIGINT'', ''SIGQUIT'', ''SIGHUP'']"

datatype emitter =
    EmitUdp nat
  | EmitUds UdsTransport
  | EmitSecure nat bytes u32 bytes

record trigger =
  tr_fired :: bool
  tr_emitter :: emitter

datatype listener = OnUncaughtException | OnUnhandledRejection | OnSig string | Host nat

datatype immediate = Rethrow raised | KillSelf string

record panic_state =
  ps_world :: node_world
  ps_hrtime :: "nat \<Rightarrow> int"
  ps_reads :: nat
  ps_active :: "trigger option"
  ps_handlersInstalled :: bool
  ps_epoch :: int
  ps_last :: int
  ps_listeners :: "(string \<times> listener) list"
  ps_immediates :: "immediate list"
  ps_hostlog :: "(nat \<times> string) list"
  ps_exited :: bool

subsection \<open>Terminal frames\<close>

definition claimTerminalTimestamp :: "int \<Rightarrow> int \<Rightarrow> int option" where
  "claimTerminalTimestamp previous raw =
     (if previous \<ge> TIMESTAMP_INVALID - 1 then None
      else let candidate = (if raw > previous then raw else previous + 1)
           in if candidate < TIMESTAMP_INVALID then Some candidate else None)"

definition claimTerminalTimestampForTest :: "int \<Rightarrow> int \<Rightarrow> int option" where
  "claimTerminalTimestampForTest previous raw = claimTerminalTimestamp previous raw"

definition nextTerminalTimestamp :: "panic_state \<Rightarrow> int option \<times> panic_state" where
  "nextTerminalTimestamp p =
     (let rawElapsed = ps_hrtime p (ps_reads p) - ps_epoch p;
          p1 = p\<lparr>ps_reads := Suc (ps_reads p)\<rparr>;
          raw = (if rawElapsed > 0 then rawElapsed else 1)
      in case claimTerminalTimestamp (ps_last p1) raw of
           None \<Rightarrow> (None, p1)
         | Some candidate \<Rightarrow> (Some candidate, p1\<lparr>ps_last := candidate\<rparr>))"

record CriticalFrameMeta =
  cf_frame :: bytes
  cf_pid :: u32
  cf_timestamp :: int

definition buildCriticalFrameWithMeta ::
  "jsnum \<Rightarrow> panic_state \<Rightarrow> CriticalFrameMeta option throws \<times> panic_state" where
  "buildCriticalFrameWithMeta payload p =
     (case nextTerminalTimestamp p of
        (None, p1) \<Rightarrow> (Inr None, p1)
      | (Some timestamp, p1) \<Rightarrow>
          (let pid = to_uint32 (js_int (w_pid (ps_world p1)))
           in case encodeInto (buffer_alloc FRAME_BYTES) (StatusEnum Critical) (js_u32 pid) timestamp
                     NONCE_TERMINAL (js_u32 (to_uint32 payload)) of
                (buf, Inl e) \<Rightarrow> (Inl e, p1)
              | (buf, Inr _) \<Rightarrow> (Inr (Some \<lparr>cf_frame = buf, cf_pid = pid, cf_timestamp = timestamp\<rparr>), p1)))"

definition buildCriticalFrame :: "jsnum \<Rightarrow> panic_state \<Rightarrow> bytes option throws \<times> panic_state" where
  "buildCriticalFrame payload p =
     (case buildCriticalFrameWithMeta payload p of
        (Inl e, p1) \<Rightarrow> (Inl e, p1)
      | (Inr None, p1) \<Rightarrow> (Inr None, p1)
      | (Inr (Some meta), p1) \<Rightarrow> (Inr (Some (cf_frame meta)), p1))"

subsection \<open>Emitters\<close>

text \<open>The three closures; what they throw is swallowed, so only their effect remains. The value
  returned is the emitter with its captured variables after the call.\<close>

definition emit_udp :: "nat \<Rightarrow> panic_state \<Rightarrow> panic_state" where
  "emit_udp sock p =
     (case buildCriticalFrame (js_int 0) p of
        (Inr (Some frame), p1) \<Rightarrow> p1\<lparr>ps_world := snd (sock_send sock frame (ps_world p1))\<rparr>
      | (_, p1) \<Rightarrow> p1)"

definition emit_uds :: "node_env \<Rightarrow> UdsTransport \<Rightarrow> panic_state \<Rightarrow> UdsTransport \<times> panic_state" where
  "emit_uds env transport p =
     (case buildCriticalFrame (js_int 0) p of
        (Inr (Some frame), p1) \<Rightarrow>
          (case uds_send env frame (transport, ps_world p1) of (_, t, w) \<Rightarrow> (t, p1\<lparr>ps_world := w\<rparr>))
      | (_, p1) \<Rightarrow> (transport, p1))"

definition emit_secure :: "nat \<Rightarrow> bytes \<Rightarrow> u32 \<Rightarrow> bytes \<Rightarrow> panic_state \<Rightarrow> u32 \<times> panic_state" where
  "emit_secure sock salt counter key p =
     (case buildCriticalFrameWithMeta (js_int 0) p of
        (Inr (Some meta), p1) \<Rightarrow>
          (case derivePanicIvPrefix salt (js_u32 (cf_pid meta)) (cf_timestamp meta) (js_u32 counter) of
             Inl e \<Rightarrow> (counter + 1, p1)
           | Inr prefix \<Rightarrow>
               (case encodeShared key (subarray prefix 0 IV_RANDOM_BYTES) (js_u32 counter) (cf_frame meta) of
                  Inl e \<Rightarrow> (counter + 1, p1)
                | Inr wire \<Rightarrow> (counter + 1, p1\<lparr>ps_world := snd (sock_send sock wire (ps_world p1))\<rparr>)))
      | (_, p1) \<Rightarrow> (counter, p1))"

fun run_emitter :: "node_env \<Rightarrow> emitter \<Rightarrow> panic_state \<Rightarrow> emitter \<times> panic_state" where
  "run_emitter env (EmitUdp sock) p = (EmitUdp sock, emit_udp sock p)"
| "run_emitter env (EmitUds t) p = (case emit_uds env t p of (t', p') \<Rightarrow> (EmitUds t', p'))"
| "run_emitter env (EmitSecure sock salt counter key) p =
     (case emit_secure sock salt counter key p of (c, p') \<Rightarrow> (EmitSecure sock salt c key, p'))"

text \<open>The trigger closure of \<open>installEmitter\<close>: it marks itself as fired before it emits.\<close>

definition triggerActive :: "node_env \<Rightarrow> panic_state \<Rightarrow> panic_state" where
  "triggerActive env p =
     (case ps_active p of
        None \<Rightarrow> p
      | Some tr \<Rightarrow>
          if tr_fired tr then p
          else (case run_emitter env (tr_emitter tr) p of
                  (em, p1) \<Rightarrow> p1\<lparr>ps_active := Some \<lparr>tr_fired = True, tr_emitter = em\<rparr>\<rparr>))"

subsection \<open>Listeners and the event loop\<close>

definition own_handlers :: "(string \<times> listener) list" where
  "own_handlers = [(''uncaughtException'', OnUncaughtException), (''unhandledRejection'', OnUnhandledRejection)] @
     map (\<lambda>sig. (sig, OnSig sig)) FATAL_SIGNALS"

definition installEmitter :: "emitter \<Rightarrow> panic_state \<Rightarrow> panic_state" where
  "installEmitter em p =
     (let p1 = p\<lparr>ps_active := Some \<lparr>tr_fired = False, tr_emitter = em\<rparr>\<rparr>
      in if ps_handlersInstalled p1 then p1
         else p1\<lparr>ps_handlersInstalled := True, ps_listeners := ps_listeners p1 @ own_handlers\<rparr>)"

definition removeListener :: "string \<Rightarrow> listener \<Rightarrow> panic_state \<Rightarrow> panic_state" where
  "removeListener name l p = p\<lparr>ps_listeners := remove1 (name, l) (ps_listeners p)\<rparr>"

definition setImmediate :: "immediate \<Rightarrow> panic_state \<Rightarrow> panic_state" where
  "setImmediate i p = p\<lparr>ps_immediates := ps_immediates p @ [i]\<rparr>"

fun to_error :: "raised \<Rightarrow> raised" where
  "to_error (RaisedError e) = RaisedError e"
| "to_error (RaisedValue s) = RaisedError (new_Error s)"

fun run_listener :: "node_env \<Rightarrow> string \<Rightarrow> raised \<Rightarrow> listener \<Rightarrow> panic_state \<Rightarrow> panic_state" where
  "run_listener env name arg OnUncaughtException p =
     setImmediate (Rethrow arg) (removeListener ''uncaughtException'' OnUncaughtException (triggerActive env p))"
| "run_listener env name arg OnUnhandledRejection p =
     setImmediate (Rethrow (to_error arg))
       (removeListener ''unhandledRejection'' OnUnhandledRejection (triggerActive env p))"
| "run_listener env name arg (OnSig sig) p =
     setImmediate (KillSelf sig) (removeListener sig (OnSig sig) (triggerActive env p))"
| "run_listener env name arg (Host k) p = p\<lparr>ps_hostlog := ps_hostlog p @ [(k, name)]\<rparr>"

definition listeners_of :: "string \<Rightarrow> panic_state \<Rightarrow> listener list" where
  "listeners_of name p = map snd (filter (\<lambda>(n, l). n = name) (ps_listeners p))"

text \<open>An event without listeners takes the default action: an unhandled rejection is raised as an
  uncaught exception, a reason that is no error being wrapped first, and anything else ends the process.\<close>

fun unhandled_reason :: "raised \<Rightarrow> raised" where
  "unhandled_reason (RaisedError e) = RaisedError e"
| "unhandled_reason (RaisedValue s) = RaisedError (node_Error ''ERR_UNHANDLED_REJECTION'' s)"

definition dispatch :: "node_env \<Rightarrow> string \<Rightarrow> raised \<Rightarrow> panic_state \<Rightarrow> panic_state" where
  "dispatch env name arg p =
     (if ps_exited p then p
      else if listeners_of name p \<noteq> [] then fold (run_listener env name arg) (listeners_of name p) p
      else if name = ''unhandledRejection'' \<and> listeners_of ''uncaughtException'' p \<noteq> []
      then fold (run_listener env ''uncaughtException'' (unhandled_reason arg)) (listeners_of ''uncaughtException'' p) p
      else p\<lparr>ps_exited := True\<rparr>)"

fun run_immediate :: "node_env \<Rightarrow> panic_state \<Rightarrow> panic_state" where
  "run_immediate env p =
     (if ps_exited p then p
      else case ps_immediates p of
             [] \<Rightarrow> p
           | Rethrow err # is \<Rightarrow> dispatch env ''uncaughtException'' err (p\<lparr>ps_immediates := is\<rparr>)
           | KillSelf sig # is \<Rightarrow> dispatch env sig (RaisedValue sig) (p\<lparr>ps_immediates := is\<rparr>))"

declare run_immediate.simps [simp del]

subsection \<open>Installers\<close>

definition createConnectedSocket ::
  "node_env \<Rightarrow> string \<Rightarrow> jsnum \<Rightarrow> node_world \<Rightarrow> nat throws \<times> node_world" where
  "createConnectedSocket env host port w =
     (let family = (if str_includes host '':'' then Udp6 else Udp4)
      in case createSocket env family w of
           (Inl e, w1) \<Rightarrow> (Inl e, w1)
         | (Inr s, w1) \<Rightarrow>
             (case sock_connect s port host (sock_unref s w1) of
                (Inl e, w2) \<Rightarrow> (Inl e, w2)
              | (Inr _, w2) \<Rightarrow> (Inr s, w2)))"

definition installSignalHandlerUdp ::
  "node_env \<Rightarrow> string \<Rightarrow> jsnum \<Rightarrow> panic_state \<Rightarrow> install_result \<times> panic_state" where
  "installSignalHandlerUdp env host port p =
     (case createConnectedSocket env host port (ps_world p) of
        (Inl err, w) \<Rightarrow> (InstallFailed (PanicInstallError ''SocketBind'' (e_message err)), p\<lparr>ps_world := w\<rparr>)
      | (Inr sock, w) \<Rightarrow> (Installed, installEmitter (EmitUdp sock) (p\<lparr>ps_world := w\<rparr>)))"

definition installSignalHandlerUds :: "node_env \<Rightarrow> string \<Rightarrow> panic_state \<Rightarrow> install_result \<times> panic_state" where
  "installSignalHandlerUds env path p =
     (case new_UdsTransport env path (ps_world p) of
        (Inl err, w) \<Rightarrow>
          (InstallFailed (PanicInstallError
             (if e_name err = ''UdsUnavailableError'' then ''UdsUnavailable'' else ''SocketBind'') (e_message err)),
           p\<lparr>ps_world := w\<rparr>)
      | (Inr transport, w) \<Rightarrow> (Installed, installEmitter (EmitUds transport) (p\<lparr>ps_world := w\<rparr>)))"

definition installSignalHandlerSecureUdp ::
  "node_env \<Rightarrow> string \<Rightarrow> jsnum \<Rightarrow> bytes \<Rightarrow> panic_state \<Rightarrow> install_result \<times> panic_state" where
  "installSignalHandlerSecureUdp env host port key p =
     (if length key \<noteq> KEY_BYTES
      then (KeyRejected (new_RangeError (''key must be '' @ int_string (int KEY_BYTES) @ '' bytes'')), p)
      else case randomBytes env SESSION_SALT_BYTES (ps_world p) of
        (Inl err, w) \<Rightarrow> (InstallFailed (PanicInstallError ''EntropyUnavailable'' (e_message err)), p\<lparr>ps_world := w\<rparr>)
      | (Inr salt, w) \<Rightarrow>
          (case createConnectedSocket env host port w of
             (Inl err, w1) \<Rightarrow> (InstallFailed (PanicInstallError ''SocketBind'' (e_message err)), p\<lparr>ps_world := w1\<rparr>)
           | (Inr sock, w1) \<Rightarrow> (Installed, installEmitter (EmitSecure sock salt 0 key) (p\<lparr>ps_world := w1\<rparr>))))"

text \<open>\<open>run\<close>, given what awaiting the wrapped function ends with; \<open>Inl\<close> is the rejection.\<close>

definition panic_run :: "node_env \<Rightarrow> raised option \<Rightarrow> panic_state \<Rightarrow> (raised + unit) \<times> panic_state" where
  "panic_run env ending p =
     (case ending of
        None \<Rightarrow> (Inr (), p)
      | Some err \<Rightarrow> (Inl err, triggerActive env p))"

subsection \<open>The terminal frame\<close>

lemma claim_Some:
  assumes "claimTerminalTimestamp previous raw = Some ts" and "1 \<le> raw"
  shows "previous < ts" and "raw \<le> ts" and "1 \<le> ts" and "ts < TIMESTAMP_INVALID"
  using assms by (auto simp: claimTerminalTimestamp_def Let_def split: if_splits)

lemma nextTerminalTimestamp_cases:
  obtains (none) "nextTerminalTimestamp p = (None, p\<lparr>ps_reads := Suc (ps_reads p)\<rparr>)"
  | (some) ts where "nextTerminalTimestamp p = (Some ts, p\<lparr>ps_reads := Suc (ps_reads p), ps_last := ts\<rparr>)"
      and "ps_last p < ts" and "1 \<le> ts" and "ts < TIMESTAMP_INVALID"
proof -
  let ?e = "ps_hrtime p (ps_reads p) - ps_epoch p"
  let ?raw = "if ?e > 0 then ?e else 1"
  show thesis
  proof (cases "claimTerminalTimestamp (ps_last p) ?raw")
    case None
    then show thesis by (intro none) (simp add: nextTerminalTimestamp_def Let_def)
  next
    case (Some ts)
    have "1 \<le> ?raw" by simp
    note c = claim_Some [OF Some this]
    from Some show thesis
      by (intro some [OF _ c(1) c(3,4)]) (simp add: nextTerminalTimestamp_def Let_def)
  qed
qed

definition terminal_wire :: "u32 \<Rightarrow> int \<Rightarrow> bytes" where
  "terminal_wire pid ts = frame_wire 2 pid (word_of_int ts) (word_of_int NONCE_TERMINAL) 0"

lemma length_terminal_wire [simp]: "length (terminal_wire pid ts) = 32"
  by (simp add: terminal_wire_def)

lemma decode_terminal_wire:
  assumes "1 < pid" and "1 \<le> ts" and "ts < TIMESTAMP_INVALID"
  shows "decode (terminal_wire pid ts) =
    Inr \<lparr>fr_status = Critical, fr_pid = pid, fr_timestamp = ts, fr_nonce = NONCE_TERMINAL, fr_payload = 0\<rparr>"
proof -
  have "is_u64 ts" "is_u64 NONCE_TERMINAL" using assms by (simp_all add: is_u64_def TIMESTAMP_INVALID_def NONCE_TERMINAL_def)
  then have "uint (word_of_int ts :: u64) = ts" "uint (word_of_int NONCE_TERMINAL :: u64) = NONCE_TERMINAL"
    by (simp_all only: uint_of_u64)
  moreover have "pid \<noteq> 0" "pid \<noteq> 1" using assms(1) by auto
  ultimately show ?thesis
    using assms(3) by (simp add: terminal_wire_def decode_frame_wire status_of_byte_def)
qed

abbreviation own_pid :: "panic_state \<Rightarrow> u32" where
  "own_pid p \<equiv> to_uint32 (js_int (w_pid (ps_world p)))"

lemma buildCriticalFrameWithMeta_cases:
  obtains (exhausted) "buildCriticalFrameWithMeta (js_int 0) p = (Inr None, p\<lparr>ps_reads := Suc (ps_reads p)\<rparr>)"
  | (frame) ts where "buildCriticalFrameWithMeta (js_int 0) p =
        (Inr (Some \<lparr>cf_frame = terminal_wire (own_pid p) ts, cf_pid = own_pid p, cf_timestamp = ts\<rparr>),
         p\<lparr>ps_reads := Suc (ps_reads p), ps_last := ts\<rparr>)"
      and "nextTerminalTimestamp p = (Some ts, p\<lparr>ps_reads := Suc (ps_reads p), ps_last := ts\<rparr>)"
      and "ps_last p < ts" and "1 \<le> ts" and "ts < TIMESTAMP_INVALID"
proof (cases p rule: nextTerminalTimestamp_cases)
  case none
  then show thesis by (intro exhausted) (simp add: buildCriticalFrameWithMeta_def)
next
  case (some ts)
  have u: "is_u64 ts" "is_u64 NONCE_TERMINAL" using some(3,4) by (simp_all add: is_u64_def TIMESTAMP_INVALID_def NONCE_TERMINAL_def)
  have z: "to_uint32 (js_u32 (to_uint32 (js_int 0))) = 0"
    using to_uint32_int [of 0] by (simp only: to_uint32_uint) simp
  have pid: "to_uint32 (js_u32 (own_pid p)) = own_pid p" by (simp only: to_uint32_uint)
  have b: "32 \<le> length (buffer_alloc FRAME_BYTES)" and d: "drop 32 (buffer_alloc FRAME_BYTES) = []"
    by (simp_all add: length_buffer_alloc FRAME_BYTES_def)
  have "encodeInto (buffer_alloc FRAME_BYTES) (StatusEnum Critical) (js_u32 (own_pid p)) ts NONCE_TERMINAL
      (js_u32 (to_uint32 (js_int 0))) = (terminal_wire (own_pid p) ts, Inr ())"
    unfolding encodeInto_result [OF b coerceStatus_enum] Let_def pid z d
    using u by (simp add: terminal_wire_def)
  moreover have "ps_world (p\<lparr>ps_reads := Suc (ps_reads p), ps_last := ts\<rparr>) = ps_world p" by simp
  ultimately show thesis
    using some by (intro frame [of ts]) (simp_all only: buildCriticalFrameWithMeta_def prod.case option.case Let_def sum.case)
qed

lemma buildCriticalFrame_eq:
  "buildCriticalFrame payload p =
     (case buildCriticalFrameWithMeta payload p of (r, p1) \<Rightarrow> (map_sum id (map_option cf_frame) r, p1))"
  by (simp add: buildCriticalFrame_def split: prod.split sum.split option.split)

subsection \<open>One shot\<close>

text \<open>The datagrams that left the process, and whether a trigger is still armed. Their sum never grows.\<close>

definition sent_count :: "panic_state \<Rightarrow> nat" where
  "sent_count p = length (w_wire (ps_world p)) + length (w_uds_wire (ps_world p))"

definition armed :: "panic_state \<Rightarrow> nat" where
  "armed p = (case ps_active p of None \<Rightarrow> 0 | Some tr \<Rightarrow> if tr_fired tr then 0 else 1)"

definition budget :: "panic_state \<Rightarrow> nat" where
  "budget p = sent_count p + armed p"

definition host_listeners :: "panic_state \<Rightarrow> (string \<times> listener) list" where
  "host_listeners p = filter (\<lambda>(n, l). \<exists>k. l = Host k) (ps_listeners p)"

lemma sock_send_adds_one:
  "length (w_wire (snd (sock_send s d w))) \<le> Suc (length (w_wire w)) \<and> w_uds_wire (snd (sock_send s d w)) = w_uds_wire w"
  by (simp add: sock_send_def)

lemma uds_send_adds_one:
  "uds_send env d (t, w) = (r, t', w') \<Longrightarrow> length (w_uds_wire w') \<le> Suc (length (w_uds_wire w)) \<and> w_wire w' = w_wire w"
  by (auto simp: uds_send_def takePendingError_def uds_sendTo_def split: option.splits)

lemma run_emitter_frame:
  assumes "run_emitter env em p = (em', p')"
  shows "sent_count p' \<le> Suc (sent_count p) \<and> ps_active p' = ps_active p \<and> ps_listeners p' = ps_listeners p \<and>
    ps_immediates p' = ps_immediates p \<and> ps_hostlog p' = ps_hostlog p \<and> ps_exited p' = ps_exited p \<and>
    ps_handlersInstalled p' = ps_handlersInstalled p"
proof (cases p rule: buildCriticalFrameWithMeta_cases)
  case exhausted
  with assms show ?thesis
    by (cases em) (auto simp: emit_udp_def emit_uds_def emit_secure_def buildCriticalFrame_eq sent_count_def)
next
  case (frame ts)
  show ?thesis
  proof (cases em)
    case (EmitUdp sock)
    with assms frame(1) sock_send_adds_one [of sock "terminal_wire (own_pid p) ts" "ps_world p"] show ?thesis
      by (auto simp: emit_udp_def buildCriticalFrame_eq sent_count_def)
  next
    case (EmitUds t)
    with assms frame(1) uds_send_adds_one [of env "terminal_wire (own_pid p) ts" t "ps_world p"] show ?thesis
      by (auto simp: emit_uds_def buildCriticalFrame_eq sent_count_def split: prod.splits)
  next
    case (EmitSecure sock salt counter key)
    with assms frame(1) sock_send_adds_one [of sock _ "ps_world p"] show ?thesis
      by (auto simp: emit_secure_def sent_count_def split: sum.splits)
  qed
qed

lemma triggerActive_frame:
  "budget (triggerActive env p) \<le> budget p \<and> ps_listeners (triggerActive env p) = ps_listeners p \<and>
   ps_immediates (triggerActive env p) = ps_immediates p \<and> ps_hostlog (triggerActive env p) = ps_hostlog p \<and>
   ps_exited (triggerActive env p) = ps_exited p \<and> ps_handlersInstalled (triggerActive env p) = ps_handlersInstalled p"
proof (cases "ps_active p")
  case None
  then show ?thesis by (simp add: triggerActive_def)
next
  case (Some tr)
  show ?thesis
  proof (cases "tr_fired tr")
    case True
    with Some show ?thesis by (simp add: triggerActive_def)
  next
    case False
    obtain em p1 where e: "run_emitter env (tr_emitter tr) p = (em, p1)" by (cases "run_emitter env (tr_emitter tr) p")
    from run_emitter_frame [OF e] Some False e show ?thesis
      by (simp add: triggerActive_def budget_def armed_def sent_count_def)
  qed
qed

subsection \<open>Runs\<close>

text \<open>What can happen to the process: an exception, rejection or signal, the next immediate, a wrapped
  function that ends, an installer, and a pending connect that completes or fails.\<close>

datatype panic_event =
    Raise string raised
  | NextImmediate
  | WrappedRun "raised option"
  | InstallUdp string jsnum
  | InstallUds string
  | InstallSecureUdp string jsnum bytes
  | SocketConnected nat
  | SocketFailed nat

fun panic_step :: "node_env \<Rightarrow> panic_event \<Rightarrow> panic_state \<Rightarrow> panic_state" where
  "panic_step env (Raise name arg) p = dispatch env name arg p"
| "panic_step env NextImmediate p = run_immediate env p"
| "panic_step env (WrappedRun ending) p = snd (panic_run env ending p)"
| "panic_step env (InstallUdp host port) p = snd (installSignalHandlerUdp env host port p)"
| "panic_step env (InstallUds path) p = snd (installSignalHandlerUds env path p)"
| "panic_step env (InstallSecureUdp host port key) p = snd (installSignalHandlerSecureUdp env host port key p)"
| "panic_step env (SocketConnected s) p =
     (if can_complete s (ps_world p) then p\<lparr>ps_world := sock_connected s (ps_world p)\<rparr> else p)"
| "panic_step env (SocketFailed s) p =
     (if can_complete s (ps_world p) then p\<lparr>ps_world := sock_connect_failed s (ps_world p)\<rparr> else p)"

fun is_install :: "panic_event \<Rightarrow> bool" where
  "is_install (InstallUdp host port) \<longleftrightarrow> True"
| "is_install (InstallUds path) \<longleftrightarrow> True"
| "is_install (InstallSecureUdp host port key) \<longleftrightarrow> True"
| "is_install ev \<longleftrightarrow> False"

definition own_listeners :: "panic_state \<Rightarrow> (string \<times> listener) list" where
  "own_listeners p = filter (\<lambda>(n, l). \<not> (\<exists>k. l = Host k)) (ps_listeners p)"

text \<open>The handler set of the module is registered at most once.\<close>

definition panic_wf :: "panic_state \<Rightarrow> bool" where
  "panic_wf p \<longleftrightarrow> distinct (own_listeners p) \<and> set (own_listeners p) \<subseteq> set own_handlers \<and>
     (\<not> ps_handlersInstalled p \<longrightarrow> own_listeners p = [])"

text \<open>One step, or several, that may arm \<open>n\<close> new triggers.\<close>

definition keeps :: "nat \<Rightarrow> panic_state \<Rightarrow> panic_state \<Rightarrow> bool" where
  "keeps n p p' \<longleftrightarrow> budget p' \<le> budget p + n \<and> host_listeners p' = host_listeners p \<and> (panic_wf p \<longrightarrow> panic_wf p')"

lemmas state_views = budget_def sent_count_def armed_def host_listeners_def own_listeners_def panic_wf_def

lemma keeps_refl [simp]: "keeps 0 p p"
  by (simp add: keeps_def)

lemma keeps_trans: "keeps m p p1 \<Longrightarrow> keeps n p1 p2 \<Longrightarrow> keeps (m + n) p p2"
  by (auto simp: keeps_def)

lemmas keeps_trans0 = keeps_trans [where n = 0, simplified]

lemma keeps_update [simp]:
  "keeps n p (p'\<lparr>ps_immediates := i\<rparr>) = keeps n p p'" "keeps n p (p'\<lparr>ps_hostlog := h\<rparr>) = keeps n p p'"
  "keeps n p (p'\<lparr>ps_exited := b\<rparr>) = keeps n p p'"
  by (simp_all add: keeps_def state_views)

lemma keeps_trigger: "keeps 0 p (triggerActive env p)"
  using triggerActive_frame [of env p] by (simp add: keeps_def host_listeners_def own_listeners_def panic_wf_def)

lemma keeps_remove:
  assumes "\<And>k. l \<noteq> Host k"
  shows "keeps 0 p (removeListener name l p)"
proof -
  let ?q = "removeListener name l p"
  have "own_listeners ?q = remove1 (name, l) (own_listeners p)"
    using filter_remove1 [of "\<lambda>(n, l). \<not> (\<exists>k. l = Host k)" "(name, l)" "ps_listeners p"]
    by (simp add: own_listeners_def removeListener_def)
  then have "panic_wf p \<longrightarrow> panic_wf ?q"
    using set_remove1_subset [of "(name, l)" "own_listeners p"] by (auto simp: panic_wf_def removeListener_def)
  moreover have "host_listeners ?q = host_listeners p"
    using assms filter_remove1 [of "\<lambda>(n, l). \<exists>k. l = Host k" "(name, l)" "ps_listeners p"]
    by (simp add: host_listeners_def removeListener_def remove1_idem)
  moreover have "budget ?q = budget p" by (simp add: removeListener_def budget_def sent_count_def armed_def)
  ultimately show ?thesis by (simp add: keeps_def)
qed

lemma keeps_listener: "keeps 0 p (run_listener env name arg l p)"
  by (cases l) (auto simp: setImmediate_def intro: keeps_trans0 [OF keeps_trigger keeps_remove])

lemma keeps_fold: "keeps 0 p (fold (run_listener env name arg) ls p)"
  by (induction ls arbitrary: p) (auto intro: keeps_trans0 [OF keeps_listener])

lemma keeps_dispatch: "keeps 0 p (dispatch env name arg p)"
  by (simp add: dispatch_def keeps_fold)

lemma keeps_immediate: "keeps 0 p (run_immediate env p)"
proof -
  have "keeps 0 p (dispatch env name arg (p\<lparr>ps_immediates := is\<rparr>))" for name arg "is"
    by (rule keeps_trans0 [OF _ keeps_dispatch]) simp
  then show ?thesis by (simp add: run_immediate.simps split: list.split immediate.split)
qed

lemma no_host_in_own: "filter (\<lambda>(n, l). \<exists>k. l = Host k) own_handlers = []"
  and own_in_own: "filter (\<lambda>(n, l). \<not> (\<exists>k. l = Host k)) own_handlers = own_handlers"
  and distinct_own: "distinct own_handlers"
  by (simp_all add: own_handlers_def FATAL_SIGNALS_def)

lemma keeps_world:
  assumes "w_wire w = w_wire (ps_world p)" and "w_uds_wire w = w_uds_wire (ps_world p)"
  shows "keeps 0 p (p\<lparr>ps_world := w\<rparr>)"
  using assms by (simp add: keeps_def state_views)

lemma keeps_installEmitter: "keeps (Suc 0) p (installEmitter em p)"
proof -
  have "panic_wf p \<longrightarrow> panic_wf (installEmitter em p)"
    by (auto simp: panic_wf_def installEmitter_def Let_def own_listeners_def own_in_own distinct_own
        simp del: set_filter)
  then show ?thesis
    by (simp add: keeps_def installEmitter_def Let_def budget_def sent_count_def armed_def host_listeners_def no_host_in_own)
qed

lemma createConnectedSocket_frame:
  "createConnectedSocket env host port w = (r, w') \<Longrightarrow> w_wire w' = w_wire w \<and> w_uds_wire w' = w_uds_wire w"
  by (auto simp: createConnectedSocket_def createSocket_def sock_connect_def sock_unref_def Let_def split: option.splits if_splits)

lemma randomBytes_uds_wire: "w_uds_wire (snd (randomBytes env n w)) = w_uds_wire w"
  by (simp add: randomBytes_def tick_def split: sum.split)

lemma new_UdsTransport_frame:
  "new_UdsTransport env path w = (r, w') \<Longrightarrow> w_wire w' = w_wire w \<and> w_uds_wire w' = w_uds_wire w"
  by (auto simp: new_UdsTransport_def uds_openSocket_def loadNodeUnixSocket_def require_uds_def new_DgramSocket_def
      split: uds_module.splits option.splits prod.splits sum.splits)

lemma keeps_step: "keeps (if is_install ev then 1 else 0) p (panic_step env ev p)"
proof -
  have inst: "keeps (Suc 0) p (installEmitter em (p\<lparr>ps_world := w\<rparr>))" and fail: "keeps (Suc 0) p (p\<lparr>ps_world := w\<rparr>)"
    if "w_wire w = w_wire (ps_world p) \<and> w_uds_wire w = w_uds_wire (ps_world p)" for em w
    using keeps_trans [OF keeps_world [of w p] keeps_installEmitter] keeps_world [of w p] that
    by (auto simp: keeps_def)
  show ?thesis
  proof (cases ev)
    case (InstallUdp host port)
    then show ?thesis
      using createConnectedSocket_frame [of env host port "ps_world p"]
      by (auto simp: installSignalHandlerUdp_def intro!: inst fail split: prod.split sum.split)
  next
    case (InstallUds path)
    then show ?thesis
      using new_UdsTransport_frame [of env path "ps_world p"]
      by (auto simp: installSignalHandlerUds_def intro!: inst fail split: prod.split sum.split)
  next
    case (InstallSecureUdp host port key)
    obtain r w where r: "randomBytes env SESSION_SALT_BYTES (ps_world p) = (r, w)" by (metis surj_pair)
    then have w: "w_wire w = w_wire (ps_world p) \<and> w_uds_wire w = w_uds_wire (ps_world p)"
      by (metis randomBytes_uds_wire randomBytes_calls(3) snd_conv)
    have "keeps (Suc 0) p p" by (simp add: keeps_def)
    then show ?thesis
      using createConnectedSocket_frame [of env host port w] w InstallSecureUdp
      by (auto simp: installSignalHandlerSecureUdp_def r intro!: inst fail split: prod.split sum.split)
  qed (auto simp: keeps_dispatch keeps_immediate panic_run_def keeps_trigger keeps_world sock_connected_def
      sock_connect_failed_def split: option.split)
qed

lemma keeps_steps: "keeps (length (filter is_install evs)) p (fold (panic_step env) evs p)"
proof (induction evs arbitrary: p)
  case (Cons ev evs)
  from keeps_trans [OF keeps_step [of ev p env] Cons] show ?case by (simp split: if_splits)
qed simp

subsection \<open>Firing\<close>

definition clock_ready :: "panic_state \<Rightarrow> bool" where
  "clock_ready p \<longleftrightarrow> ps_last p < TIMESTAMP_INVALID - 1 \<and> ps_hrtime p (ps_reads p) - ps_epoch p < TIMESTAMP_INVALID"

lemma nextTerminalTimestamp_available:
  assumes "clock_ready p"
  obtains ts where "buildCriticalFrameWithMeta (js_int 0) p =
        (Inr (Some \<lparr>cf_frame = terminal_wire (own_pid p) ts, cf_pid = own_pid p, cf_timestamp = ts\<rparr>),
         p\<lparr>ps_reads := Suc (ps_reads p), ps_last := ts\<rparr>)"
    and "ps_last p < ts" and "1 \<le> ts" and "ts < TIMESTAMP_INVALID"
proof (cases p rule: buildCriticalFrameWithMeta_cases)
  case exhausted
  let ?e = "ps_hrtime p (ps_reads p) - ps_epoch p"
  have "(1 :: int) < TIMESTAMP_INVALID" by (simp add: TIMESTAMP_INVALID_def)
  with assms have "claimTerminalTimestamp (ps_last p) (if ?e > 0 then ?e else 1) \<noteq> None"
    by (simp add: claimTerminalTimestamp_def Let_def clock_ready_def)
  then obtain c where "claimTerminalTimestamp (ps_last p) (if ?e > 0 then ?e else 1) = Some c" by blast
  then have n: "nextTerminalTimestamp p = (Some c, p\<lparr>ps_reads := Suc (ps_reads p), ps_last := c\<rparr>)"
    by (simp add: nextTerminalTimestamp_def Let_def)
  from exhausted have False
    unfolding buildCriticalFrameWithMeta_def n by (simp add: Let_def split: prod.splits sum.splits)
  then show thesis ..
next
  case (frame ts)
  from that [OF frame(1,3,4,5)] show thesis .
qed

lemma triggerActive_idem:
  assumes "ps_active q = ps_active (triggerActive env p)"
  shows "triggerActive env q = q"
  using assms by (auto simp: triggerActive_def split: option.splits prod.splits if_splits)

lemma distinct_handler_names: "distinct (map fst own_handlers)"
  by (simp add: own_handlers_def FATAL_SIGNALS_def)

lemma lookup_distinct:
  assumes "distinct (map fst xs)" and "(k, v) \<in> set xs"
  shows "filter (\<lambda>(n, l). n = k) xs = [(k, v)]" and "filter (\<lambda>(n, l). n = k) (remove1 (k, v) xs) = []"
proof -
  have "filter (\<lambda>(n, l). n = k) xs = [(k, v)] \<and> filter (\<lambda>(n, l). n = k) (remove1 (k, v) xs) = []"
    using assms by (induction xs) (force simp: filter_empty_conv)+
  then show "filter (\<lambda>(n, l). n = k) xs = [(k, v)]" and "filter (\<lambda>(n, l). n = k) (remove1 (k, v) xs) = []"
    by simp_all
qed

lemmas own_handler_lookup = lookup_distinct [OF distinct_handler_names]

definition reraise :: "string \<Rightarrow> raised \<Rightarrow> immediate" where
  "reraise name arg =
     (if name = ''uncaughtException'' then Rethrow arg
      else if name = ''unhandledRejection'' then Rethrow (to_error arg) else KillSelf name)"

lemma own_handlers_cases:
  assumes "(name, l) \<in> set own_handlers"
  obtains (uncaught) "name = ''uncaughtException''" "l = OnUncaughtException"
  | (rejection) "name = ''unhandledRejection''" "l = OnUnhandledRejection"
  | (signal) "name \<in> set FATAL_SIGNALS" "l = OnSig name"
  using assms unfolding own_handlers_def by auto

lemma signal_names: "sig \<in> set FATAL_SIGNALS \<Longrightarrow> sig \<noteq> ''uncaughtException'' \<and> sig \<noteq> ''unhandledRejection''"
  by (auto simp: FATAL_SIGNALS_def)

lemma own_handler_run:
  assumes "(name, l) \<in> set own_handlers"
  shows "run_listener env name arg l p = setImmediate (reraise name arg) (removeListener name l (triggerActive env p))"
  using assms
proof (cases rule: own_handlers_cases)
  case signal
  with signal_names [of name] show ?thesis by (simp add: reraise_def)
qed (simp_all add: reraise_def)

lemma dispatch_own:
  assumes "(name, l) \<in> set own_handlers" and "listeners_of name p = [l]" and "\<not> ps_exited p"
  shows "dispatch env name arg p = setImmediate (reraise name arg) (removeListener name l (triggerActive env p))"
  using assms own_handler_run [OF assms(1)] by (simp add: dispatch_def)

lemma dispatch_none:
  assumes "listeners_of name p = []" and "name \<noteq> ''unhandledRejection''" and "\<not> ps_exited p"
  shows "dispatch env name arg p = p\<lparr>ps_exited := True\<rparr>"
  using assms by (simp add: dispatch_def)

lemma run_immediate_rethrow:
  "ps_immediates p = Rethrow err # is \<Longrightarrow> \<not> ps_exited p \<Longrightarrow>
   run_immediate env p = dispatch env ''uncaughtException'' err (p\<lparr>ps_immediates := is\<rparr>)"
  and run_immediate_kill:
  "ps_immediates p = KillSelf sig # is \<Longrightarrow> \<not> ps_exited p \<Longrightarrow>
   run_immediate env p = dispatch env sig (RaisedValue sig) (p\<lparr>ps_immediates := is\<rparr>)"
  by (simp_all add: run_immediate.simps)

lemma immediate_reraise:
  assumes "ps_immediates p = [reraise name arg]" and "name \<noteq> ''unhandledRejection''" and "listeners_of name p = []"
    and "\<not> ps_exited p"
  shows "run_immediate env p = p\<lparr>ps_immediates := [], ps_exited := True\<rparr>"
proof -
  let ?p = "p\<lparr>ps_immediates := []\<rparr>"
  have "dispatch env name a ?p = ?p\<lparr>ps_exited := True\<rparr>" for a
    using assms by (intro dispatch_none) (simp_all add: listeners_of_def)
  with assms show ?thesis
    by (simp add: run_immediate_rethrow run_immediate_kill reraise_def split: if_splits)
qed

lemma fatal_run:
  fixes env arg
  assumes p: "ps_listeners p = own_handlers" "ps_immediates p = []" "\<not> ps_exited p"
    and own: "(name, l) \<in> set own_handlers"
  defines "q \<equiv> fold (panic_step env) [Raise name arg, NextImmediate, NextImmediate] p"
  shows "ps_exited q \<and> ps_world q = ps_world (triggerActive env p) \<and> ps_last q = ps_last (triggerActive env p)"
proof -
  let ?t = "triggerActive env p"
  let ?own = "remove1 (name, l) own_handlers"
  let ?d = "?t\<lparr>ps_listeners := ?own, ps_immediates := [reraise name arg]\<rparr>"
  have t: "ps_listeners ?t = own_handlers" "ps_immediates ?t = []" "\<not> ps_exited ?t"
    using triggerActive_frame [of env p] p by simp_all
  have d: "dispatch env name arg p = ?d"
    using dispatch_own [OF own _ p(3)] own_handler_lookup(1) [OF own] t p(1)
    by (simp add: listeners_of_def setImmediate_def removeListener_def)
  have none: "listeners_of name ?d = []" using own_handler_lookup(2) [OF own] by (simp add: listeners_of_def)
  have stop: "run_immediate env r = r" if "ps_exited r" for r using that by (simp add: run_immediate.simps)
  show ?thesis
  proof (cases "name = ''unhandledRejection''")
    case False
    with immediate_reraise [of ?d name arg env] none t(3) d show ?thesis by (simp add: q_def stop)
  next
    case True
    let ?u = "''uncaughtException''"
    let ?err = "to_error arg"
    let ?e = "?t\<lparr>ps_listeners := ?own, ps_immediates := []\<rparr>"
    let ?less = "remove1 (?u, OnUncaughtException) ?own"
    let ?f = "?t\<lparr>ps_listeners := ?less, ps_immediates := [reraise ?u ?err]\<rparr>"
    have l: "l = OnUnhandledRejection" using own True signal_names [of name] by (cases rule: own_handlers_cases) simp_all
    have u: "(?u, OnUncaughtException) \<in> set own_handlers" by (simp add: own_handlers_def)
    have idem: "triggerActive env ?e = ?e" by (rule triggerActive_idem) simp
    have lk: "listeners_of ?u ?e = [OnUncaughtException]"
      using True l by (simp add: listeners_of_def own_handlers_def FATAL_SIGNALS_def)
    have "run_immediate env ?d = dispatch env ?u ?err ?e"
    proof -
      have "reraise name arg = Rethrow ?err" unfolding True by (simp add: reraise_def)
      then have "ps_immediates ?d = [Rethrow ?err]" by simp
      from run_immediate_rethrow [OF this] t(3) show ?thesis by simp
    qed
    also have "\<dots> = ?f"
      using dispatch_own [OF u lk, of env ?err] t(3) idem by (simp add: setImmediate_def removeListener_def)
    finally have 2: "run_immediate env ?d = ?f" .
    have "listeners_of ?u ?f = []" using True l by (simp add: listeners_of_def own_handlers_def FATAL_SIGNALS_def)
    with immediate_reraise [of ?f ?u ?err env] t(3) d 2 show ?thesis by (simp add: q_def)
  qed
qed

subsection \<open>From installation to exit\<close>

definition fresh_process :: "panic_state \<Rightarrow> bool" where
  "fresh_process p \<longleftrightarrow> ps_listeners p = [] \<and> ps_immediates p = [] \<and> \<not> ps_exited p \<and> \<not> ps_handlersInstalled p"

lemma createConnectedSocket_ok:
  assumes "env_createSocket env (w_calls w) = None" and "valid_port port"
  obtains w' where "createConnectedSocket env host port w = (Inr (w_fresh w), w')" and "can_complete (w_fresh w) w'"
    and "w_pid w' = w_pid w" and "w_wire w' = w_wire w"
  using that assms
  by (simp add: createConnectedSocket_def createSocket_def sock_connect_def Let_def can_complete_def sock_unref_def)

lemma connected_ready:
  assumes "can_complete s w"
  shows "fst (sock_send s d (sock_connected s w)) = Inr ()"
  using assms by (simp add: sock_send_ok_iff can_complete_def)

lemma sock_send_ready:
  assumes "can_complete s w"
  shows "w_wire (snd (sock_send s d (sock_connected s w))) = w_wire w @ [(s, d)]"
  using connected_ready [OF assms, of d] by (simp add: sock_send_wire)

text \<open>The state in which an armed emitter with the socket \<open>s\<close> waits, with what firing it does.\<close>

lemma trigger_udp:
  fixes env
  assumes a: "ps_active p = Some \<lparr>tr_fired = False, tr_emitter = EmitUdp s\<rparr>" and r: "clock_ready p"
    and w: "ps_world p = sock_connected s w" "can_complete s w" and pid: "1 < own_pid p"
  defines "q \<equiv> triggerActive env p"
  shows "\<exists>d. w_wire (ps_world q) = w_wire w @ [(s, d)] \<and> ps_last p < ps_last q \<and>
    decode d = Inr \<lparr>fr_status = Critical, fr_pid = own_pid p, fr_timestamp = ps_last q,
                     fr_nonce = NONCE_TERMINAL, fr_payload = 0\<rparr>"
proof -
  from r obtain ts where b: "buildCriticalFrameWithMeta (js_int 0) p =
        (Inr (Some \<lparr>cf_frame = terminal_wire (own_pid p) ts, cf_pid = own_pid p, cf_timestamp = ts\<rparr>),
         p\<lparr>ps_reads := Suc (ps_reads p), ps_last := ts\<rparr>)"
    and ts: "ps_last p < ts" "1 \<le> ts" "ts < TIMESTAMP_INVALID"
    by (rule nextTerminalTimestamp_available)
  have "emit_udp s p = p\<lparr>ps_reads := Suc (ps_reads p), ps_last := ts,
      ps_world := snd (sock_send s (terminal_wire (own_pid p) ts) (sock_connected s w))\<rparr>"
    unfolding emit_udp_def buildCriticalFrame_eq b by (simp add: w(1))
  then have "ps_last q = ts" "w_wire (ps_world q) = w_wire w @ [(s, terminal_wire (own_pid p) ts)]"
    unfolding q_def by (simp_all add: triggerActive_def a sock_send_ready [OF w(2)])
  with ts decode_terminal_wire [OF pid ts(2,3)] show ?thesis by blast
qed

lemma trigger_secure:
  fixes env
  assumes a: "ps_active p = Some \<lparr>tr_fired = False, tr_emitter = EmitSecure s salt c key\<rparr>" and r: "clock_ready p"
    and w: "ps_world p = sock_connected s w" "can_complete s w" and pid: "1 < own_pid p"
    and len: "length salt = 16" "length key = 32"
  defines "q \<equiv> triggerActive env p"
  shows "\<exists>d m. w_wire (ps_world q) = w_wire w @ [(s, d)] \<and> ps_last p < ps_last q \<and> decodeShared key d = Inr m \<and>
    decode m = Inr \<lparr>fr_status = Critical, fr_pid = own_pid p, fr_timestamp = ps_last q,
                     fr_nonce = NONCE_TERMINAL, fr_payload = 0\<rparr>"
proof -
  from r obtain ts where b: "buildCriticalFrameWithMeta (js_int 0) p =
        (Inr (Some \<lparr>cf_frame = terminal_wire (own_pid p) ts, cf_pid = own_pid p, cf_timestamp = ts\<rparr>),
         p\<lparr>ps_reads := Suc (ps_reads p), ps_last := ts\<rparr>)"
    and ts: "ps_last p < ts" "1 \<le> ts" "ts < TIMESTAMP_INVALID"
    by (rule nextTerminalTimestamp_available)
  obtain iv where iv: "derivePanicIvPrefix salt (js_u32 (own_pid p)) ts (js_u32 c) = Inr iv" "length iv = 8"
    using len(1) by (simp add: derivePanicIvPrefix_eq)
  obtain d where d: "encodeShared key (subarray iv 0 IV_RANDOM_BYTES) (js_u32 c) (terminal_wire (own_pid p) ts) = Inr d"
    using len(2) iv(2) by (simp add: encodeShared_eq Let_def IV_RANDOM_BYTES_def subarray_all)
  have "emit_secure s salt c key p = (c + 1, p\<lparr>ps_reads := Suc (ps_reads p), ps_last := ts,
      ps_world := snd (sock_send s d (sock_connected s w))\<rparr>)"
    unfolding emit_secure_def b by (simp only: prod.case sum.case option.case CriticalFrameMeta.simps iv(1) d) (simp add: w(1))
  then have "ps_last q = ts" "w_wire (ps_world q) = w_wire w @ [(s, d)]"
    unfolding q_def by (simp_all add: triggerActive_def a sock_send_ready [OF w(2)])
  with ts decode_terminal_wire [OF pid ts(2,3)] decodeShared_encodeShared [OF d] show ?thesis by blast
qed

text \<open>What is left after the socket of a fresh installation has connected.\<close>

lemma installed_state:
  fixes em w w'
  assumes "fresh_process p" and "clock_ready p"
  defines "q \<equiv> installEmitter em (p\<lparr>ps_world := w\<rparr>)\<lparr>ps_world := w'\<rparr>"
  shows "ps_listeners q = own_handlers" and "ps_immediates q = []" and "\<not> ps_exited q" and "clock_ready q"
    and "ps_active q = Some \<lparr>tr_fired = False, tr_emitter = em\<rparr>" and "ps_last q = ps_last p" and "ps_world q = w'"
  using assms by (simp_all add: fresh_process_def clock_ready_def installEmitter_def Let_def)

text \<open>Listeners of the host application around the module's own.\<close>

definition host_entries :: "(string \<times> nat) list \<Rightarrow> (string \<times> listener) list" where
  "host_entries hs = map (\<lambda>(n, k). (n, Host k)) hs"

definition hosts_of :: "string \<Rightarrow> (string \<times> nat) list \<Rightarrow> nat list" where
  "hosts_of name hs = map snd (filter (\<lambda>(n, k). n = name) hs)"

lemma filter_host_entries:
  "map snd (filter (\<lambda>(n, l). n = name) (host_entries hs)) = map Host (hosts_of name hs)"
  by (induction hs) (auto simp: host_entries_def hosts_of_def)

lemma host_not_own: "(name, OnSig sig) \<notin> set (host_entries hs)"
  by (auto simp: host_entries_def)

lemma fold_hosts:
  "fold (run_listener env name arg) (map Host ks) p = p\<lparr>ps_hostlog := ps_hostlog p @ map (\<lambda>k. (k, name)) ks\<rparr>"
  by (induction ks arbitrary: p) simp_all

lemma dispatch_hosts:
  assumes "listeners_of name p = map Host ks" and "ks \<noteq> []" and "\<not> ps_exited p"
  shows "dispatch env name arg p = p\<lparr>ps_hostlog := ps_hostlog p @ map (\<lambda>k. (k, name)) ks\<rparr>"
  using assms by (simp only: dispatch_def fold_hosts if_True if_False map_is_Nil_conv simp_thms)

lemma signal_with_hosts:
  fixes env arg
  assumes p: "ps_listeners p = host_entries hs @ own_handlers" "ps_immediates p = []" "\<not> ps_exited p"
    and sig: "sig \<in> set FATAL_SIGNALS" and hosts: "hosts_of sig hs \<noteq> []"
  defines "q \<equiv> fold (panic_step env) [Raise sig arg, NextImmediate] p"
  shows "ps_hostlog q = ps_hostlog p @ map (\<lambda>k. (k, sig)) (hosts_of sig hs) @ map (\<lambda>k. (k, sig)) (hosts_of sig hs)"
    and "\<not> ps_exited q" and "ps_listeners q = host_entries hs @ remove1 (sig, OnSig sig) own_handlers"
    and "ps_handlersInstalled q = ps_handlersInstalled p"
    and "listeners_of sig q = map Host (hosts_of sig hs)"
proof -
  let ?own = "remove1 (sig, OnSig sig) own_handlers"
  let ?H = "map (\<lambda>k. (k, sig)) (hosts_of sig hs)"
  have own: "(sig, OnSig sig) \<in> set own_handlers" using sig by (simp add: own_handlers_def)
  define u where "u = triggerActive env (p\<lparr>ps_hostlog := ps_hostlog p @ ?H\<rparr>)"
  have u: "ps_listeners u = host_entries hs @ own_handlers" "ps_immediates u = []" "\<not> ps_exited u"
    "ps_hostlog u = ps_hostlog p @ ?H" "ps_handlersInstalled u = ps_handlersInstalled p"
    using triggerActive_frame [of env "p\<lparr>ps_hostlog := ps_hostlog p @ ?H\<rparr>"] p by (simp_all add: u_def)
  define r where "r = u\<lparr>ps_listeners := host_entries hs @ ?own, ps_immediates := [KillSelf sig]\<rparr>"
  have "listeners_of sig p = map Host (hosts_of sig hs) @ [OnSig sig]"
    using own_handler_lookup(1) [OF own] by (simp add: listeners_of_def p(1) filter_host_entries)
  then have "dispatch env sig arg p = run_listener env sig arg (OnSig sig) (p\<lparr>ps_hostlog := ps_hostlog p @ ?H\<rparr>)"
    using p(3) by (simp add: dispatch_def fold_hosts)
  also have "\<dots> = r"
    using u(1,2) by (simp add: r_def flip: u_def) (simp add: setImmediate_def removeListener_def remove1_append host_not_own)
  finally have 1: "dispatch env sig arg p = r" .
  have l: "listeners_of sig x = map Host (hosts_of sig hs)" if "ps_listeners x = host_entries hs @ ?own" for x
    using own_handler_lookup(2) [OF own] that by (simp add: listeners_of_def filter_host_entries)
  have "run_immediate env r = dispatch env sig (RaisedValue sig) (r\<lparr>ps_immediates := []\<rparr>)"
    by (rule run_immediate_kill) (simp_all add: r_def u(3))
  also have "\<dots> = r\<lparr>ps_immediates := [], ps_hostlog := ps_hostlog p @ ?H @ ?H\<rparr>"
    by (subst dispatch_hosts [OF _ hosts]) (use u(3,4) in \<open>simp_all add: r_def l\<close>)
  finally have q: "q = r\<lparr>ps_immediates := [], ps_hostlog := ps_hostlog p @ ?H @ ?H\<rparr>" by (simp add: q_def 1)
  show "ps_hostlog q = ps_hostlog p @ ?H @ ?H" "\<not> ps_exited q" "ps_listeners q = host_entries hs @ ?own"
    "ps_handlersInstalled q = ps_handlersInstalled p" "listeners_of sig q = map Host (hosts_of sig hs)"
    using u by (simp_all add: q r_def l)
qed

lemma emit_udp_unsent:
  assumes "\<And>d. snd (sock_send s d (ps_world p)) = ps_world p"
  shows "ps_world (emit_udp s p) = ps_world p"
proof (cases p rule: buildCriticalFrameWithMeta_cases)
  case exhausted
  show ?thesis unfolding emit_udp_def buildCriticalFrame_eq exhausted by simp
next
  case (frame ts)
  show ?thesis unfolding emit_udp_def buildCriticalFrame_eq frame(1) by (simp add: assms)
qed

text \<open>An installation when the handlers are already registered.\<close>

lemma reinstall_frame:
  fixes env host port
  assumes "ps_handlersInstalled p"
  defines "q \<equiv> snd (installSignalHandlerUdp env host port p)"
  shows "sent_count q = sent_count p" and "ps_listeners q = ps_listeners p" and "ps_exited q = ps_exited p"
    and "fst (installSignalHandlerUdp env host port p) = Installed \<Longrightarrow> armed q = 1"
proof -
  obtain r w where c: "createConnectedSocket env host port (ps_world p) = (r, w)" by (metis surj_pair)
  note f = createConnectedSocket_frame [OF c]
  show "sent_count q = sent_count p" "ps_listeners q = ps_listeners p" "ps_exited q = ps_exited p"
    "fst (installSignalHandlerUdp env host port p) = Installed \<Longrightarrow> armed q = 1"
    using assms(1) f by (cases r; simp add: q_def installSignalHandlerUdp_def c installEmitter_def sent_count_def armed_def)+
qed

subsection \<open>Properties\<close>

text \<open>C5: a terminal event is announced at most once per installed emitter. Whatever exceptions, rejections,
  signals, immediates, wrapped runs, installations and socket events follow, the number of datagrams
  grows by no more than the trigger armed at the start and the installers called. The listeners of
  the host application are never removed, and the module's own handlers are never registered twice.\<close>

theorem panic_one_shot:
  assumes "panic_wf p"
  shows "sent_count (fold (panic_step env) evs p) \<le> sent_count p + armed p + length (filter is_install evs) \<and>
    host_listeners (fold (panic_step env) evs p) = host_listeners p \<and> panic_wf (fold (panic_step env) evs p)"
  using keeps_steps [of evs p env] assms by (auto simp: keeps_def budget_def)

definition start_panic :: panic_state where
  "start_panic =
     \<lparr>ps_world = start_world, ps_hrtime = (\<lambda>n. 1000 + int n), ps_reads = 0, ps_active = None,
      ps_handlersInstalled = False, ps_epoch = 1000, ps_last = 0, ps_listeners = [], ps_immediates = [],
      ps_hostlog = [], ps_exited = False\<rparr>"

lemma start_panic_facts:
  "panic_wf start_panic" "fresh_process start_panic" "clock_ready start_panic" "1 < own_pid start_panic"
  "sent_count start_panic = 0" "armed start_panic = 0" "env_createSocket quiet_env n = None"
  "env_randomBytes quiet_env n = Inr (\<lambda>i. word_of_nat (n + i))" "valid_port (js_int 9000)"
  "w_fresh (ps_world start_panic) = 0"
  by (simp_all add: start_panic_def panic_wf_def own_listeners_def fresh_process_def clock_ready_def sent_count_def
      armed_def start_defs TIMESTAMP_INVALID_def to_uint32_int)

lemma sample_key: "length (replicate 32 7) = KEY_BYTES"
  by (simp add: KEY_BYTES_def)

lemma sample_events:
  "''SIGTERM'' \<in> fst ` set own_handlers" "''unhandledRejection'' \<in> fst ` set own_handlers"
  by (simp_all add: own_handlers_def FATAL_SIGNALS_def)

theorem panic_one_shot_witness:
  "sent_count (fold (panic_step quiet_env) [InstallUdp ''localhost'' (js_int 9000), SocketConnected 0] start_panic) \<le> 1"
  using panic_one_shot [OF start_panic_facts(1), of quiet_env "[InstallUdp ''localhost'' (js_int 9000), SocketConnected 0]"]
  unfolding start_panic_facts(5,6) by (simp only: filter.simps is_install.simps if_True if_False list.size) linarith







text \<open>A signal that the host application also handles reaches the host twice. All listeners run on the
  first delivery; the module then removes only its own handler and raises the signal again, which runs
  every listener of the host a second time, and the process stays alive.\<close>

theorem host_listener_runs_twice:
  fixes env arg
  assumes "ps_listeners p = host_entries hs @ own_handlers" and "ps_immediates p = []" and "\<not> ps_exited p"
    and "sig \<in> set FATAL_SIGNALS" and "hosts_of sig hs \<noteq> []"
  defines "q \<equiv> fold (panic_step env) [Raise sig arg, NextImmediate] p"
  shows "ps_hostlog q = ps_hostlog p @ map (\<lambda>k. (k, sig)) (hosts_of sig hs @ hosts_of sig hs) \<and> \<not> ps_exited q"
  using signal_with_hosts(1,2) [OF assms(1-5), of env arg] by (simp add: q_def)

theorem host_listener_runs_twice_witness:
  "ps_hostlog (fold (panic_step quiet_env) [Raise ''SIGTERM'' (RaisedValue ''SIGTERM''), NextImmediate]
     (start_panic\<lparr>ps_listeners := host_entries [(''SIGTERM'', 5)] @ own_handlers\<rparr>)) = [(5, ''SIGTERM''), (5, ''SIGTERM'')]"
  using host_listener_runs_twice [of "start_panic\<lparr>ps_listeners := host_entries [(''SIGTERM'', 5)] @ own_handlers\<rparr>"
      "[(''SIGTERM'', 5)]" "''SIGTERM''" quiet_env "RaisedValue ''SIGTERM''"]
  by (simp add: start_panic_def FATAL_SIGNALS_def hosts_of_def)

text \<open>An emitter installed after a handled signal does not hear that signal. The handler removed itself and
  the process-wide flag keeps the installer from registering it again, so the next occurrence sends
  nothing although the installation succeeded and its trigger is armed.\<close>

theorem reinstalled_emitter_is_deaf:
  fixes env arg arg' host port s
  assumes p: "ps_listeners p = host_entries hs @ own_handlers" "ps_immediates p = []" "\<not> ps_exited p"
    and sig: "sig \<in> set FATAL_SIGNALS" "hosts_of sig hs \<noteq> []" and inst: "ps_handlersInstalled p"
  defines "q \<equiv> fold (panic_step env) [Raise sig arg, NextImmediate] p"
  defines "r \<equiv> fold (panic_step env) [InstallUdp host port, SocketConnected s, Raise sig arg'] q"
  shows "sent_count r = sent_count q \<and>
    (fst (installSignalHandlerUdp env host port q) = Installed \<longrightarrow> armed r = 1)"
proof -
  note h = signal_with_hosts [OF p sig, of env arg, folded q_def]
  define v where "v = panic_step env (SocketConnected s) (snd (installSignalHandlerUdp env host port q))"
  have inst': "ps_handlersInstalled q" using h(4) inst by simp
  note f = reinstall_frame [OF inst', of env host port]
  have v: "ps_exited v = ps_exited q" "listeners_of sig v = listeners_of sig q" "sent_count v = sent_count q"
    "armed v = armed (snd (installSignalHandlerUdp env host port q))"
    using f(1-3) by (simp_all add: v_def listeners_of_def sent_count_def armed_def sock_connected_def)
  have "r = dispatch env sig arg' v" unfolding r_def v_def by (simp only: fold.simps o_apply id_apply panic_step.simps(1,4))
  also have "\<dots> = v\<lparr>ps_hostlog := ps_hostlog v @ map (\<lambda>k. (k, sig)) (hosts_of sig hs)\<rparr>"
    by (rule dispatch_hosts) (use v h(2,5) sig(2) in simp_all)
  finally show ?thesis using v(3,4) f(4) by (simp add: sent_count_def armed_def)
qed

theorem reinstalled_emitter_is_deaf_witness:
  "let p = start_panic\<lparr>ps_listeners := host_entries [(''SIGHUP'', 5)] @ own_handlers, ps_handlersInstalled := True\<rparr>;
       q = fold (panic_step quiet_env) [Raise ''SIGHUP'' (RaisedValue ''SIGHUP''), NextImmediate] p
   in sent_count (fold (panic_step quiet_env)
        [InstallUdp ''localhost'' (js_int 9000), SocketConnected 0, Raise ''SIGHUP'' (RaisedValue ''SIGHUP'')] q) = sent_count q"
  unfolding Let_def
  by (rule reinstalled_emitter_is_deaf [THEN conjunct1, of _ "[(''SIGHUP'', 5)]"])
     (simp_all add: start_panic_def FATAL_SIGNALS_def hosts_of_def)

text \<open>C22: an installer that fails leaves the process as it was. Whichever of the three fails, no trigger is
  published, no listener is registered and nothing is sent; only the runtime behind it may have
  changed. When the entropy read of the sealed installer fails, the error says so and no socket is
  created; a key of the wrong length is refused before anything else is done.\<close>

theorem install_fails_closed:
  assumes "(r, q) \<in> {installSignalHandlerUdp env host port p, installSignalHandlerUds env path p,
                      installSignalHandlerSecureUdp env host port key p}" and "r \<noteq> Installed"
  shows "q = p\<lparr>ps_world := ps_world q\<rparr> \<and> sent_count q = sent_count p \<and>
    (length key \<noteq> KEY_BYTES \<longrightarrow> snd (installSignalHandlerSecureUdp env host port key p) = p) \<and>
    (\<forall>e. length key = KEY_BYTES \<and> env_randomBytes env (w_calls (ps_world p)) = Inl e \<longrightarrow>
       installSignalHandlerSecureUdp env host port key p =
         (InstallFailed (PanicInstallError ''EntropyUnavailable'' (e_message e)), p\<lparr>ps_world := tick (ps_world p)\<rparr>))"
proof -
  have fail: "p\<lparr>ps_world := w\<rparr> = p\<lparr>ps_world := ps_world (p\<lparr>ps_world := w\<rparr>)\<rparr> \<and> sent_count (p\<lparr>ps_world := w\<rparr>) = sent_count p"
    if "w_wire w = w_wire (ps_world p) \<and> w_uds_wire w = w_uds_wire (ps_world p)" for w
    using that by (simp add: sent_count_def)
  have "q = p\<lparr>ps_world := ps_world q\<rparr> \<and> sent_count q = sent_count p"
  proof -
    from assms(1) consider "(r, q) = installSignalHandlerUdp env host port p" | "(r, q) = installSignalHandlerUds env path p"
      | "(r, q) = installSignalHandlerSecureUdp env host port key p" by blast
    then show ?thesis
    proof cases
      case 1
      obtain x w where c: "createConnectedSocket env host port (ps_world p) = (x, w)" by (metis surj_pair)
      from 1 assms(2) fail [OF createConnectedSocket_frame [OF c]] show ?thesis
        by (cases x) (simp_all add: installSignalHandlerUdp_def c)
    next
      case 2
      obtain x w where c: "new_UdsTransport env path (ps_world p) = (x, w)" by (metis surj_pair)
      from 2 assms(2) fail [OF new_UdsTransport_frame [OF c]] show ?thesis
        by (cases x) (simp_all add: installSignalHandlerUds_def c)
    next
      case 3
      obtain x w where c: "randomBytes env SESSION_SALT_BYTES (ps_world p) = (x, w)" by (metis surj_pair)
      then have f: "w_wire w = w_wire (ps_world p) \<and> w_uds_wire w = w_uds_wire (ps_world p)"
        by (metis randomBytes_uds_wire randomBytes_calls(3) snd_conv)
      obtain y v where d: "createConnectedSocket env host port w = (y, v)" by (metis surj_pair)
      from 3 assms(2) fail [OF f] fail [of v] f createConnectedSocket_frame [OF d] show ?thesis
        by (cases x; cases y) (simp_all add: installSignalHandlerSecureUdp_def c d split: if_splits)
    qed
  qed
  then show ?thesis by (simp add: installSignalHandlerSecureUdp_def randomBytes_def)
qed

theorem install_fails_closed_witness:
  "let e = new_Error ''no entropy'';
       env = quiet_env\<lparr>env_randomBytes := (\<lambda>_. Inl e)\<rparr>
   in installSignalHandlerSecureUdp env ''localhost'' (js_int 9000) (replicate 32 7) start_panic =
        (InstallFailed (PanicInstallError ''EntropyUnavailable'' ''no entropy''), start_panic\<lparr>ps_world := tick start_world\<rparr>)"
proof -
  let ?e = "new_Error ''no entropy''"
  let ?env = "quiet_env\<lparr>env_randomBytes := (\<lambda>_. Inl ?e)\<rparr>"
  let ?i = "installSignalHandlerSecureUdp ?env ''localhost'' (js_int 9000) (replicate 32 7) start_panic"
  have "fst ?i \<noteq> Installed"
    by (simp add: installSignalHandlerSecureUdp_def KEY_BYTES_def randomBytes_def)
  from install_fails_closed [of "fst ?i" "snd ?i" ?env "''localhost''" "js_int 9000" start_panic "[]" "replicate 32 7", OF _ this]
  show ?thesis by (simp add: KEY_BYTES_def start_panic_def new_Error_def)
qed

text \<open>The timestamps that \<open>n\<close> successive claims yield.\<close>

fun terminal_claims :: "nat \<Rightarrow> panic_state \<Rightarrow> int list" where
  "terminal_claims 0 p = []"
| "terminal_claims (Suc n) p =
     (case nextTerminalTimestamp p of
        (Some ts, p') \<Rightarrow> ts # terminal_claims n p'
      | (None, p') \<Rightarrow> terminal_claims n p')"

text \<open>C23: terminal timestamps never repeat. Successive claims within a process are strictly increasing, above the
  last one claimed before and below the value that decoders reject, whatever the clock returns; claims
  made when the range is used up yield nothing.\<close>

theorem terminal_timestamps_strictly_increase:
  "sorted_wrt (<) (terminal_claims n p) \<and>
   set (terminal_claims n p) \<subseteq> {ts. ps_last p < ts \<and> 0 < ts \<and> ts < TIMESTAMP_INVALID}"
proof (induction n arbitrary: p)
  case (Suc n)
  show ?case
  proof (cases p rule: nextTerminalTimestamp_cases)
    case none
    with Suc [of "p\<lparr>ps_reads := Suc (ps_reads p)\<rparr>"] show ?thesis by simp
  next
    case (some ts)
    with Suc [of "p\<lparr>ps_reads := Suc (ps_reads p), ps_last := ts\<rparr>"] show ?thesis by force
  qed
qed simp

end
