(* ===== verification/Examples.thy ===== *)
theory Examples
  imports Agent Panic
begin

section \<open>The example programs (\<open>clients/node/examples\<close>)\<close>

text \<open>
  The five programs as the process runs them: the top-level code, which reads the arguments and
  connects, the interval callback that beats, and the shutdown handler. The loop keeps the agent,
  whether its interval is running, what was written to the console and the exit code.
\<close>

datatype console = ConsoleLog string | ConsoleWarn string | ConsoleError string

record 's example_loop =
  el_agent :: Varta
  el_module :: client_module
  el_transport :: 's
  el_interval :: bool
  el_console :: "console list"
  el_exit :: "int option"

subsection \<open>Arguments\<close>

fun number_string :: "jsnum \<Rightarrow> string" where
  "number_string (JNum x) = int_string \<lfloor>x\<rfloor>"
| "number_string JNaN = ''NaN''"
| "number_string JPosInf = ''Infinity''"
| "number_string JNegInf = ''-Infinity''"

definition argv_or :: "string list \<Rightarrow> nat \<Rightarrow> string \<Rightarrow> string" where
  "argv_or argv i d = (if i < length argv then argv ! i else d)"

subsection \<open>The beat loops\<close>

definition start_loop :: "Varta \<Rightarrow> client_module \<Rightarrow> 's \<Rightarrow> console list \<Rightarrow> 's example_loop" where
  "start_loop v m s out =
     \<lparr>el_agent = v, el_module = m, el_transport = s, el_interval = True, el_console = out, el_exit = None\<rparr>"

definition report :: "BeatOutcome \<Rightarrow> console list" where
  "report outcome =
     (case outcome of
        Dropped reason \<Rightarrow> [ConsoleWarn (''[varta] dropped: '' @ drop_reason_string reason)]
      | Failed error \<Rightarrow> [ConsoleError (''[varta] failed: '' @ be_kind error)]
      | Sent \<Rightarrow> [])"

text \<open>An exception out of the callback would end the process with code 1.\<close>

definition report_tick :: "node_os \<Rightarrow> 's BeatTransport \<Rightarrow> int \<Rightarrow> 's example_loop \<Rightarrow> 's example_loop" where
  "report_tick os bt pid l =
     (case beat os bt pid (StatusEnum Ok) (js_int 0) (el_agent l, el_module l, el_transport l) of
        (r, v, m, s) \<Rightarrow>
          (case r of
             Inl e \<Rightarrow> l\<lparr>el_agent := v, el_module := m, el_transport := s, el_interval := False, el_exit := Some 1\<rparr>
           | Inr outcome \<Rightarrow>
               l\<lparr>el_agent := v, el_module := m, el_transport := s, el_console := el_console l @ report outcome\<rparr>))"

definition shutdown :: "'s BeatTransport \<Rightarrow> ('s, 'a) example_loop_scheme \<Rightarrow> ('s, 'a) example_loop_scheme" where
  "shutdown bt l =
     (case close bt (el_agent l, el_transport l) of
        (r, v, s) \<Rightarrow>
          l\<lparr>el_agent := v, el_transport := s, el_interval := False, el_exit := Some (if isl r then 1 else 0)\<rparr>)"

datatype 's started = Started 's | Threw js_error | Exited int "console list"

definition basic_udp_main ::
  "node_env \<Rightarrow> string list \<Rightarrow> client_module \<Rightarrow> node_world \<Rightarrow> (UdpTransport \<times> node_world) example_loop started" where
  "basic_udp_main env argv m w =
     (let host = argv_or argv 2 ''127.0.0.1'';
          port = parseInt (argv_or argv 3 ''5876'')
      in case connectUdp env host port m w of
           (Inl e, m1, w1) \<Rightarrow> Threw e
         | (Inr (v, t), m1, w1) \<Rightarrow>
             Started (start_loop v m1 (t, w1)
               [ConsoleLog (''[varta] beating Ok every 500ms to udp://'' @ host @ '':'' @ number_string port)]))"

definition basic_uds_main ::
  "node_env \<Rightarrow> string list \<Rightarrow> client_module \<Rightarrow> node_world \<Rightarrow> (UdsTransport \<times> node_world) example_loop started" where
  "basic_uds_main env argv m w =
     (let path = argv_or argv 2 ''/var/run/varta.sock''
      in case connectUds env path m w of
           (Inl e, m1, w1) \<Rightarrow> Threw e
         | (Inr (v, t), m1, w1) \<Rightarrow>
             Started (start_loop v m1 (t, w1) [ConsoleLog (''[varta] beating Ok every 500ms to uds://'' @ path)]))"

text \<open>The contents of the key file are what \<open>readFileSync\<close> returns or throws. A missing argument and
  an empty one are refused alike.\<close>

definition secure_udp_main ::
  "node_env \<Rightarrow> (string \<Rightarrow> bytes throws) \<Rightarrow> string list \<Rightarrow> client_module \<Rightarrow> node_world \<Rightarrow>
     (SecureUdpTransport \<times> node_world) example_loop started" where
  "secure_udp_main env readFileSync argv m w =
     (let host = argv_or argv 2 []; portStr = argv_or argv 3 []; keyPath = argv_or argv 4 []
      in if host = [] \<or> portStr = [] \<or> keyPath = []
         then Exited 64 [ConsoleError ''usage: secure_udp.ts <host> <port> <key-file>'']
         else let port = parseInt portStr
           in case readFileSync keyPath of
                Inl e \<Rightarrow> Threw e
              | Inr key \<Rightarrow>
                  if length key \<noteq> 32
                  then Exited 64 [ConsoleError (''key must be exactly 32 bytes; got '' @ int_string (int (length key)))]
                  else case connectSecureUdp env host port key m w of
                         (Inl e, m1, w1) \<Rightarrow> Threw e
                       | (Inr (v, t), m1, w1) \<Rightarrow>
                           Started (start_loop v m1 (t, w1)
                             [ConsoleLog (''[varta] secure beat loop (ChaCha20-Poly1305) to udp://'' @ host @ '':'' @ number_string port)]))"

text \<open>What can happen to a running example: its interval fires, a shutdown signal arrives, or the runtime
  calls back into the transport. After the process has ended nothing runs.\<close>

datatype 'e loop_event = IntervalFires | ShutdownSignal | Callback 'e

fun loop_step ::
  "(('s, 'a) example_loop_scheme \<Rightarrow> ('s, 'a) example_loop_scheme) \<Rightarrow> 's BeatTransport \<Rightarrow> ('e \<Rightarrow> 's \<Rightarrow> 's) \<Rightarrow>
     'e loop_event \<Rightarrow> ('s, 'a) example_loop_scheme \<Rightarrow> ('s, 'a) example_loop_scheme" where
  "loop_step fire bt call IntervalFires l = (if el_interval l \<and> el_exit l = None then fire l else l)"
| "loop_step fire bt call ShutdownSignal l = (if el_exit l = None then shutdown bt l else l)"
| "loop_step fire bt call (Callback e) l =
     (if el_exit l = None then l\<lparr>el_transport := call e (el_transport l)\<rparr> else l)"

definition basic_udp_step :: "node_os \<Rightarrow> node_env \<Rightarrow> int \<Rightarrow> net_event loop_event \<Rightarrow>
    (UdpTransport \<times> node_world) example_loop \<Rightarrow> (UdpTransport \<times> node_world) example_loop" where
  "basic_udp_step os env pid = loop_step (report_tick os (udp_transport env) pid) (udp_transport env) net_callback"

definition basic_uds_step :: "node_os \<Rightarrow> node_env \<Rightarrow> int \<Rightarrow> uds_runtime loop_event \<Rightarrow>
    (UdsTransport \<times> node_world) example_loop \<Rightarrow> (UdsTransport \<times> node_world) example_loop" where
  "basic_uds_step os env pid = loop_step (report_tick os (uds_transport env) pid) (uds_transport env) uds_event"

definition secure_udp_step :: "node_os \<Rightarrow> node_env \<Rightarrow> int \<Rightarrow> net_event loop_event \<Rightarrow>
    (SecureUdpTransport \<times> node_world) example_loop \<Rightarrow> (SecureUdpTransport \<times> node_world) example_loop" where
  "secure_udp_step os env pid = loop_step (report_tick os (secure_transport env) pid) (secure_transport env) net_callback"

subsection \<open>\<open>with_payload.ts\<close>\<close>

text \<open>The operands of the shifts and masks stay below \<open>2 ^ 24\<close>, where signed and unsigned 32-bit values
  agree; \<open>>>> 0\<close> reads the result as unsigned.\<close>

definition packPayload :: "jsnum \<Rightarrow> jsnum \<Rightarrow> u32" where
  "packPayload queueDepth lastErrorCode =
     or (and (to_uint32 queueDepth) 0xffff) (push_bit 16 (and (to_uint32 lastErrorCode) 0xff))"

record 's payload_loop = "'s example_loop" +
  pl_depth :: int
  pl_lastError :: int

definition with_payload_tick :: "node_os \<Rightarrow> 's BeatTransport \<Rightarrow> int \<Rightarrow> 's payload_loop \<Rightarrow> 's payload_loop" where
  "with_payload_tick os bt pid l =
     (let depth = and (pl_depth l + 1) 0xffff;
          lastError = (if depth mod 4 = 0 then 1 else 0);
          status = (if lastError \<noteq> 0 then Degraded else Ok)
      in case beat os bt pid (StatusEnum status) (js_u32 (packPayload (js_int depth) (js_int lastError)))
                (el_agent l, el_module l, el_transport l) of
           (r, v, m, s) \<Rightarrow>
             l\<lparr>el_agent := v, el_module := m, el_transport := s, pl_depth := depth, pl_lastError := lastError,
               el_interval := \<not> isl r, el_exit := (if isl r then Some 1 else None)\<rparr>)"

definition with_payload_main ::
  "node_env \<Rightarrow> string list \<Rightarrow> client_module \<Rightarrow> node_world \<Rightarrow> (UdpTransport \<times> node_world) payload_loop started" where
  "with_payload_main env argv m w =
     (let host = argv_or argv 2 ''127.0.0.1'';
          port = parseInt (argv_or argv 3 ''5876'')
      in case connectUdp env host port m w of
           (Inl e, m1, w1) \<Rightarrow> Threw e
         | (Inr (v, t), m1, w1) \<Rightarrow>
             Started \<lparr>el_agent = v, el_module = m1, el_transport = (t, w1), el_interval = True, el_console = [],
                      el_exit = None, pl_depth = 0, pl_lastError = 0\<rparr>)"

definition with_payload_step :: "node_os \<Rightarrow> node_env \<Rightarrow> int \<Rightarrow> net_event loop_event \<Rightarrow>
    (UdpTransport \<times> node_world) payload_loop \<Rightarrow> (UdpTransport \<times> node_world) payload_loop" where
  "with_payload_step os env pid = loop_step (with_payload_tick os (udp_transport env) pid) (udp_transport env) net_callback"

subsection \<open>\<open>with_panic_handler.ts\<close>\<close>

text \<open>The agent and the panic emitter share the process and its runtime. An exception of the top-level
  code after the handlers are registered is an uncaught exception like any other.\<close>

record panic_demo =
  pd_panic :: panic_state
  pd_agent :: Varta
  pd_module :: client_module
  pd_transport :: UdpTransport
  pd_timer :: bool

datatype demo_start = DemoStarted panic_demo | DemoThrew panic_state

definition with_panic_handler_main ::
  "node_os \<Rightarrow> node_env \<Rightarrow> string list \<Rightarrow> client_module \<Rightarrow> panic_state \<Rightarrow> demo_start" where
  "with_panic_handler_main os env argv m p =
     (let host = argv_or argv 2 ''127.0.0.1'';
          port = parseInt (argv_or argv 3 ''5876'')
      in case installSignalHandlerUdp env host port p of
           (Installed, p1) \<Rightarrow>
             (case connectUdp env host port m (ps_world p1) of
                (Inl e, m1, w1) \<Rightarrow> DemoThrew (dispatch env ''uncaughtException'' (RaisedError e) (p1\<lparr>ps_world := w1\<rparr>))
              | (Inr (v, t), m1, w1) \<Rightarrow>
                  (case beat os (udp_transport env) (w_pid w1) (StatusEnum Ok) (js_int 0) (v, m1, t, w1) of
                     (r, v1, m2, t1, w2) \<Rightarrow>
                       DemoStarted \<lparr>pd_panic = p1\<lparr>ps_world := w2\<rparr>, pd_agent = v1, pd_module = m2, pd_transport = t1,
                                    pd_timer = True\<rparr>))
         | (InstallFailed e, p1) \<Rightarrow>
             DemoThrew (dispatch env ''uncaughtException'' (RaisedError (js_error.truncate e)) p1)
         | (KeyRejected e, p1) \<Rightarrow> DemoThrew (dispatch env ''uncaughtException'' (RaisedError e) p1))"

datatype demo_event = DemoPanic panic_event | DemoAgent net_event | DemoTimer

fun demo_step :: "node_env \<Rightarrow> demo_event \<Rightarrow> panic_demo \<Rightarrow> panic_demo" where
  "demo_step env (DemoPanic ev) d = d\<lparr>pd_panic := panic_step env ev (pd_panic d)\<rparr>"
| "demo_step env (DemoAgent ev) d =
     (case net_callback ev (pd_transport d, ps_world (pd_panic d)) of
        (t, w) \<Rightarrow> d\<lparr>pd_transport := t, pd_panic := (pd_panic d)\<lparr>ps_world := w\<rparr>\<rparr>)"
| "demo_step env DemoTimer d =
     (if pd_timer d
      then d\<lparr>pd_timer := False,
             pd_panic := dispatch env ''uncaughtException''
               (RaisedError (new_Error ''intentional panic to demonstrate the hook'')) (pd_panic d)\<rparr>
      else d)"

subsection \<open>Packing\<close>

text \<open>The two fields of a payload, as a dashboard would read them.\<close>

definition queue_depth :: "u32 \<Rightarrow> int" where
  "queue_depth p = uint (and p 0xffff)"

definition error_code :: "u32 \<Rightarrow> int" where
  "error_code p = uint (drop_bit 16 p)"

lemma mask_16: "(0xffff :: u32) = mask 16" and mask_8: "(0xff :: u32) = mask 8"
  by (simp_all add: mask_eq_exp_minus_1)

lemma low_packed: "and (or (and a (mask 16)) (push_bit 16 b)) (mask 16) = and a (mask 16 :: u32)"
  by (rule bit_eqI) (auto simp: bit_simps)

lemma high_packed: "drop_bit 16 (or (and a (mask 16)) (push_bit 16 (and b (mask 8)))) = and b (mask 8 :: u32)"
  by (rule bit_eqI) (auto simp: bit_simps)

lemma packPayload_fields:
  "queue_depth (packPayload q e) = uint (take_bit 16 (to_uint32 q))"
  "error_code (packPayload q e) = uint (take_bit 8 (to_uint32 e))"
  unfolding queue_depth_def error_code_def packPayload_def mask_16 mask_8 low_packed high_packed
  by (simp_all add: take_bit_eq_mask)

lemma packPayload_small:
  assumes "0 \<le> q" "q < 2 ^ 16" "0 \<le> e" "e < 2 ^ 8"
  shows "queue_depth (packPayload (js_int q) (js_int e)) = q" and "error_code (packPayload (js_int q) (js_int e)) = e"
  using assms
  by (simp_all only: packPayload_fields to_uint32_int unsigned_take_bit_eq uint_word_of_int) (simp_all add: take_bit_eq_mod)

text \<open>The fields of a frame belong together as the example computes them.\<close>

definition payload_consistent :: "Frame \<Rightarrow> bool" where
  "payload_consistent f \<longleftrightarrow>
     error_code (fr_payload f) = (if queue_depth (fr_payload f) mod 4 = 0 then 1 else 0) \<and>
     fr_status f = (if error_code (fr_payload f) \<noteq> 0 then Degraded else Ok)"

abbreviation agent_of :: "('s, 'a) example_loop_scheme \<Rightarrow> Varta \<times> client_module \<times> 's" where
  "agent_of l \<equiv> (el_agent l, el_module l, el_transport l)"

lemma coerceBeatStatus_enum: "coerceBeatStatus (StatusEnum st) = Some st"
  by (cases st) simp_all

lemma beat_frame:
  assumes "agent_step os bt call pid (Beat status payload) x = (fs, y)" and "f \<in> set fs"
  shows "fr_status f = the (coerceBeatStatus status)" and "fr_payload f = to_uint32 payload"
  using assms by (cases x; auto split: prod.splits sum.splits BeatOutcome.splits)+

lemma payload_beat:
  assumes "agent_step os bt call pid (Beat (StatusEnum st) (js_u32 (packPayload (js_int d) (js_int c)))) x = (fs, y)"
    and "0 \<le> d" "d < 2 ^ 16" and "c = (if d mod 4 = 0 then 1 else 0)" and "st = (if c \<noteq> 0 then Degraded else Ok)"
  shows "\<forall>f \<in> set fs. payload_consistent f"
proof
  fix f assume "f \<in> set fs"
  note b = beat_frame [OF assms(1) this, unfolded coerceBeatStatus_enum option.sel]
  note b
  moreover have "to_uint32 (js_u32 (packPayload (js_int d) (js_int c))) = packPayload (js_int d) (js_int c)"
    by (rule to_uint32_uint)
  moreover have "0 \<le> c" "c < 2 ^ 8" using assms(4) by auto
  ultimately show "payload_consistent f"
    using assms(2-5) packPayload_small [of d c] by (simp only: payload_consistent_def)
qed

lemma beat_step:
  assumes "beat os bt pid status payload x = (r, y)"
  shows "snd (agent_step os bt call pid (Beat status payload) x) = y"
  using assms by (cases x) (auto split: prod.splits sum.splits BeatOutcome.splits)

text \<open>Every step of the payload example is a step of the agent.\<close>

lemma with_payload_step_agent:
  fixes os bt call pid
  defines "step \<equiv> loop_step (with_payload_tick os bt pid) bt call"
  shows "\<exists>as fs. agent_run os bt call pid as (agent_of l) = (fs, agent_of (step ev l)) \<and>
    (\<forall>e. Runtime e \<in> set as \<longrightarrow> ev = Callback e) \<and> (\<forall>f \<in> set fs. payload_consistent f)"
proof -
  have idle: ?thesis if "agent_of (step ev l) = agent_of l" using that by (intro exI [of _ "[]"]) simp
  have one: ?thesis if "agent_step os bt call pid a (agent_of l) = (fs, agent_of (step ev l))"
    and "\<forall>e. a = Runtime e \<longrightarrow> ev = Callback e" and "\<forall>f \<in> set fs. payload_consistent f" for a fs
    using that by (intro exI [of _ "[a]"] exI [of _ fs]) (auto simp del: agent_step.simps)
  show ?thesis
  proof (cases ev)
    case IntervalFires
    show ?thesis
    proof (cases "el_interval l \<and> el_exit l = None")
      case False
      with IntervalFires show ?thesis by (intro idle) (auto simp: step_def)
    next
      case True
      define d where "d = and (pl_depth l + 1) 0xffff"
      define c :: int where "c = (if d mod 4 = 0 then 1 else 0)"
      define st where "st = (if c \<noteq> 0 then Degraded else Ok)"
      let ?a = "Beat (StatusEnum st) (js_u32 (packPayload (js_int d) (js_int c)))"
      obtain r v m s where b: "beat os bt pid (StatusEnum st) (js_u32 (packPayload (js_int d) (js_int c))) (agent_of l) = (r, v, m, s)"
        by (metis prod_cases4)
      obtain fs y where a: "agent_step os bt call pid ?a (agent_of l) = (fs, y)" by (metis surj_pair)
      have y: "y = (v, m, s)" using beat_step [OF b, of call] a by (simp only: snd_conv)
      have "step ev l = with_payload_tick os bt pid l" using True IntervalFires by (simp add: step_def)
      then have "agent_of (step ev l) = y"
        unfolding y by (simp only: with_payload_tick_def Let_def d_def [symmetric] c_def [symmetric] st_def [symmetric] b prod.case)
          simp
      moreover have "d = take_bit 16 (pl_depth l + 1)" by (simp add: d_def take_bit_eq_mask mask_eq_exp_minus_1)
      then have "0 \<le> d" "d < 2 ^ 16" by (simp_all only: take_bit_nonnegative take_bit_int_less_exp)
      ultimately show ?thesis
        using a payload_beat [OF a _ _ c_def st_def] by (intro one [of ?a fs]) simp_all
    qed
  next
    case ShutdownSignal
    obtain r v s where "close bt (el_agent l, el_transport l) = (r, v, s)" by (metis prod_cases3)
    then show ?thesis
    proof (cases "el_exit l = None")
      case True
      with \<open>close bt (el_agent l, el_transport l) = (r, v, s)\<close> ShutdownSignal show ?thesis
        by (intro one [of Close "[]"]) (simp_all add: step_def shutdown_def)
    qed (intro idle, use ShutdownSignal in \<open>auto simp: step_def\<close>)
  next
    case (Callback e)
    show ?thesis
    proof (cases "el_exit l = None")
      case True
      with Callback show ?thesis by (intro one [of "Runtime e" "[]"]) (simp_all add: step_def)
    qed (intro idle, use Callback in \<open>auto simp: step_def\<close>)
  qed
qed

lemma with_payload_run_agent:
  fixes os bt call pid
  defines "step \<equiv> loop_step (with_payload_tick os bt pid) bt call"
  shows "\<exists>as fs. agent_run os bt call pid as (agent_of l) = (fs, agent_of (fold step evs l)) \<and>
    (\<forall>e. Runtime e \<in> set as \<longrightarrow> Callback e \<in> set evs) \<and> (\<forall>f \<in> set fs. payload_consistent f)"
proof (induction evs arbitrary: l)
  case Nil
  then show ?case by (intro exI [of _ "[]"]) simp
next
  case (Cons ev evs)
  obtain as fs where 1: "agent_run os bt call pid as (agent_of l) = (fs, agent_of (step ev l))"
    "\<forall>e. Runtime e \<in> set as \<longrightarrow> ev = Callback e" "\<forall>f \<in> set fs. payload_consistent f"
    unfolding step_def using with_payload_step_agent [of os bt call pid l ev] by (elim exE conjE)
  obtain bs gs where 2: "agent_run os bt call pid bs (agent_of (step ev l)) = (gs, agent_of (fold step evs (step ev l)))"
    "\<forall>e. Runtime e \<in> set bs \<longrightarrow> Callback e \<in> set evs" "\<forall>f \<in> set gs. payload_consistent f"
    using Cons [of "step ev l"] by blast
  from 1 2 show ?case
    by (intro exI [of _ "as @ bs"] exI [of _ "fs @ gs"]) (auto simp: agent_run_append)
qed

text \<open>A process that has ended stays as it is; a shutdown ends it and stops its beats.\<close>

lemma ended_loop_is_silent: "el_exit l \<noteq> None \<Longrightarrow> fold (loop_step fire bt call) evs l = l"
proof (induction evs)
  case (Cons ev evs)
  then show ?case by (cases ev) auto
qed simp

lemma shutdown_ends: "el_exit (shutdown bt l) \<noteq> None \<and> \<not> el_interval (shutdown bt l)"
  by (simp add: shutdown_def split: prod.split)

subsection \<open>Properties\<close>

text \<open>The payload example keeps its promise to the dashboard. Whatever the interval, signals and callbacks
  do (no connect failing), what the process put on the wire or still queues decodes to frames with
  consecutive nonces, and in every one of them the error code and the status follow from the queue
  depth that the same payload carries.\<close>

theorem with_payload_end_to_end:
  fixes os
  assumes main: "with_payload_main env argv m w0 = Started l0"
    and calls: "\<forall>e. Callback e \<in> set evs \<longrightarrow> \<not> is_connect_failure e"
  defines "pid \<equiv> w_pid (snd (el_transport l0))"
  defines "l \<equiv> fold (with_payload_step os env pid) evs l0"
  assumes pid: "1 < to_uint32 (js_int pid)" and clock: "v_lastTimestamp (el_agent l) < TIMESTAMP_INVALID"
  shows "\<exists>fs. map decode (drop (length (w_wire w0))
        (map snd (w_wire (snd (el_transport l))) @ u_preConnectQueue (fst (el_transport l)))) = map Inr fs \<and>
      nonces_from 0 fs \<and> (\<forall>f \<in> set fs. payload_consistent f)"
proof -
  obtain v t m1 w1 where con: "connectUdp env (argv_or argv 2 ''127.0.0.1'') (parseInt (argv_or argv 3 ''5876'')) m w0 = (Inr (v, t), m1, w1)"
    and l0: "agent_of l0 = (v, m1, t, w1)"
    using main by (auto simp: with_payload_main_def Let_def split: prod.splits sum.splits)
  obtain as fs where run: "agent_run os (udp_transport env) net_callback pid as (agent_of l0) = (fs, agent_of l)"
    and rt: "\<forall>e. Runtime e \<in> set as \<longrightarrow> Callback e \<in> set evs" and ok: "\<forall>f \<in> set fs. payload_consistent f"
    unfolding l_def with_payload_step_def using with_payload_run_agent [of os "udp_transport env" net_callback pid l0 evs] by (elim exE conjE)
  obtain t' w' where l: "el_transport l = (t', w')" by (metis surj_pair)
  have p: "pid = w_pid w1" using l0 by (simp add: pid_def)
  note run' = run [unfolded l0 p l]
  have quiet: "\<forall>e. Runtime e \<in> set as \<longrightarrow> \<not> is_connect_failure e" using rt calls by blast
  have "sorted (map fr_timestamp fs @ [v_lastTimestamp (el_agent l)])"
    using agent_udp_run_ok(2) [OF con quiet run'] by (simp add: run_ok_def)
  then have "\<forall>f \<in> set fs. fr_timestamp f < TIMESTAMP_INVALID" using clock by (force simp: sorted_append)
  with agent_udp_run [OF con quiet run'] pid ok p l show ?thesis by auto
qed

text \<open>A beat that the transport accepts at once.\<close>

lemma beat_accepted:
  assumes "client_ok v" and "v_connectPid v = pid" and "\<not> v_closed v" and "st \<noteq> Stall"
    and "bt_send bt (wire_of (sent_frame st pid payload v m)) s = (Inr (), s')"
  obtains v' m' where "beat os bt pid (StatusEnum st) payload (v, m, s) = (Inr Sent, v', m', s')"
    and "v_lastTimestamp v' = next_timestamp v m"
proof -
  have "\<exists>v' m'. beat os bt pid (StatusEnum st) payload (v, m, s) = (Inr Sent, v', m', s') \<and> v_lastTimestamp v' = next_timestamp v m"
    using assms coerceBeatStatus_enum [of st]
    by (simp only: beat_same_pid) (simp add: beat_emit_eq after_send_def sendFrame_def Let_def)
  with that show thesis by blast
qed

lemma parseInt_5876: "parseInt ''5876'' = js_int 5876"
  by (simp add: parseInt_def js_space_def is_digit_def digit_value_def)

theorem with_payload_end_to_end_witness:
  "\<exists>l0 fs. with_payload_main quiet_env [] start_module start_world = Started l0 \<and>
     (let l = fold (with_payload_step linux_os quiet_env 42) [IntervalFires] l0
      in map decode (u_preConnectQueue (fst (el_transport l))) = map Inr fs \<and> (\<forall>f \<in> set fs. payload_consistent f))"
proof -
  define t where "t = \<lparr>pendingError = None, u_socket = 0, u_host = ''127.0.0.1'', u_port = js_int 5876,
    u_connected = False, u_preConnectQueue = []\<rparr>"
  obtain w1 where new: "new_UdpTransport quiet_env ''127.0.0.1'' (js_int 5876) start_world = (Inr t, w1)" and pid: "w_pid w1 = 42"
    by (simp add: new_UdpTransport_def openSocket_def createSocket_def sock_connect_def start_defs t_def)
  obtain v m1 where v: "new_Varta 42 start_module = (v, m1)" and vok: "client_ok v" "v_connectPid v = 42" "\<not> v_closed v"
    and c: "next_timestamp v m1 = 1000" by (rule start_agent)
  define l0 where "l0 = \<lparr>el_agent = v, el_module = m1, el_transport = (t, w1), el_interval = True, el_console = [],
    el_exit = None, pl_depth = 0, pl_lastError = 0\<rparr>"
  have main: "with_payload_main quiet_env [] start_module start_world = Started l0"
    using new v pid by (simp add: with_payload_main_def argv_or_def parseInt_5876 connectUdp_def with_transport_def l0_def)
  let ?p = "js_u32 (packPayload (js_int 1) (js_int 0))"
  let ?b = "wire_of (sent_frame Ok 42 ?p v m1)"
  have send: "bt_send (udp_transport quiet_env) ?b (t, w1) = (Inr (), t\<lparr>u_preConnectQueue := [?b]\<rparr>, w1)"
    by (simp add: udp_transport_def udp_send_def takePendingError_def t_def PRE_CONNECT_QUEUE_LIMIT_def)
  obtain v' m' where b: "beat linux_os (udp_transport quiet_env) 42 (StatusEnum Ok) ?p (v, m1, t, w1) =
      (Inr Sent, v', m', t\<lparr>u_preConnectQueue := [?b]\<rparr>, w1)" and ts: "v_lastTimestamp v' = next_timestamp v m1"
    by (rule beat_accepted [OF vok _ send]) simp
  define l where "l = fold (with_payload_step linux_os quiet_env 42) [IntervalFires] l0"
  have e: "agent_of l0 = (v, m1, t, w1)" and d: "and (pl_depth l0 + 1) 0xffff = 1" and i: "((1 :: int) mod 4 = 0) = False"
    and z: "((0 :: int) \<noteq> 0) = False" by (simp_all add: l0_def)
  have "l = with_payload_tick linux_os (udp_transport quiet_env) 42 l0" by (simp add: l_def l0_def with_payload_step_def)
  then have l: "el_agent l = v'" "el_transport l = (t\<lparr>u_preConnectQueue := [?b]\<rparr>, w1)"
    by (simp_all only: with_payload_tick_def Let_def d i z if_False e b prod.case) simp_all
  have w: "w_wire w1 = []" "w_wire start_world = []" using new_UdpTransport_Inr(2) [OF new] by (simp_all add: start_world_def)
  have p: "w_pid (snd (el_transport l0)) = 42" by (simp add: l0_def pid)
  have "\<exists>fs. map decode (drop (length (w_wire start_world))
        (map snd (w_wire (snd (el_transport l))) @ u_preConnectQueue (fst (el_transport l)))) = map Inr fs \<and>
      nonces_from 0 fs \<and> (\<forall>f \<in> set fs. payload_consistent f)"
    by (rule with_payload_end_to_end [OF main, of "[IntervalFires]" linux_os, unfolded p, folded l_def])
      (use to_uint32_int [of 42] l(1) ts c in \<open>simp_all add: TIMESTAMP_INVALID_def\<close>)
  then obtain fs where "map decode (u_preConnectQueue (fst (el_transport l))) = map Inr fs" "\<forall>f \<in> set fs. payload_consistent f"
    unfolding l(2) snd_conv fst_conv w list.map append_Nil list.size drop_0 by blast
  with main show ?thesis by (intro exI [of _ l0] exI [of _ fs]) (simp only: Let_def l_def [symmetric] simp_thms)
qed

lemma createConnectedSocket_Inr:
  assumes "env_createSocket env (w_calls w) = None" and "valid_port port"
  obtains w' where "createConnectedSocket env host port w = (Inr (w_fresh w), w')" and "can_complete (w_fresh w) w'"
    and "w_pid w' = w_pid w" and "w_wire w' = w_wire w" and "w_calls w' = Suc (w_calls w)" and "w_fresh w' = Suc (w_fresh w)"
  using that assms
  by (simp add: createConnectedSocket_def createSocket_def sock_connect_def Let_def can_complete_def sock_unref_def)

lemma new_UdpTransport_ok_Inr:
  assumes "env_createSocket env (w_calls w) = None" and "valid_port port"
  obtains w' t where "new_UdpTransport env host port w = (Inr t, w')" and "w_pid w' = w_pid w"
  using that assms by (simp add: new_UdpTransport_def openSocket_def createSocket_def sock_connect_def Let_def)

text \<open>The first frame of a new agent.\<close>

lemma first_frame:
  assumes v: "new_Varta pid m = (v, m1)" and "1 < to_uint32 (js_int pid)"
    and mono: "fst (monotonicNs (snd (monotonicNs m))) - fst (monotonicNs m) < TIMESTAMP_INVALID"
  shows "decode (wire_of (sent_frame Ok pid (js_int 0) v m1)) = Inr (sent_frame Ok pid (js_int 0) v m1)"
    and "fr_nonce (sent_frame Ok pid (js_int 0) v m1) = 1"
proof -
  have f: "v_startNs v = fst (monotonicNs m)" "m1 = snd (monotonicNs m)" "v_lastTimestamp v = 0" "v_nonce v = 0"
    using v by (auto simp: new_Varta_def split: prod.splits)
  then show n: "fr_nonce (sent_frame Ok pid (js_int 0) v m1) = 1"
    by (simp add: sent_frame_def next_nonce_def NONCE_TERMINAL_def)
  have "to_uint32 (js_int pid) \<noteq> 0" "to_uint32 (js_int pid) \<noteq> 1" using assms(2) by auto
  moreover have "0 \<le> next_timestamp v m1" "next_timestamp v m1 < TIMESTAMP_INVALID"
    using mono f by (auto simp: next_timestamp_def raw_elapsed_def TIMESTAMP_INVALID_def U64_MAX_def)
  ultimately have "frame_ok (sent_frame Ok pid (js_int 0) v m1)"
    using n by (simp add: frame_ok_def sent_frame_def is_u64_def TIMESTAMP_INVALID_def NONCE_TERMINAL_def)
  then show "decode (wire_of (sent_frame Ok pid (js_int 0) v m1)) = Inr (sent_frame Ok pid (js_int 0) v m1)"
    by (rule decode_wire_of)
qed

text \<open>The panic example up to the point where it waits for its timer with both sockets connected.\<close>

lemma with_panic_handler_armed:
  fixes os
  assumes fresh: "fresh_process p" and clk: "clock_ready p"
    and sock: "env_createSocket env (w_calls (ps_world p)) = None" "env_createSocket env (Suc (w_calls (ps_world p))) = None"
    and port: "valid_port (parseInt (argv_or argv 3 ''5876''))"
  defines "s \<equiv> w_fresh (ps_world p)"
  obtains d0 r t w v m1 b where "with_panic_handler_main os env argv m p = DemoStarted d0"
    and "fold (demo_step env) [DemoAgent (ConnectDone (Suc s)), DemoPanic (SocketConnected s)] d0 = d0\<lparr>pd_panic := r, pd_transport := t\<rparr>"
    and "pd_timer d0" and "new_Varta (w_pid (ps_world p)) m = (v, m1)"
    and "b = wire_of (sent_frame Ok (w_pid (ps_world p)) (js_int 0) v m1)"
    and "ps_world r = sock_connected s w" and "can_complete s w" and "w_pid w = w_pid (ps_world p)"
    and "w_wire w = w_wire (ps_world p) @ [(Suc s, b)]"
    and "ps_listeners r = own_handlers" and "ps_immediates r = []" and "\<not> ps_exited r" and "clock_ready r"
    and "ps_active r = Some \<lparr>tr_fired = False, tr_emitter = EmitUdp s\<rparr>" and "ps_last r = ps_last p"
proof -
  let ?host = "argv_or argv 2 ''127.0.0.1''" and ?port = "parseInt (argv_or argv 3 ''5876'')"
  obtain w1 where c: "createConnectedSocket env ?host ?port (ps_world p) = (Inr s, w1)" and can: "can_complete s w1"
    and w1: "w_pid w1 = w_pid (ps_world p)" "w_wire w1 = w_wire (ps_world p)" "w_calls w1 = Suc (w_calls (ps_world p))" "w_fresh w1 = Suc s"
    unfolding s_def by (rule createConnectedSocket_Inr [OF sock(1) port])
  define p1 where "p1 = installEmitter (EmitUdp s) (p\<lparr>ps_world := w1\<rparr>)"
  have p1: "installSignalHandlerUdp env ?host ?port p = (Installed, p1)" "ps_world p1 = w1"
    by (simp_all add: installSignalHandlerUdp_def c p1_def installEmitter_def Let_def)
  obtain w2 t0 where new: "new_UdpTransport env ?host ?port w1 = (Inr t0, w2)" and pid2: "w_pid w2 = w_pid w1"
    by (rule new_UdpTransport_ok_Inr [of env w1 ?port ?host]) (use sock(2) w1(3) port in simp_all)
  note n = new_UdpTransport_Inr [OF new, unfolded w1]
  obtain v m1 where v: "new_Varta (w_pid (ps_world p)) m = (v, m1)" by (metis surj_pair)
  note vok = new_Varta_ok [OF v]
  have con: "connectUdp env ?host ?port m (ps_world p1) = (Inr (v, t0), m1, w2)"
    using new v p1(2) pid2 w1(1) by (simp add: connectUdp_def with_transport_def)
  define b where "b = wire_of (sent_frame Ok (w_pid (ps_world p)) (js_int 0) v m1)"
  have send: "bt_send (udp_transport env) b (t0, w2) = (Inr (), t0\<lparr>u_preConnectQueue := [b]\<rparr>, w2)"
    using n(4) by (simp add: udp_transport_def udp_send_def takePendingError_def PRE_CONNECT_QUEUE_LIMIT_def)
  obtain v' m' where bt: "beat os (udp_transport env) (w_pid (ps_world p)) (StatusEnum Ok) (js_int 0) (v, m1, t0, w2) =
      (Inr Sent, v', m', t0\<lparr>u_preConnectQueue := [b]\<rparr>, w2)"
    by (rule beat_accepted [OF _ _ _ _ send [unfolded b_def], folded b_def]) (use vok in simp_all)
  define d0 where "d0 = \<lparr>pd_panic = p1\<lparr>ps_world := w2\<rparr>, pd_agent = v', pd_module = m',
    pd_transport = t0\<lparr>u_preConnectQueue := [b]\<rparr>, pd_timer = True\<rparr>"
  have main: "with_panic_handler_main os env argv m p = DemoStarted d0"
    unfolding with_panic_handler_main_def Let_def p1(1)
    by (simp only: prod.case install_result.case con sum.case pid2 w1(1) bt d0_def)
  have can2: "can_complete (Suc s) w2" and sne: "u_socket t0 = Suc s"
    using n(4,5) by (simp_all add: can_complete_def fresh_sock_def)
  define w where "w = (sock_connected (Suc s) w2)\<lparr>w_wire := w_wire w2 @ [(Suc s, b)]\<rparr>"
  have w: "can_complete s w" "w_pid w = w_pid (ps_world p)" "w_wire w = w_wire (ps_world p) @ [(Suc s, b)]"
    using can n(2,4,5) pid2 w1 by (simp_all add: w_def can_complete_def)
  define r where "r = p1\<lparr>ps_world := sock_connected s w\<rparr>"
  let ?t = "t0\<lparr>u_preConnectQueue := [], u_connected := True\<rparr>"
  have two: "fold (demo_step env) [DemoAgent (ConnectDone (Suc s)), DemoPanic (SocketConnected s)] d0 =
      d0\<lparr>pd_panic := r, pd_transport := ?t\<rparr>"
    using can2 sne w(1) on_connect_done [OF can2, of "t0\<lparr>u_preConnectQueue := [b]\<rparr>"]
    by (simp add: d0_def r_def flip: w_def)
  have tm: "pd_timer d0" by (simp add: d0_def)
  note i = installed_state [OF fresh clk, of "sock_connected s w" "EmitUdp s" w1, folded p1_def, folded r_def]
  show thesis by (rule that [OF main two tm v b_def i(7) w(1-3) i(1-6)])
qed

text \<open>C24: the panic example announces its crash. With its arguments usable and both sockets connected before
  the timer, the process puts exactly two datagrams on the wire and ends: the agent's first beat,
  which was queued until the connect completed, and then, from the emitter's own socket, the critical
  terminal frame.\<close>

theorem with_panic_handler_end_to_end:
  fixes os
  assumes fresh: "fresh_process p" and clk: "clock_ready p" and pid: "1 < own_pid p"
    and sock: "env_createSocket env (w_calls (ps_world p)) = None" "env_createSocket env (Suc (w_calls (ps_world p))) = None"
    and port: "valid_port (parseInt (argv_or argv 3 ''5876''))"
    and mono: "fst (monotonicNs (snd (monotonicNs m))) - fst (monotonicNs m) < TIMESTAMP_INVALID"
  defines "s \<equiv> w_fresh (ps_world p)"
  shows "\<exists>d0. with_panic_handler_main os env argv m p = DemoStarted d0 \<and>
    (let q = pd_panic (fold (demo_step env) [DemoAgent (ConnectDone (Suc s)), DemoPanic (SocketConnected s), DemoTimer,
               DemoPanic NextImmediate, DemoPanic NextImmediate] d0)
     in ps_exited q \<and>
        (\<exists>a b f. w_wire (ps_world q) = w_wire (ps_world p) @ [(Suc s, a), (s, b)] \<and>
           decode a = Inr f \<and> fr_status f = Ok \<and> fr_pid f = own_pid p \<and> fr_nonce f = 1 \<and>
           decode b = Inr \<lparr>fr_status = Critical, fr_pid = own_pid p, fr_timestamp = ps_last q,
                            fr_nonce = NONCE_TERMINAL, fr_payload = 0\<rparr>))"
proof -
  obtain d0 r t w v m1 b where d0: "with_panic_handler_main os env argv m p = DemoStarted d0"
    and two: "fold (demo_step env) [DemoAgent (ConnectDone (Suc s)), DemoPanic (SocketConnected s)] d0 = d0\<lparr>pd_panic := r, pd_transport := t\<rparr>"
    and tm: "pd_timer d0" and v: "new_Varta (w_pid (ps_world p)) m = (v, m1)"
    and b: "b = wire_of (sent_frame Ok (w_pid (ps_world p)) (js_int 0) v m1)"
    and w: "ps_world r = sock_connected s w" "can_complete s w" "w_pid w = w_pid (ps_world p)"
      "w_wire w = w_wire (ps_world p) @ [(Suc s, b)]"
    and r: "ps_listeners r = own_handlers" "ps_immediates r = []" "\<not> ps_exited r" "clock_ready r"
      "ps_active r = Some \<lparr>tr_fired = False, tr_emitter = EmitUdp s\<rparr>" "ps_last r = ps_last p"
    unfolding s_def by (rule with_panic_handler_armed [OF fresh clk sock port])
  let ?u = "''uncaughtException''"
  let ?err = "RaisedError (new_Error ''intentional panic to demonstrate the hook'')"
  let ?q = "fold (panic_step env) [Raise ?u ?err, NextImmediate, NextImmediate] r"
  let ?rest = "[DemoTimer, DemoPanic NextImmediate, DemoPanic NextImmediate]"
  have "fold (demo_step env) (DemoAgent (ConnectDone (Suc s)) # DemoPanic (SocketConnected s) # ?rest) d0 =
      fold (demo_step env) ?rest (d0\<lparr>pd_panic := r, pd_transport := t\<rparr>)"
    unfolding two [symmetric] by simp
  moreover have "pd_panic (fold (demo_step env) ?rest (d0\<lparr>pd_panic := r, pd_transport := t\<rparr>)) = ?q"
    using tm by simp
  ultimately have q: "pd_panic (fold (demo_step env) [DemoAgent (ConnectDone (Suc s)), DemoPanic (SocketConnected s), DemoTimer,
      DemoPanic NextImmediate, DemoPanic NextImmediate] d0) = ?q" by (simp only:)
  have own: "(?u, OnUncaughtException) \<in> set own_handlers" by (simp add: own_handlers_def)
  have pr: "own_pid r = own_pid p" using w(1,3) by simp
  then have "1 < own_pid r" using pid by simp
  from trigger_udp [OF r(5,4) w(1,2) this, of env] obtain c where
    c: "w_wire (ps_world (triggerActive env r)) = w_wire w @ [(s, c)]"
      "decode c = Inr \<lparr>fr_status = Critical, fr_pid = own_pid r, fr_timestamp = ps_last (triggerActive env r),
                         fr_nonce = NONCE_TERMINAL, fr_payload = 0\<rparr>" by blast
  note x = fatal_run [OF r(1-3) own, of env ?err]
  let ?f = "sent_frame Ok (w_pid (ps_world p)) (js_int 0) v m1"
  note f = first_frame [OF v pid mono, folded b]
  have st: "fr_status ?f = Ok" "fr_pid ?f = own_pid p" by (simp_all only: sent_frame_def Frame.simps)
  have "w_wire (ps_world ?q) = w_wire (ps_world p) @ [(Suc s, b), (s, c)]" using x c(1) w(4) by simp
  moreover have "ps_last ?q = ps_last (triggerActive env r)" "ps_exited ?q" using x by blast+
  ultimately show ?thesis
    unfolding d0 Let_def using f st c(2) pr q
    by (intro exI [of _ d0]) (simp only: q refl simp_thms, blast)
qed

theorem with_panic_handler_end_to_end_witness:
  "\<exists>d0. with_panic_handler_main linux_os quiet_env [] start_module start_panic = DemoStarted d0 \<and>
     ps_exited (pd_panic (fold (demo_step quiet_env) [DemoAgent (ConnectDone 1), DemoPanic (SocketConnected 0), DemoTimer,
       DemoPanic NextImmediate, DemoPanic NextImmediate] d0))"
proof -
  have port: "valid_port (parseInt (argv_or [] 3 ''5876''))" by (simp add: argv_or_def parseInt_5876)
  have mono: "fst (monotonicNs (snd (monotonicNs start_module))) - fst (monotonicNs start_module) < TIMESTAMP_INVALID"
    by (simp add: monotonicNs_def start_module_def TIMESTAMP_INVALID_def)
  show ?thesis
    using with_panic_handler_end_to_end [OF start_panic_facts(2,3,4,7,7) port mono, of linux_os]
    unfolding start_panic_facts(10) One_nat_def Let_def by blast
qed

end
