(* ===== verification/Landing_Page.thy ===== *)
theory Landing_Page
  imports Varta_Prelude
begin

section \<open>The landing page (\<open>script.js\<close>)\<close>

text \<open>
  The behaviours that the page script attaches: the navigation bar that follows the scroll
  position, the sections that reveal themselves, the copy button, the terminal animation and the
  mobile menu. Each has its variables as a record and its handlers as functions; what the browser
  does (animation frames, timers, intersections, visibility) arrives as events in any order.
  Elements are reduced to the classes, attributes and texts that the script writes.
\<close>

subsection \<open>Navigation bar\<close>

definition scrollThreshold :: rat where "scrollThreshold = 40"

record nav_bar =
  nb_scrolled :: bool
  nb_scrollTicking :: bool
  nb_frames :: nat

definition applyScrollState :: "rat \<Rightarrow> nav_bar \<Rightarrow> nav_bar" where
  "applyScrollState scrollY n = n\<lparr>nb_scrolled := (scrollY > scrollThreshold), nb_scrollTicking := False\<rparr>"

definition onScroll :: "nav_bar \<Rightarrow> nav_bar" where
  "onScroll n =
     (if nb_scrollTicking n then n
      else n\<lparr>nb_scrollTicking := True, nb_frames := Suc (nb_frames n)\<rparr>)"

text \<open>The browser runs a requested frame at some later scroll position.\<close>

definition nav_frame :: "rat \<Rightarrow> nav_bar \<Rightarrow> nav_bar" where
  "nav_frame scrollY n =
     (if nb_frames n = 0 then n else applyScrollState scrollY (n\<lparr>nb_frames := nb_frames n - 1\<rparr>))"

definition nav_ok :: "nav_bar \<Rightarrow> bool" where
  "nav_ok n \<longleftrightarrow> nb_frames n = (if nb_scrollTicking n then 1 else 0)"

lemma nav_throttled:
  "nav_ok n \<Longrightarrow> nav_ok (onScroll n)" "nav_ok n \<Longrightarrow> nav_ok (nav_frame y n)"
  by (auto simp: nav_ok_def onScroll_def nav_frame_def applyScrollState_def)

lemma nav_follows:
  assumes "nav_ok n"
  shows "nb_scrolled (nav_frame y (onScroll n)) = (y > 40)"
  using assms by (auto simp: nav_ok_def onScroll_def nav_frame_def applyScrollState_def scrollThreshold_def)

subsection \<open>Scroll reveal\<close>

text \<open>Sections by number, with their classes and whether the observer still watches them.\<close>

record reveal_state =
  rs_classes :: "nat \<Rightarrow> string set"
  rs_observed :: "nat set"

definition reveal_setup :: "bool \<Rightarrow> nat list \<Rightarrow> reveal_state \<Rightarrow> reveal_state" where
  "reveal_setup supported revealSections r =
     (if supported
      then let r1 = fold (\<lambda>el r. r\<lparr>rs_classes := (rs_classes r)(el := insert ''reveal'' (rs_classes r el))\<rparr>) revealSections r
           in fold (\<lambda>el r. r\<lparr>rs_observed := insert el (rs_observed r)\<rparr>) revealSections r1
      else r)"

definition reveal_entry :: "nat \<times> bool \<Rightarrow> reveal_state \<Rightarrow> reveal_state" where
  "reveal_entry = (\<lambda>(target, isIntersecting) r.
     if isIntersecting
     then r\<lparr>rs_classes := (rs_classes r)(target := insert ''visible'' (rs_classes r target)),
            rs_observed := rs_observed r - {target}\<rparr>
     else r)"

definition reveal_callback :: "(nat \<times> bool) list \<Rightarrow> reveal_state \<Rightarrow> reveal_state" where
  "reveal_callback entries r = fold reveal_entry entries r"

text \<open>A section leaves the observer exactly when it has been shown, and never hides again.\<close>

definition reveal_ok :: "nat list \<Rightarrow> reveal_state \<Rightarrow> bool" where
  "reveal_ok els r \<longleftrightarrow>
     (\<forall>el \<in> set els. ''reveal'' \<in> rs_classes r el \<and> (''visible'' \<in> rs_classes r el \<longleftrightarrow> el \<notin> rs_observed r))"

lemma fold_reveal:
  "rs_classes (fold (\<lambda>el r. r\<lparr>rs_classes := (rs_classes r)(el := insert c (rs_classes r el))\<rparr>) els r) x =
     (if x \<in> set els then insert c (rs_classes r x) else rs_classes r x)"
  "rs_observed (fold (\<lambda>el r. r\<lparr>rs_classes := (rs_classes r)(el := insert c (rs_classes r el))\<rparr>) els r) = rs_observed r"
  by (induction els arbitrary: r) auto

lemma fold_observe:
  "rs_observed (fold (\<lambda>el r. r\<lparr>rs_observed := insert el (rs_observed r)\<rparr>) els r) = rs_observed r \<union> set els"
  "rs_classes (fold (\<lambda>el r. r\<lparr>rs_observed := insert el (rs_observed r)\<rparr>) els r) = rs_classes r"
  by (induction els arbitrary: r) auto

lemma reveal_setup_ok:
  assumes "\<forall>el \<in> set els. ''visible'' \<notin> rs_classes r el"
  shows "reveal_ok els (reveal_setup True els r)"
  using assms by (auto simp: reveal_ok_def reveal_setup_def Let_def fold_reveal fold_observe)

lemma reveal_callback_ok: "reveal_ok els r \<Longrightarrow> reveal_ok els (reveal_callback entries r)"
  unfolding reveal_callback_def
proof (induction entries arbitrary: r)
  case (Cons e entries)
  have "reveal_ok els (reveal_entry e r)" using Cons.prems by (auto simp: reveal_ok_def reveal_entry_def split: prod.split)
  with Cons.IH show ?case by simp
qed simp

subsection \<open>Mobile menu\<close>

record nav_drawer =
  nd_open :: bool
  nd_expanded :: string

definition closeMenu :: "nav_drawer \<Rightarrow> nav_drawer" where
  "closeMenu d = d\<lparr>nd_open := False, nd_expanded := ''false''\<rparr>"

definition toggle_click :: "nav_drawer \<Rightarrow> nav_drawer" where
  "toggle_click d =
     (let isOpen = (\<not> nd_open d)
      in d\<lparr>nd_open := isOpen, nd_expanded := (if isOpen then ''true'' else ''false'')\<rparr>)"

definition drawer_resize :: "int \<Rightarrow> nav_drawer \<Rightarrow> nav_drawer" where
  "drawer_resize innerWidth d = (if innerWidth > 640 then closeMenu d else d)"

text \<open>The accessibility attribute tells the truth about the menu after every handler.\<close>

definition drawer_ok :: "nav_drawer \<Rightarrow> bool" where
  "drawer_ok d \<longleftrightarrow> nd_expanded d = (if nd_open d then ''true'' else ''false'')"

lemma drawer_handlers_ok:
  "drawer_ok (closeMenu d)" "drawer_ok (toggle_click d)" "drawer_ok d \<Longrightarrow> drawer_ok (drawer_resize w d)"
  by (simp_all add: drawer_ok_def closeMenu_def toggle_click_def drawer_resize_def Let_def)

subsection \<open>Copy button\<close>

text \<open>The hint and the status text are optional elements. The reset timers that the browser still holds are
  kept beside the script's own variable; timer numbers start at one.\<close>

record copy_button =
  cb_copied :: bool
  cb_hint :: "string option"
  cb_status :: "string option"
  cb_timers :: "nat list"
  cb_resetTimer :: "nat option"
  cb_fresh :: nat
  cb_textareas :: nat
  cb_promises :: nat

definition set_text :: "string \<Rightarrow> string option \<Rightarrow> string option" where
  "set_text s = map_option (\<lambda>_. s)"

definition showCopied :: "bool \<Rightarrow> copy_button \<Rightarrow> copy_button" where
  "showCopied ok c =
     (let msg = (if ok then ''copied!'' else ''copy failed'');
          cleared = (case cb_resetTimer c of
                       Some i \<Rightarrow> if i \<noteq> 0 then removeAll i (cb_timers c) else cb_timers c
                     | None \<Rightarrow> cb_timers c)
      in c\<lparr>cb_copied := True, cb_hint := set_text msg (cb_hint c), cb_status := set_text msg (cb_status c),
           cb_timers := cleared @ [cb_fresh c], cb_resetTimer := Some (cb_fresh c), cb_fresh := Suc (cb_fresh c)\<rparr>)"

definition copy_reset :: "copy_button \<Rightarrow> copy_button" where
  "copy_reset c =
     c\<lparr>cb_copied := False, cb_hint := set_text ''click to copy'' (cb_hint c), cb_status := set_text [] (cb_status c),
       cb_resetTimer := None\<rparr>"

text \<open>Which steps of the fallback the browser lets through: building and attaching the text area, selecting it,
  and the copy command, whose exception counts as failure.\<close>

record fallback_env =
  fe_attach :: bool
  fe_select :: bool
  fe_execCommand :: "bool option"

definition fallbackCopy :: "fallback_env \<Rightarrow> copy_button \<Rightarrow> copy_button" where
  "fallbackCopy fe c =
     (if \<not> fe_attach fe then showCopied False c
      else let c1 = c\<lparr>cb_textareas := Suc (cb_textareas c)\<rparr>
           in if \<not> fe_select fe then showCopied False c1
              else let ok = (case fe_execCommand fe of Some b \<Rightarrow> b | None \<Rightarrow> False)
                   in showCopied ok (c1\<lparr>cb_textareas := cb_textareas c1 - 1\<rparr>))"

definition copy_click :: "bool \<Rightarrow> fallback_env \<Rightarrow> copy_button \<Rightarrow> copy_button" where
  "copy_click clipboard fe c =
     (if clipboard then c\<lparr>cb_promises := Suc (cb_promises c)\<rparr> else fallbackCopy fe c)"

definition copy_settled :: "bool \<Rightarrow> fallback_env \<Rightarrow> copy_button \<Rightarrow> copy_button" where
  "copy_settled fulfilled fe c =
     (if cb_promises c = 0 then c
      else let c1 = c\<lparr>cb_promises := cb_promises c - 1\<rparr>
           in if fulfilled then showCopied True c1 else fallbackCopy fe c1)"

datatype copy_event = CopyClick bool fallback_env | CopySettled bool fallback_env | CopyTimer nat

fun copy_step :: "copy_event \<Rightarrow> copy_button \<Rightarrow> copy_button" where
  "copy_step (CopyClick clipboard fe) c = copy_click clipboard fe c"
| "copy_step (CopySettled fulfilled fe) c = copy_settled fulfilled fe c"
| "copy_step (CopyTimer i) c =
     (if i \<in> set (cb_timers c) then copy_reset (c\<lparr>cb_timers := removeAll i (cb_timers c)\<rparr>) else c)"

text \<open>At most one reset is outstanding, and it is outstanding exactly while the button shows a result.\<close>

definition copy_ok :: "copy_button \<Rightarrow> bool" where
  "copy_ok c \<longleftrightarrow>
     cb_timers c = (case cb_resetTimer c of None \<Rightarrow> [] | Some i \<Rightarrow> [i]) \<and> 0 < cb_fresh c \<and>
     (\<forall>i. cb_resetTimer c = Some i \<longrightarrow> 0 < i \<and> i < cb_fresh c) \<and>
     (cb_copied c \<longleftrightarrow> cb_resetTimer c \<noteq> None) \<and>
     (\<forall>h. cb_hint c = Some h \<longrightarrow> h \<in> (if cb_copied c then {''copied!'', ''copy failed''} else {''click to copy''})) \<and>
     (\<forall>s. cb_status c = Some s \<longrightarrow> s \<in> (if cb_copied c then {''copied!'', ''copy failed''} else {[]}))"

lemma showCopied_ok: "copy_ok c \<Longrightarrow> copy_ok (showCopied ok c)"
  by (auto simp: copy_ok_def showCopied_def Let_def set_text_def split: option.splits)

lemma copy_ok_update [simp]:
  "copy_ok (c\<lparr>cb_textareas := n\<rparr>) = copy_ok c" "copy_ok (c\<lparr>cb_promises := n\<rparr>) = copy_ok c"
  by (simp_all add: copy_ok_def)

lemma fallbackCopy_ok: "copy_ok c \<Longrightarrow> copy_ok (fallbackCopy fe c)"
  by (simp add: fallbackCopy_def Let_def showCopied_ok)

lemma copy_reset_ok: "copy_ok c \<Longrightarrow> cb_resetTimer c = Some i \<Longrightarrow> copy_ok (copy_reset (c\<lparr>cb_timers := []\<rparr>))"
  by (auto simp: copy_ok_def copy_reset_def set_text_def)

lemma copy_step_ok: "copy_ok c \<Longrightarrow> copy_ok (copy_step ev c)"
proof (cases ev)
  case (CopyTimer i)
  assume ok: "copy_ok c"
  show ?thesis
  proof (cases "i \<in> set (cb_timers c)")
    case True
    with ok have "cb_resetTimer c = Some i" "cb_timers c = [i]" by (auto simp: copy_ok_def split: option.splits)
    with copy_reset_ok [OF ok] CopyTimer show ?thesis by simp
  qed (use ok CopyTimer in simp)
qed (simp_all add: copy_click_def copy_settled_def Let_def fallbackCopy_ok showCopied_ok)

lemma copy_steps_ok: "copy_ok c \<Longrightarrow> copy_ok (fold copy_step evs c)"
  by (induction evs arbitrary: c) (auto simp: copy_step_ok)

subsection \<open>Counters\<close>

text \<open>Numbers are exact rationals here, \<open>None\<close> is NaN. \<open>parseFloat\<close> reads the longest decimal literal without
  exponent; \<open>toFixed\<close> rounds to the nearest multiple, the larger one of two, and throws for more than
  100 digits; \<open>String\<close> of a number that was read from a decimal literal prints its digits again.\<close>

definition parseFloat :: "string \<Rightarrow> rat option" where
  "parseFloat s =
     (let s1 = dropWhile js_space s;
          neg = (s1 \<noteq> [] \<and> hd s1 = CHR ''-'');
          s2 = (if s1 \<noteq> [] \<and> (hd s1 = CHR ''-'' \<or> hd s1 = CHR ''+'') then tl s1 else s1);
          ds = takeWhile is_digit s2;
          r = drop (length ds) s2;
          fs = (if r \<noteq> [] \<and> hd r = CHR ''.'' then takeWhile is_digit (tl r) else []);
          x = rat_of_int (foldl (\<lambda>a c. 10 * a + digit_value c) 0 (ds @ fs)) / 10 ^ length fs
      in if ds @ fs = [] then None else Some (if neg then - x else x))"

definition fixed_digits :: "rat \<Rightarrow> nat \<Rightarrow> string" where
  "fixed_digits x d =
     (let n = \<lfloor>x * 10 ^ d + 1 / 2\<rfloor>;
          m = padStart (int_string n) (d + 1) (CHR ''0'')
      in if d = 0 then int_string n
         else take (length m - d) m @ ''.'' @ drop (length m - d) m)"

definition toFixed :: "rat option \<Rightarrow> nat \<Rightarrow> js_error + string" where
  "toFixed x d =
     (if d > 100 then Inl (new_RangeError ''toFixed() digits argument must be between 0 and 100'')
      else Inr (case x of None \<Rightarrow> ''NaN''
                | Some r \<Rightarrow> if r < 0 then ''-'' @ fixed_digits (- r) d else fixed_digits r d))"

definition number_text :: "rat option \<Rightarrow> string" where
  "number_text x =
     (case x of None \<Rightarrow> ''NaN''
      | Some r \<Rightarrow>
          (case find (\<lambda>d. \<bar>r\<bar> * 10 ^ d = rat_of_int \<lfloor>\<bar>r\<bar> * 10 ^ d\<rfloor>) [0..<18] of
             None \<Rightarrow> ''NaN''
           | Some d \<Rightarrow> (if r < 0 then ''-'' else []) @ fixed_digits \<bar>r\<bar> d))"

definition math_round :: "rat option \<Rightarrow> rat option" where
  "math_round x = map_option (\<lambda>r. rat_of_int \<lfloor>r + 1 / 2\<rfloor>) x"

record counter_element =
  ce_target :: "string option"
  ce_suffix :: "string option"
  ce_decimals :: "string option"
  ce_text :: string

definition counter_target :: "counter_element \<Rightarrow> rat option" where
  "counter_target el = (case ce_target el of None \<Rightarrow> None | Some s \<Rightarrow> parseFloat s)"

definition counter_suffix :: "counter_element \<Rightarrow> string" where
  "counter_suffix el = (case ce_suffix el of None \<Rightarrow> [] | Some s \<Rightarrow> s)"

text \<open>A missing or empty attribute reads as zero decimals; so does one that is no number.\<close>

definition counter_decimals :: "counter_element \<Rightarrow> nat" where
  "counter_decimals el =
     (case ce_decimals el of
        None \<Rightarrow> 0
      | Some s \<Rightarrow> (case parseInt (if s = [] then ''0'' else s) of JNum r \<Rightarrow> nat \<lfloor>r\<rfloor> | _ \<Rightarrow> 0))"

definition set_counter_text :: "js_error + string \<Rightarrow> counter_element \<Rightarrow> js_error + counter_element" where
  "set_counter_text s el = (case s of Inl e \<Rightarrow> Inl e | Inr s \<Rightarrow> Inr (el\<lparr>ce_text := s @ counter_suffix el\<rparr>))"

definition setCounterValue :: "counter_element \<Rightarrow> js_error + counter_element" where
  "setCounterValue el =
     set_counter_text
       (if counter_decimals el > 0 then toFixed (counter_target el) (counter_decimals el)
        else Inr (number_text (counter_target el))) el"

definition zeroCounter :: "counter_element \<Rightarrow> js_error + counter_element" where
  "zeroCounter el =
     set_counter_text (if counter_decimals el > 0 then toFixed (Some 0) (counter_decimals el) else Inr ''0'') el"

record counter_animation =
  ca_element :: counter_element
  ca_startTime :: "rat option"
  ca_frame :: bool

definition progress :: "rat \<Rightarrow> rat \<Rightarrow> rat" where
  "progress startTime timestamp = min ((timestamp - startTime) / 1200) 1"

definition eased :: "rat \<Rightarrow> rat" where
  "eased p = 1 - (1 - p) ^ 3"

definition counter_step :: "rat \<Rightarrow> counter_animation \<Rightarrow> js_error + counter_animation" where
  "counter_step timestamp a =
     (let startTime = (case ca_startTime a of None \<Rightarrow> timestamp | Some s \<Rightarrow> if s = 0 then timestamp else s);
          p = progress startTime timestamp;
          el = ca_element a;
          current = map_option (\<lambda>t. t * eased p) (counter_target el);
          shown = set_counter_text
                    (if counter_decimals el > 0 then toFixed current (counter_decimals el)
                     else Inr (number_text (math_round current))) el
      in case shown of
           Inl e \<Rightarrow> Inl e
         | Inr el1 \<Rightarrow>
             if p < 1 then Inr \<lparr>ca_element = el1, ca_startTime = Some startTime, ca_frame = True\<rparr>
             else (case setCounterValue el1 of
                     Inl e \<Rightarrow> Inl e
                   | Inr el2 \<Rightarrow> Inr \<lparr>ca_element = el2, ca_startTime = Some startTime, ca_frame = False\<rparr>))"

definition animateCounter :: "bool \<Rightarrow> counter_element \<Rightarrow> js_error + counter_animation" where
  "animateCounter prefersReducedMotion el =
     (if prefersReducedMotion
      then (case setCounterValue el of
              Inl e \<Rightarrow> Inl e | Inr el1 \<Rightarrow> Inr \<lparr>ca_element = el1, ca_startTime = None, ca_frame = False\<rparr>)
      else Inr \<lparr>ca_element = el, ca_startTime = None, ca_frame = True\<rparr>)"

text \<open>The count never overshoots, and the frame that reaches the full duration leaves the exact value and asks
  for no further frame.\<close>

lemma eased_bounds:
  assumes "0 \<le> p" and "p \<le> 1"
  shows "0 \<le> eased p \<and> eased p \<le> 1"
  using assms power_le_one [of "1 - p" 3] by (simp add: eased_def)

lemma set_counter_text_twice:
  assumes "set_counter_text s el = Inr el1"
  shows "setCounterValue el1 = setCounterValue el"
  using assms
  by (auto simp: set_counter_text_def setCounterValue_def counter_target_def counter_suffix_def counter_decimals_def
      split: sum.splits)

lemma set_counter_text_decimals: "set_counter_text s el = Inr el1 \<Longrightarrow> counter_decimals el1 = counter_decimals el"
  by (auto simp: set_counter_text_def counter_decimals_def split: sum.splits)

lemma counter_step_cases:
  assumes d: "counter_decimals (ca_element a) \<le> 100" and s: "ca_startTime a = Some s" "s \<noteq> 0"
  shows "timestamp < s + 1200 \<Longrightarrow> \<exists>b. counter_step timestamp a = Inr b \<and> ca_frame b \<and> ca_startTime b = Some s \<and>
        counter_decimals (ca_element b) = counter_decimals (ca_element a) \<and>
        setCounterValue (ca_element b) = setCounterValue (ca_element a)"
    and "s + 1200 \<le> timestamp \<Longrightarrow>
      \<exists>b. counter_step timestamp a = Inr b \<and> \<not> ca_frame b \<and> setCounterValue (ca_element a) = Inr (ca_element b)"
proof -
  let ?el = "ca_element a"
  let ?p = "progress s timestamp"
  let ?cur = "map_option (\<lambda>t. t * eased ?p) (counter_target ?el)"
  obtain el1 where e: "set_counter_text (if counter_decimals ?el > 0 then toFixed ?cur (counter_decimals ?el)
      else Inr (number_text (math_round ?cur))) ?el = Inr el1"
    using d by (cases "counter_decimals ?el > 0") (simp_all add: toFixed_def set_counter_text_def)
  have lt: "?p < 1 \<longleftrightarrow> timestamp < s + 1200"
    by (auto simp: progress_def divide_less_eq min_def le_divide_eq not_le algebra_simps)
  show "\<exists>b. counter_step timestamp a = Inr b \<and> ca_frame b \<and> ca_startTime b = Some s \<and>
      counter_decimals (ca_element b) = counter_decimals ?el \<and> setCounterValue (ca_element b) = setCounterValue ?el"
    if "timestamp < s + 1200"
    using that e s lt set_counter_text_twice [OF e] set_counter_text_decimals [OF e] by (simp add: counter_step_def Let_def)
  show "\<exists>b. counter_step timestamp a = Inr b \<and> \<not> ca_frame b \<and> setCounterValue ?el = Inr (ca_element b)" if "s + 1200 \<le> timestamp"
  proof -
    obtain el2 where "setCounterValue ?el = Inr el2"
      using d by (cases "0 < counter_decimals ?el") (simp_all add: setCounterValue_def set_counter_text_def toFixed_def)
    with that e s lt set_counter_text_twice [OF e] show ?thesis by (simp add: counter_step_def Let_def)
  qed
qed

text \<open>The first frame only fixes the start time: it does what a frame at the start time does.\<close>

lemma counter_step_first:
  assumes "ca_startTime a = None"
  shows "counter_step timestamp a = counter_step timestamp (a\<lparr>ca_startTime := Some timestamp\<rparr>)"
  using assms by (simp add: counter_step_def Let_def)

text \<open>The browser calls the animation at a sequence of times, as long as a frame is requested.\<close>

fun run_frames :: "rat list \<Rightarrow> counter_animation \<Rightarrow> js_error + counter_animation" where
  "run_frames [] a = Inr a"
| "run_frames (t # ts) a =
     (if ca_frame a then (case counter_step t a of Inl e \<Rightarrow> Inl e | Inr b \<Rightarrow> run_frames ts b) else Inr a)"

lemma run_frames_done: "\<not> ca_frame a \<Longrightarrow> run_frames ts a = Inr a"
  by (cases ts) simp_all

lemma run_frames_ends:
  assumes "ca_frame a" and "counter_decimals (ca_element a) \<le> 100" and "ca_startTime a = Some s" "s \<noteq> 0"
    and "\<exists>t \<in> set ts. s + 1200 \<le> t"
  shows "\<exists>b. run_frames ts a = Inr b \<and> \<not> ca_frame b \<and> setCounterValue (ca_element a) = Inr (ca_element b)"
  using assms
proof (induction ts arbitrary: a)
  case (Cons t ts)
  show ?case
  proof (cases "t < s + 1200")
    case True
    from counter_step_cases(1) [OF Cons.prems(2,3,4) this] obtain b where
      b: "counter_step t a = Inr b" "ca_frame b" "ca_startTime b = Some s"
        "counter_decimals (ca_element b) = counter_decimals (ca_element a)"
        "setCounterValue (ca_element b) = setCounterValue (ca_element a)" by blast
    have "\<exists>c. run_frames ts b = Inr c \<and> \<not> ca_frame c \<and> setCounterValue (ca_element b) = Inr (ca_element c)"
      using Cons.prems True b by (intro Cons.IH) auto
    with b Cons.prems(1) show ?thesis by simp
  next
    case False
    with counter_step_cases(2) [OF Cons.prems(2,3,4), of t] obtain b where
      "counter_step t a = Inr b" "\<not> ca_frame b" "setCounterValue (ca_element a) = Inr (ca_element b)" by auto
    with Cons.prems(1) show ?thesis by (simp add: run_frames_done)
  qed
qed simp

text \<open>The counters of the page, by number: their elements, the ones still observed, and the animation frames that
  the browser has been asked for, each with the start time of its closure. A tick runs them in order; an
  exception of one of them is reported and the others still run.\<close>

record counter_page =
  cp_elements :: "nat \<Rightarrow> counter_element"
  cp_observed :: "nat set"
  cp_frames :: "(nat \<times> rat option) list"

fun zero_counters :: "nat list \<Rightarrow> counter_page \<Rightarrow> js_error + counter_page" where
  "zero_counters [] p = Inr p"
| "zero_counters (i # is) p =
     (case zeroCounter (cp_elements p i) of
        Inl e \<Rightarrow> Inl e
      | Inr el \<Rightarrow> zero_counters is (p\<lparr>cp_elements := (cp_elements p)(i := el)\<rparr>))"

definition counter_setup :: "bool \<Rightarrow> bool \<Rightarrow> nat list \<Rightarrow> counter_page \<Rightarrow> js_error + counter_page" where
  "counter_setup supported prefersReducedMotion counters p =
     (if supported \<and> \<not> prefersReducedMotion
      then (case zero_counters counters p of
              Inl e \<Rightarrow> Inl e
            | Inr p1 \<Rightarrow> Inr (p1\<lparr>cp_observed := cp_observed p1 \<union> set counters\<rparr>))
      else Inr p)"

fun counter_callback :: "bool \<Rightarrow> (nat \<times> bool) list \<Rightarrow> counter_page \<Rightarrow> js_error + counter_page" where
  "counter_callback prefersReducedMotion [] p = Inr p"
| "counter_callback prefersReducedMotion ((target, isIntersecting) # entries) p =
     (if isIntersecting
      then (case animateCounter prefersReducedMotion (cp_elements p target) of
              Inl e \<Rightarrow> Inl e
            | Inr a \<Rightarrow>
                counter_callback prefersReducedMotion entries
                  (p\<lparr>cp_elements := (cp_elements p)(target := ca_element a),
                     cp_frames := cp_frames p @ (if ca_frame a then [(target, ca_startTime a)] else []),
                     cp_observed := cp_observed p - {target}\<rparr>))
      else counter_callback prefersReducedMotion entries p)"

definition counter_frame :: "rat \<Rightarrow> nat \<times> rat option \<Rightarrow> counter_page \<Rightarrow> counter_page" where
  "counter_frame timestamp = (\<lambda>(i, startTime) p.
     case counter_step timestamp \<lparr>ca_element = cp_elements p i, ca_startTime = startTime, ca_frame = True\<rparr> of
       Inl e \<Rightarrow> p
     | Inr a \<Rightarrow> p\<lparr>cp_elements := (cp_elements p)(i := ca_element a),
                  cp_frames := cp_frames p @ (if ca_frame a then [(i, ca_startTime a)] else [])\<rparr>)"

definition counter_tick :: "rat \<Rightarrow> counter_page \<Rightarrow> counter_page" where
  "counter_tick timestamp p = fold (counter_frame timestamp) (cp_frames p) (p\<lparr>cp_frames := []\<rparr>)"

text \<open>With at most 100 decimals everywhere the page loads, and a tick that comes 1200 ms after all the outstanding
  frames started leaves no frame outstanding.\<close>

lemma zero_counters_total:
  assumes "\<forall>i \<in> set is. counter_decimals (cp_elements p i) \<le> 100"
  shows "\<exists>q. zero_counters is p = Inr q"
  using assms
proof (induction "is" arbitrary: p)
  case (Cons i "is")
  have "\<exists>el. zeroCounter (cp_elements p i) = Inr el \<and> counter_decimals el = counter_decimals (cp_elements p i)"
    using Cons.prems
    by (cases "0 < counter_decimals (cp_elements p i)")
       (simp_all add: zeroCounter_def set_counter_text_def toFixed_def counter_decimals_def)
  then obtain el where "zeroCounter (cp_elements p i) = Inr el" "counter_decimals el = counter_decimals (cp_elements p i)" by blast
  with Cons show ?case by simp
qed simp

lemma counter_frames_finish:
  assumes "\<forall>(i, st) \<in> set fs. \<exists>s. st = Some s \<and> s \<noteq> 0 \<and> s + 1200 \<le> timestamp"
    and "\<forall>i. counter_decimals (cp_elements p i) \<le> 100"
  shows "cp_frames (fold (counter_frame timestamp) fs p) = cp_frames p"
  using assms
proof (induction fs arbitrary: p)
  case (Cons f fs)
  obtain i s where f: "f = (i, Some s)" "s \<noteq> 0" "s + 1200 \<le> timestamp" using Cons.prems(1) by (cases f) auto
  from f Cons.prems(2) counter_step_cases(2) [of "\<lparr>ca_element = cp_elements p i, ca_startTime = Some s, ca_frame = True\<rparr>" s timestamp]
  obtain a where a: "counter_step timestamp \<lparr>ca_element = cp_elements p i, ca_startTime = Some s, ca_frame = True\<rparr> = Inr a"
    "\<not> ca_frame a" "setCounterValue (cp_elements p i) = Inr (ca_element a)" by auto
  have "counter_decimals (ca_element a) = counter_decimals (cp_elements p i)"
    using a(3) set_counter_text_decimals unfolding setCounterValue_def by blast
  with Cons a f show ?case by (simp add: counter_frame_def)
qed simp

lemma counter_tick_finishes:
  assumes "\<forall>(i, st) \<in> set (cp_frames p). \<exists>s. st = Some s \<and> s \<noteq> 0 \<and> s + 1200 \<le> timestamp"
    and "\<forall>i. counter_decimals (cp_elements p i) \<le> 100"
  shows "cp_frames (counter_tick timestamp p) = []"
  using counter_frames_finish [of "cp_frames p" timestamp "p\<lparr>cp_frames := []\<rparr>"] assms by (simp add: counter_tick_def)

subsection \<open>Properties\<close>

text \<open>The copy button settles. Whatever clicks, clipboard promises and timers happen in whatever order, at
  most one reset timer is outstanding, it is outstanding exactly while the button is marked as copied, and
  the texts agree with the mark; when that timer fires the button is back in its idle state.\<close>

theorem copy_button_settles:
  fixes evs
  assumes "copy_ok c"
  defines "c' \<equiv> fold copy_step evs c"
  shows "copy_ok c' \<and>
    (\<forall>i. cb_resetTimer c' = Some i \<longrightarrow>
       \<not> cb_copied (copy_step (CopyTimer i) c') \<and> cb_timers (copy_step (CopyTimer i) c') = [])"
  using copy_steps_ok [OF assms(1), of evs] by (auto simp: c'_def copy_ok_def copy_reset_def)

theorem copy_button_settles_witness:
  "copy_ok (fold copy_step [CopyClick True \<lparr>fe_attach = True, fe_select = True, fe_execCommand = None\<rparr>,
       CopySettled False \<lparr>fe_attach = True, fe_select = True, fe_execCommand = Some True\<rparr>]
     \<lparr>cb_copied = False, cb_hint = Some ''click to copy'', cb_status = Some [], cb_timers = [], cb_resetTimer = None,
      cb_fresh = 1, cb_textareas = 0, cb_promises = 0\<rparr>)"
  by (rule copy_button_settles [THEN conjunct1]) (simp add: copy_ok_def)

text \<open>C26: the counter animation ends with the true value. Let an element ask for at most 100 decimals and let the
  browser call the animation first at some time other than zero and then at any further times, one of
  which is at least 1200 ms after the first. Then no frame throws, the animation stops asking for frames,
  and the element shows exactly what it would show without animation.\<close>

theorem counter_animation_terminates:
  assumes d: "counter_decimals el \<le> 100" and a: "animateCounter False el = Inr a"
    and s: "s \<noteq> 0" and ts: "\<exists>t \<in> set ts. s + 1200 \<le> t"
  shows "\<exists>b. run_frames (s # ts) a = Inr b \<and> \<not> ca_frame b \<and> setCounterValue el = Inr (ca_element b)"
proof -
  let ?a = "a\<lparr>ca_startTime := Some s\<rparr>"
  have f: "ca_frame a" "ca_startTime a = None" "ca_element a = el" using a by (auto simp: animateCounter_def)
  have "run_frames (s # ts) a = run_frames (s # ts) ?a" using f counter_step_first [OF f(2), of s] by simp
  with run_frames_ends [of ?a s "s # ts"] f d s ts show ?thesis by auto
qed

theorem counter_animation_terminates_witness:
  "\<exists>b. run_frames [16, 700, 1300]
         \<lparr>ca_element = \<lparr>ce_target = Some ''99.9'', ce_suffix = Some ''%'', ce_decimals = Some ''1'', ce_text = ''0.0%''\<rparr>,
          ca_startTime = None, ca_frame = True\<rparr> = Inr b \<and> \<not> ca_frame b \<and> ce_text (ca_element b) = ''99.9%''"
proof -
  let ?el = "\<lparr>ce_target = Some ''99.9'', ce_suffix = Some ''%'', ce_decimals = Some ''1'', ce_text = ''0.0%''\<rparr>"
  have d: "counter_decimals ?el \<le> 100" by code_simp
  have v: "setCounterValue ?el = Inr (?el\<lparr>ce_text := ''99.9%''\<rparr>)" by code_simp
  let ?a = "\<lparr>ca_element = ?el, ca_startTime = None, ca_frame = True\<rparr>"
  have "\<exists>b. run_frames (16 # [700, 1300]) ?a = Inr b \<and> \<not> ca_frame b \<and> setCounterValue ?el = Inr (ca_element b)"
    by (rule counter_animation_terminates [OF d]) (simp_all add: animateCounter_def)
  then obtain b where b: "run_frames (16 # [700, 1300]) ?a = Inr b" "\<not> ca_frame b" "setCounterValue ?el = Inr (ca_element b)"
    by blast
  from b(3) v have "ca_element b = ?el\<lparr>ce_text := ''99.9%''\<rparr>" by simp
  with b(1,2) show ?thesis by (intro exI [of _ b]) simp
qed

end
