(* ===== verification/Terminal_Animation.thy ===== *)
theory Terminal_Animation
  imports Varta_Prelude
begin

section \<open>The terminal animation of the landing page (\<open>script.js\<close>)\<close>

text \<open>
  A chain of timers types a command, prints the lines of a watch session and starts over. The timers
  the browser holds, the callbacks waiting for the page to become visible, and the lines on
  screen are one record. A callback is a value that names the function and the run it belongs to:
  each call of \<open>startTerminalSimulation\<close> has its own \<open>charIndex\<close> and \<open>beatIndex\<close>.
  Line positions and colours are not modelled, the HTML of every line is. What \<open>Math.random\<close>
  returns is a parameter.
\<close>

subsection \<open>Lines\<close>

definition quote :: char where "quote = CHR 0x22"

definition span :: "string \<Rightarrow> string \<Rightarrow> string" where
  "span cls s = ''<span class='' @ [quote] @ cls @ [quote] @ ''>'' @ s @ ''</span>''"

text \<open>The prompt line of a run is changed through its two spans; every other line keeps its HTML.\<close>

datatype line =
    PromptLine nat string bool
  | TextLine string bool

definition className :: "bool \<Rightarrow> string" where
  "className isCursorLine = ''terminal-line'' @ (if isCursorLine then '' terminal-line--cursor'' else [])"

fun line_html :: "line \<Rightarrow> string" where
  "line_html (PromptLine r cmd cursor) =
     span ''t-prompt'' ''$'' @ '' '' @ span ''t-cmd'' cmd @ (if cursor then span ''t-cursor'' ''_'' else [])"
| "line_html (TextLine html isCursorLine) = html"

definition command :: string where
  "command = ''varta-watch --socket /tmp/varta.sock --udp-port 9000 --key-file /tmp/varta.key''"

definition commandColored :: string where
  "commandColored =
     span ''t-cmd'' ''varta-watch'' @ '' '' @ span ''t-flag'' ''--socket'' @ '' '' @ span ''t-path'' ''/tmp/varta.sock'' @ '' '' @
     span ''t-flag'' ''--udp-port'' @ '' '' @ span ''t-num'' ''9000'' @ '' '' @ span ''t-flag'' ''--key-file'' @ '' '' @
     span ''t-path'' ''/tmp/varta.key''"

definition listeningHTML :: string where
  "listeningHTML =
     span ''t-info'' ''&bull;'' @ '' listening on '' @ span ''t-path'' ''/tmp/varta.sock'' @ '' &amp; '' @
     span ''t-path'' ''0.0.0.0:9000 (secure UDP)''"

definition beatLine :: "int \<Rightarrow> string" where
  "beatLine ms =
     span ''t-info'' ''&bull;'' @ '' pid '' @ span ''t-num'' ''4821'' @ '' &mdash; status: '' @ span ''t-ok'' ''Ok'' @
     '' &mdash; last beat: '' @ span ''t-num'' (int_string ms @ ''ms'') @ '' ago''"

definition stallHTML :: string where
  "stallHTML =
     span ''t-warn'' ''&bull;'' @ '' pid '' @ span ''t-num'' ''4821'' @ '' &mdash; '' @ span ''t-warn'' ''STALL DETECTED'' @
     '' &mdash; silence: '' @ span ''t-num'' ''2104ms''"

definition recoveryHTML :: string where
  "recoveryHTML = span ''t-warn'' ''&rarr;'' @ '' running recovery: '' @ span ''t-cmd'' ''systemctl restart my-agent''"

definition metricsHTML :: string where
  "metricsHTML = span ''t-info'' ''&bull;'' @ '' metrics &rarr; '' @ span ''t-path'' ''http://127.0.0.1:9100/metrics''"

definition promptHTML :: string where
  "promptHTML = span ''t-prompt'' ''$'' @ '' '' @ span ''t-cursor'' ''_''"

text \<open>\<open>String.prototype.replace\<close> with a string pattern: the first occurrence only.\<close>

fun replace_first :: "string \<Rightarrow> string \<Rightarrow> string \<Rightarrow> string" where
  "replace_first pat rep [] = (if pat = [] then rep else [])"
| "replace_first pat rep (c # s) =
     (if take (length pat) (c # s) = pat then rep @ drop (length pat) (c # s) else c # replace_first pat rep s)"

definition mark_up :: "string \<Rightarrow> string \<Rightarrow> string \<Rightarrow> string" where
  "mark_up cls pat s = replace_first pat (span cls pat) s"

definition colored :: "string \<Rightarrow> string" where
  "colored s =
     mark_up ''t-path'' ''/tmp/varta.key'' (mark_up ''t-num'' ''9000'' (mark_up ''t-path'' ''/tmp/varta.sock''
       (mark_up ''t-flag'' ''--key-file'' (mark_up ''t-flag'' ''--udp-port'' (mark_up ''t-flag'' ''--socket'' s)))))"

definition beatTimings :: "int list" where "beatTimings = [12, 8]"

subsection \<open>Timers\<close>

datatype callback =
    TypeCommand nat | PrintListening nat | StartHeartbeats nat | PrintBeat nat | TriggerStall nat
  | RunRecovery nat | PrintRecoveredBeat nat | PrintMetrics nat | LoopBack nat | LoopBackReduced

record terminal =
  tm_hidden :: bool
  tm_fresh :: nat
  tm_timers :: "(nat \<times> callback \<times> rat) list"
  tm_pendingTimers :: "nat list"
  tm_waiting :: "callback list"
  tm_randoms :: nat
  tm_active :: bool
  tm_output :: "line list"
  tm_run :: nat
  tm_charIndex :: "nat \<Rightarrow> nat"
  tm_beatIndex :: "nat \<Rightarrow> nat"

definition safeTimeout :: "callback \<Rightarrow> rat \<Rightarrow> terminal \<Rightarrow> terminal" where
  "safeTimeout fn delay t =
     (if tm_hidden t then t\<lparr>tm_waiting := tm_waiting t @ [fn]\<rparr>
      else t\<lparr>tm_fresh := Suc (tm_fresh t), tm_timers := tm_timers t @ [(tm_fresh t, fn, delay)],
             tm_pendingTimers := tm_pendingTimers t @ [tm_fresh t]\<rparr>)"

definition clearPendingTimers :: "terminal \<Rightarrow> terminal" where
  "clearPendingTimers t =
     t\<lparr>tm_timers := filter (\<lambda>(i, _). i \<notin> set (tm_pendingTimers t)) (tm_timers t), tm_pendingTimers := []\<rparr>"

definition appendAndScroll :: "string \<Rightarrow> bool \<Rightarrow> terminal \<Rightarrow> terminal" where
  "appendAndScroll html isCursorLine t = t\<lparr>tm_output := tm_output t @ [TextLine html isCursorLine]\<rparr>"

definition random :: "(nat \<Rightarrow> rat) \<Rightarrow> terminal \<Rightarrow> rat \<times> terminal" where
  "random rnd t = (rnd (tm_randoms t), t\<lparr>tm_randoms := Suc (tm_randoms t)\<rparr>)"

definition set_cmd :: "nat \<Rightarrow> string \<Rightarrow> line list \<Rightarrow> line list" where
  "set_cmd r html =
     map (\<lambda>l. case l of PromptLine r' cmd cursor \<Rightarrow> if r' = r then PromptLine r' html cursor else l | _ \<Rightarrow> l)"

definition remove_cursor :: "nat \<Rightarrow> line list \<Rightarrow> line list" where
  "remove_cursor r =
     map (\<lambda>l. case l of PromptLine r' cmd cursor \<Rightarrow> if r' = r then PromptLine r' cmd False else l | _ \<Rightarrow> l)"

subsection \<open>The steps of the animation\<close>

definition typeCommand :: "(nat \<Rightarrow> rat) \<Rightarrow> nat \<Rightarrow> terminal \<Rightarrow> terminal" where
  "typeCommand rnd r t =
     (if \<not> tm_active t then t
      else if tm_charIndex t r < length command
      then let s = take (tm_charIndex t r + 1) command;
               t1 = t\<lparr>tm_output := set_cmd r (colored s) (tm_output t),
                      tm_charIndex := (tm_charIndex t)(r := tm_charIndex t r + 1)\<rparr>;
               (x, t2) = random rnd t1
           in safeTimeout (TypeCommand r) (30 + x * 20) t2
      else safeTimeout (PrintListening r) 400 (t\<lparr>tm_output := remove_cursor r (tm_output t)\<rparr>))"

definition printListening :: "nat \<Rightarrow> terminal \<Rightarrow> terminal" where
  "printListening r t =
     (if \<not> tm_active t then t else safeTimeout (StartHeartbeats r) 600 (appendAndScroll listeningHTML False t))"

definition printBeat :: "(nat \<Rightarrow> rat) \<Rightarrow> nat \<Rightarrow> terminal \<Rightarrow> terminal" where
  "printBeat rnd r t =
     (if \<not> tm_active t then t
      else if tm_beatIndex t r < length beatTimings
      then let t1 = appendAndScroll (beatLine (beatTimings ! tm_beatIndex t r)) False t;
               t2 = t1\<lparr>tm_beatIndex := (tm_beatIndex t1)(r := tm_beatIndex t1 r + 1)\<rparr>;
               (x, t3) = random rnd t2
           in safeTimeout (PrintBeat r) (800 + x * 200) t3
      else safeTimeout (TriggerStall r) 800 t)"

definition startHeartbeats :: "(nat \<Rightarrow> rat) \<Rightarrow> nat \<Rightarrow> terminal \<Rightarrow> terminal" where
  "startHeartbeats rnd r t = (if \<not> tm_active t then t else printBeat rnd r t)"

definition triggerStall :: "nat \<Rightarrow> terminal \<Rightarrow> terminal" where
  "triggerStall r t =
     (if \<not> tm_active t then t else safeTimeout (RunRecovery r) 1200 (appendAndScroll stallHTML False t))"

definition runRecovery :: "nat \<Rightarrow> terminal \<Rightarrow> terminal" where
  "runRecovery r t =
     (if \<not> tm_active t then t else safeTimeout (PrintRecoveredBeat r) 1200 (appendAndScroll recoveryHTML False t))"

definition printRecoveredBeat :: "nat \<Rightarrow> terminal \<Rightarrow> terminal" where
  "printRecoveredBeat r t =
     (if \<not> tm_active t then t else safeTimeout (PrintMetrics r) 800 (appendAndScroll (beatLine 6) False t))"

definition printMetrics :: "nat \<Rightarrow> terminal \<Rightarrow> terminal" where
  "printMetrics r t =
     (if \<not> tm_active t then t
      else safeTimeout (LoopBack r) 5000 (appendAndScroll promptHTML True (appendAndScroll metricsHTML False t)))"

definition reduced_lines :: "(string \<times> bool) list" where
  "reduced_lines =
     [(span ''t-prompt'' ''$'' @ '' '' @ commandColored, False), (listeningHTML, False), (beatLine 12, False),
      (beatLine 8, False), (stallHTML, False), (recoveryHTML, False), (beatLine 6, False), (metricsHTML, False),
      (promptHTML, True)]"

definition startTerminalSimulation :: "bool \<Rightarrow> (nat \<Rightarrow> rat) \<Rightarrow> terminal \<Rightarrow> terminal" where
  "startTerminalSimulation prefersReducedMotion rnd t =
     (if \<not> tm_active t then t
      else let t1 = (clearPendingTimers t)\<lparr>tm_output := []\<rparr>
        in if prefersReducedMotion
           then safeTimeout LoopBackReduced 6000 (fold (\<lambda>(html, c). appendAndScroll html c) reduced_lines t1)
           else let r = tm_run t1 + 1;
                    t2 = t1\<lparr>tm_run := r, tm_output := tm_output t1 @ [PromptLine r [] True],
                            tm_charIndex := (tm_charIndex t1)(r := 0), tm_beatIndex := (tm_beatIndex t1)(r := 0)\<rparr>
                in typeCommand rnd r t2)"

fun run_callback :: "bool \<Rightarrow> (nat \<Rightarrow> rat) \<Rightarrow> callback \<Rightarrow> terminal \<Rightarrow> terminal" where
  "run_callback reduced rnd (TypeCommand r) t = typeCommand rnd r t"
| "run_callback reduced rnd (PrintListening r) t = printListening r t"
| "run_callback reduced rnd (StartHeartbeats r) t = startHeartbeats rnd r t"
| "run_callback reduced rnd (PrintBeat r) t = printBeat rnd r t"
| "run_callback reduced rnd (TriggerStall r) t = triggerStall r t"
| "run_callback reduced rnd (RunRecovery r) t = runRecovery r t"
| "run_callback reduced rnd (PrintRecoveredBeat r) t = printRecoveredBeat r t"
| "run_callback reduced rnd (PrintMetrics r) t = printMetrics r t"
| "run_callback reduced rnd (LoopBack r) t =
     (if \<not> tm_active t then t
      else startTerminalSimulation reduced rnd (t\<lparr>tm_beatIndex := (tm_beatIndex t)(r := 0)\<rparr>))"
| "run_callback reduced rnd LoopBackReduced t =
     (if \<not> tm_active t then t else startTerminalSimulation reduced rnd t)"

subsection \<open>What the browser does\<close>

text \<open>It fires one of its timers, or the page changes its visibility, which runs the waiting callbacks.\<close>

datatype browser_event = TimerFires nat | VisibilityChange bool

definition fire_timer :: "bool \<Rightarrow> (nat \<Rightarrow> rat) \<Rightarrow> nat \<Rightarrow> terminal \<Rightarrow> terminal" where
  "fire_timer reduced rnd i t =
     (case map_of (tm_timers t) i of
        None \<Rightarrow> t
      | Some (fn, delay) \<Rightarrow>
          run_callback reduced rnd fn
            (t\<lparr>tm_timers := filter (\<lambda>(j, _). j \<noteq> i) (tm_timers t),
               tm_pendingTimers := filter (\<lambda>j. j \<noteq> i) (tm_pendingTimers t)\<rparr>))"

definition visibility_change :: "bool \<Rightarrow> terminal \<Rightarrow> terminal" where
  "visibility_change hidden t =
     fold (\<lambda>fn. safeTimeout fn 0) (tm_waiting t) (t\<lparr>tm_hidden := hidden, tm_waiting := []\<rparr>)"

fun terminal_step :: "bool \<Rightarrow> (nat \<Rightarrow> rat) \<Rightarrow> browser_event \<Rightarrow> terminal \<Rightarrow> terminal" where
  "terminal_step reduced rnd (TimerFires i) t = fire_timer reduced rnd i t"
| "terminal_step reduced rnd (VisibilityChange hidden) t = visibility_change hidden t"

definition page_load :: "bool \<Rightarrow> bool \<Rightarrow> (nat \<Rightarrow> rat) \<Rightarrow> terminal" where
  "page_load hidden reduced rnd =
     startTerminalSimulation reduced rnd
       \<lparr>tm_hidden = hidden, tm_fresh = 1, tm_timers = [], tm_pendingTimers = [], tm_waiting = [], tm_randoms = 0,
        tm_active = True, tm_output = [], tm_run = 0, tm_charIndex = (\<lambda>_. 0), tm_beatIndex = (\<lambda>_. 0)\<rparr>"

subsection \<open>The script the animation follows\<close>

text \<open>The abstract machine: a position that advances by one with every timer and wraps around. Position
  \<open>k\<close> fixes the lines on screen and the callback that comes next.\<close>

definition cycle_length :: nat where
  "cycle_length = length command + 9"

definition session :: "line list" where
  "session =
     [TextLine listeningHTML False, TextLine (beatLine 12) False, TextLine (beatLine 8) False, TextLine stallHTML False,
      TextLine recoveryHTML False, TextLine (beatLine 6) False, TextLine metricsHTML False, TextLine promptHTML True]"

definition lines_shown :: "nat \<Rightarrow> nat" where
  "lines_shown j = [0, 1, 2, 3, 3, 4, 5, 6, 8] ! j"

definition screen :: "nat \<Rightarrow> nat \<Rightarrow> line list" where
  "screen r k =
     (if k < length command then [PromptLine r (colored (take (k + 1) command)) True]
      else PromptLine r (colored command) False # take (lines_shown (k - length command)) session)"

definition next_callback :: "nat \<Rightarrow> nat \<Rightarrow> callback" where
  "next_callback r k =
     (if k < length command then TypeCommand r
      else [PrintListening r, StartHeartbeats r, PrintBeat r, PrintBeat r, TriggerStall r, RunRecovery r,
            PrintRecoveredBeat r, PrintMetrics r, LoopBack r] ! (k - length command))"

definition beats_done :: "nat \<Rightarrow> nat" where
  "beats_done k =
     (if k \<le> length command + 1 then 0 else if k = length command + 2 then 1 else 2)"

definition idle :: "terminal \<Rightarrow> bool" where
  "idle t \<longleftrightarrow> tm_timers t = [] \<and> tm_pendingTimers t = [] \<and> tm_waiting t = []"

text \<open>Exactly one callback is outstanding: in a timer of at most five seconds, or waiting for visibility.\<close>

definition one_pending :: "callback \<Rightarrow> terminal \<Rightarrow> bool" where
  "one_pending fn t \<longleftrightarrow>
     (\<exists>i d. tm_timers t = [(i, fn, d)] \<and> tm_pendingTimers t = [i] \<and> tm_waiting t = [] \<and> 0 \<le> d \<and> d \<le> 5000) \<or>
     (tm_timers t = [] \<and> tm_pendingTimers t = [] \<and> tm_waiting t = [fn])"

definition shows_position :: "nat \<Rightarrow> nat \<Rightarrow> terminal \<Rightarrow> bool" where
  "shows_position r k t \<longleftrightarrow>
     tm_active t \<and> tm_run t = r \<and> tm_output t = screen r k \<and>
     tm_charIndex t r = min (k + 1) (length command) \<and> tm_beatIndex t r = beats_done k"

definition at_position :: "nat \<Rightarrow> nat \<Rightarrow> terminal \<Rightarrow> bool" where
  "at_position r k t \<longleftrightarrow> k < cycle_length \<and> shows_position r k t \<and> one_pending (next_callback r k) t"

lemma command_nonempty: "0 < length command"
  by (simp add: command_def)

lemma safeTimeout_simps [simp]:
  "tm_active (safeTimeout fn d t) = tm_active t" "tm_run (safeTimeout fn d t) = tm_run t"
  "tm_output (safeTimeout fn d t) = tm_output t" "tm_charIndex (safeTimeout fn d t) = tm_charIndex t"
  "tm_beatIndex (safeTimeout fn d t) = tm_beatIndex t"
  by (simp_all add: safeTimeout_def)

lemma safeTimeout_pending: "idle t \<Longrightarrow> 0 \<le> d \<Longrightarrow> d \<le> 5000 \<Longrightarrow> one_pending fn (safeTimeout fn d t)"
  by (simp add: idle_def one_pending_def safeTimeout_def)

lemma shows_position_safeTimeout [simp]: "shows_position r k (safeTimeout fn d t) = shows_position r k t"
  by (simp add: shows_position_def)

lemma idle_updates [simp]:
  "idle (t\<lparr>tm_output := ls\<rparr>) = idle t" "idle (t\<lparr>tm_charIndex := c\<rparr>) = idle t" "idle (t\<lparr>tm_beatIndex := b\<rparr>) = idle t"
  "idle (t\<lparr>tm_randoms := n\<rparr>) = idle t" "idle (t\<lparr>tm_run := n\<rparr>) = idle t" "idle (appendAndScroll html e t) = idle t"
  by (simp_all add: idle_def appendAndScroll_def)

text \<open>A callback that has been taken off the timers and schedules its successor.\<close>

lemma scheduled:
  assumes "shows_position r k t" and "idle t" and "k < cycle_length" and "0 \<le> d" and "d \<le> 5000" and "fn = next_callback r k"
  shows "at_position r k (safeTimeout fn d t)"
  using assms by (simp add: at_position_def safeTimeout_pending)

lemma typeCommand_advances:
  assumes s: "shows_position r k t" "idle t" and k: "k < length command" and rnd: "\<forall>n. 0 \<le> rnd n \<and> rnd n < 1"
  shows "at_position r (k + 1) (typeCommand rnd r t)"
proof (cases "k + 1 < length command")
  case True
  let ?t = "t\<lparr>tm_output := set_cmd r (colored (take (k + 2) command)) (tm_output t),
      tm_charIndex := (tm_charIndex t)(r := k + 2), tm_randoms := Suc (tm_randoms t)\<rparr>"
  let ?x = "rnd (tm_randoms t)"
  have "typeCommand rnd r t = safeTimeout (TypeCommand r) (30 + ?x * 20) ?t"
    using s(1) True by (simp add: typeCommand_def shows_position_def random_def Let_def)
  moreover have "shows_position r (k + 1) ?t"
    using s(1) True by (simp add: shows_position_def screen_def set_cmd_def beats_done_def)
  moreover have "0 \<le> ?x" "?x < 1" using rnd by auto
  ultimately show ?thesis
    using s(2) True by (auto intro!: scheduled simp: cycle_length_def next_callback_def)
next
  case False
  with k have n: "k + 1 = length command" by simp
  let ?t = "t\<lparr>tm_output := remove_cursor r (tm_output t)\<rparr>"
  have "typeCommand rnd r t = safeTimeout (PrintListening r) 400 ?t"
    using s(1) n by (simp add: typeCommand_def shows_position_def)
  moreover have "shows_position r (k + 1) ?t"
    using s(1) n by (simp add: shows_position_def screen_def remove_cursor_def beats_done_def lines_shown_def)
  ultimately show ?thesis
    using s(2) n by (auto intro!: scheduled simp: cycle_length_def next_callback_def)
qed

text \<open>The callbacks after the typing, one position each.\<close>

lemma session_advances:
  assumes s: "shows_position r (length command + j) t" "idle t" and j: "j < 8" and rnd: "\<forall>n. 0 \<le> rnd n \<and> rnd n < 1"
  shows "at_position r (length command + Suc j) (run_callback reduced rnd (next_callback r (length command + j)) t)"
proof -
  have x: "0 \<le> rnd (tm_randoms t) * 200" "rnd (tm_randoms t) * 200 \<le> 200"
    using rnd by (auto simp: less_imp_le)
  note defs = shows_position_def screen_def lines_shown_def next_callback_def beats_done_def session_def
    appendAndScroll_def cycle_length_def
  note steps = printListening_def startHeartbeats_def printBeat_def triggerStall_def runRecovery_def
    printRecoveredBeat_def printMetrics_def random_def beatTimings_def
  consider "j = 0" | "j = 1" | "j = 2" | "j = 3" | "j = 4" | "j = 5" | "j = 6" | "j = 7" using j by linarith
  then show ?thesis
    using s x by cases (simp_all add: defs steps Let_def, (rule scheduled; auto simp: defs)+)
qed

lemma start_advances:
  assumes "tm_active t" and "idle t" and rnd: "\<forall>n. 0 \<le> rnd n \<and> rnd n < 1"
  shows "at_position (Suc (tm_run t)) 0 (startTerminalSimulation False rnd t)"
proof -
  let ?r = "Suc (tm_run t)" and ?x = "rnd (tm_randoms t)"
  let ?t = "(clearPendingTimers t)\<lparr>tm_run := ?r, tm_beatIndex := (tm_beatIndex t)(?r := 0),
      tm_output := [PromptLine ?r (colored (take 1 command)) True], tm_charIndex := (tm_charIndex t)(?r := 1),
      tm_randoms := Suc (tm_randoms t)\<rparr>"
  have "startTerminalSimulation False rnd t = safeTimeout (TypeCommand ?r) (30 + ?x * 20) ?t"
    using assms(1) command_nonempty
    by (simp add: startTerminalSimulation_def typeCommand_def clearPendingTimers_def set_cmd_def random_def Let_def)
  moreover have "idle ?t" using assms(2) by (simp add: idle_def clearPendingTimers_def)
  moreover have "shows_position ?r 0 ?t"
    using assms(1) command_nonempty
    by (simp add: shows_position_def clearPendingTimers_def screen_def beats_done_def min_def Suc_le_eq)
  moreover have "0 \<le> ?x" "?x < 1" using rnd by auto
  ultimately show ?thesis
    using command_nonempty by (auto intro!: scheduled simp: cycle_length_def next_callback_def)
qed

text \<open>Every timer that fires moves the script one position on.\<close>

lemma callback_advances:
  assumes s: "shows_position r k t" "idle t" and k: "k < cycle_length" and rnd: "\<forall>n. 0 \<le> rnd n \<and> rnd n < 1"
  shows "\<exists>r'. at_position r' (Suc k mod cycle_length) (run_callback False rnd (next_callback r k) t)"
proof -
  have "k < length command \<or> (\<exists>j. k = length command + j \<and> j < 8) \<or> k = length command + 8"
    using k le_Suc_ex [of "length command" k] by (fastforce simp: cycle_length_def)
  then consider "k < length command" | j where "k = length command + j" "j < 8" | "k = length command + 8" by blast
  then show ?thesis
  proof cases
    case 1
    with typeCommand_advances [OF s 1 rnd] show ?thesis
      by (auto simp: next_callback_def cycle_length_def)
  next
    case (2 j)
    with session_advances [of r j t rnd False] s rnd show ?thesis by (auto simp: cycle_length_def)
  next
    case 3
    then have "next_callback r k = LoopBack r" by (simp add: next_callback_def)
    moreover have "Suc k = cycle_length" using 3 by (simp add: cycle_length_def)
    then have "Suc k mod cycle_length = 0" by simp
    moreover have "tm_active t" using s(1) by (simp add: shows_position_def)
    ultimately show ?thesis
      using start_advances [of "t\<lparr>tm_beatIndex := (tm_beatIndex t)(r := 0)\<rparr>" rnd] s(2) rnd by auto
  qed
qed

text \<open>How many timers an event sequence really fires.\<close>

fun firings :: "bool \<Rightarrow> (nat \<Rightarrow> rat) \<Rightarrow> browser_event list \<Rightarrow> terminal \<Rightarrow> nat" where
  "firings reduced rnd [] t = 0"
| "firings reduced rnd (ev # evs) t =
     (case ev of TimerFires i \<Rightarrow> if i \<in> fst ` set (tm_timers t) then 1 else 0 | VisibilityChange h \<Rightarrow> 0) +
     firings reduced rnd evs (terminal_step reduced rnd ev t)"

lemma shows_position_timers [simp]:
  "shows_position r k (t\<lparr>tm_timers := a\<rparr>) = shows_position r k t"
  "shows_position r k (t\<lparr>tm_pendingTimers := b\<rparr>) = shows_position r k t"
  "shows_position r k (t\<lparr>tm_waiting := c\<rparr>) = shows_position r k t"
  "shows_position r k (t\<lparr>tm_hidden := h\<rparr>) = shows_position r k t"
  by (simp_all add: shows_position_def)

lemma step_advances:
  assumes p: "at_position r k t" and rnd: "\<forall>n. 0 \<le> rnd n \<and> rnd n < 1"
  shows "\<exists>r'. at_position r' ((k + firings False rnd [ev] t) mod cycle_length) (terminal_step False rnd ev t)"
proof -
  let ?fn = "next_callback r k"
  have s: "shows_position r k t" and k: "k < cycle_length" and o: "one_pending ?fn t" using p by (simp_all add: at_position_def)
  show ?thesis
  proof (cases ev)
    case (TimerFires i)
    show ?thesis
    proof (cases "i \<in> fst ` set (tm_timers t)")
      case True
      then obtain d where t: "tm_timers t = [(i, ?fn, d)]" "tm_pendingTimers t = [i]" "tm_waiting t = []"
        using o by (auto simp: one_pending_def)
      let ?t = "t\<lparr>tm_timers := [], tm_pendingTimers := []\<rparr>"
      have "terminal_step False rnd ev t = run_callback False rnd ?fn ?t" using TimerFires t by (simp add: fire_timer_def)
      moreover have "idle ?t" using t by (simp add: idle_def)
      ultimately show ?thesis
        using callback_advances [of r k ?t rnd] s k rnd TimerFires True by simp
    next
      case False
      then have "map_of (tm_timers t) i = None" by (simp add: map_of_eq_None_iff)
      with TimerFires False p k show ?thesis by (auto simp: fire_timer_def)
    qed
  next
    case (VisibilityChange h)
    from o have "at_position r k (visibility_change h t)"
      unfolding one_pending_def
    proof (elim disjE exE conjE)
      fix i d assume t: "tm_timers t = [(i, ?fn, d)]" "tm_pendingTimers t = [i]" "tm_waiting t = []" "0 \<le> d" "d \<le> 5000"
      then show ?thesis
        using s k by (simp add: visibility_change_def at_position_def one_pending_def)
    next
      assume t: "tm_timers t = []" "tm_pendingTimers t = []" "tm_waiting t = [?fn]"
      then show ?thesis
        using s k by (auto simp: visibility_change_def idle_def intro!: scheduled)
    qed
    with VisibilityChange k show ?thesis by auto
  qed
qed

lemma steps_advance:
  assumes "at_position r k t" and "\<forall>n. 0 \<le> rnd n \<and> rnd n < 1"
  shows "\<exists>r'. at_position r' ((k + firings False rnd evs t) mod cycle_length) (fold (terminal_step False rnd) evs t)"
  using assms(1)
proof (induction evs arbitrary: r k t)
  case Nil
  then show ?case by (auto simp: at_position_def)
next
  case (Cons ev evs)
  obtain r' where "at_position r' ((k + firings False rnd [ev] t) mod cycle_length) (terminal_step False rnd ev t)"
    using step_advances [OF Cons.prems assms(2)] by blast
  from Cons.IH [OF this] show ?case by (simp add: mod_add_left_eq add.assoc)
qed

lemma page_load_position:
  "\<forall>n. 0 \<le> rnd n \<and> rnd n < 1 \<Longrightarrow> at_position 1 0 (page_load h False rnd)"
  unfolding page_load_def
  using start_advances [of "\<lparr>tm_hidden = h, tm_fresh = 1, tm_timers = [], tm_pendingTimers = [], tm_waiting = [], tm_randoms = 0,
    tm_active = True, tm_output = [], tm_run = 0, tm_charIndex = (\<lambda>_. 0), tm_beatIndex = (\<lambda>_. 0)\<rparr>" rnd]
  by (simp add: idle_def)

subsection \<open>Reduced motion\<close>

lemma fold_append_lines:
  "fold (\<lambda>(html, c). appendAndScroll html c) ls t = t\<lparr>tm_output := tm_output t @ map (\<lambda>(html, c). TextLine html c) ls\<rparr>"
  by (induction ls arbitrary: t) (auto simp: appendAndScroll_def)

lemma same_session: "map line_html (tl (screen r (cycle_length - 1))) = map fst (tl reduced_lines)"
  by (simp add: screen_def cycle_length_def lines_shown_def session_def reduced_lines_def)

lemma page_load_reduced:
  "tm_output (page_load h True rnd) = map (\<lambda>(html, c). TextLine html c) reduced_lines"
  by (simp add: page_load_def startTerminalSimulation_def fold_append_lines clearPendingTimers_def Let_def)

subsection \<open>Properties\<close>

text \<open>C25: the animation follows its script forever. Whatever order of timers and visibility changes the browser
  produces, the screen shows the position of the script that the number of timers fired so far
  determines, modulo the length of one cycle, and exactly one callback is outstanding, in a timer of at
  most five seconds or waiting for the page to become visible, so the animation neither stops nor
  doubles. The last screen of a cycle shows, below the command, the lines of the display for reduced motion.\<close>

theorem terminal_refines_script:
  fixes hidden
  assumes "\<forall>n. 0 \<le> rnd n \<and> rnd n < 1"
  defines "t0 \<equiv> page_load hidden False rnd"
  shows "(\<exists>r. let t = fold (terminal_step False rnd) evs t0; k = firings False rnd evs t0 mod cycle_length
      in tm_output t = screen r k \<and> one_pending (next_callback r k) t) \<and>
    map line_html (tl (screen r' (cycle_length - 1))) = map line_html (tl (tm_output (page_load hidden True rnd)))"
proof -
  obtain r where "at_position r ((0 + firings False rnd evs t0) mod cycle_length) (fold (terminal_step False rnd) evs t0)"
    unfolding t0_def using steps_advance [OF page_load_position [OF assms(1)] assms(1)] by blast
  moreover have "map line_html (tl (tm_output (page_load hidden True rnd))) = map fst (tl reduced_lines)"
    by (simp add: page_load_reduced reduced_lines_def)
  ultimately show ?thesis
    by (auto simp only: at_position_def shows_position_def same_session Let_def add_0)
qed

theorem terminal_refines_script_witness:
  "\<exists>r. one_pending (next_callback r 0) (page_load True False (\<lambda>_. 0)) \<and> tm_output (page_load True False (\<lambda>_. 0)) = screen r 0"
  using terminal_refines_script [of "\<lambda>_. 0" "[]" True] by (auto simp: Let_def)

end
