(* ===== verification/Web_Text.thy ===== *)
theory Web_Text
  imports Varta_Prelude "HOL-Library.Sublist"
begin

section \<open>String operations of the page scripts\<close>

text \<open>
  What the scripts of the site use of JavaScript strings beyond the prelude: \<open>split\<close> and \<open>join\<close>,
  \<open>substring\<close>, \<open>trim\<close>, replacing a first occurrence, and the two URI component functions. The laws
  proved here are the ones that the parsers and printers of the site rest on: joining the parts of a split gives
  the string back, splitting a join gives the parts back when none of them contains the separator, and
  decoding inverts encoding.
\<close>

subsection \<open>Splitting and joining\<close>

fun js_split :: "string \<Rightarrow> string \<Rightarrow> string list" where
  "js_split sep [] = [[]]"
| "js_split sep (c # s) =
     (if sep \<noteq> [] \<and> prefix sep (c # s) then [] # js_split sep (drop (length sep - 1) s)
      else (case js_split sep s of [] \<Rightarrow> [[c]] | w # ws \<Rightarrow> (c # w) # ws))"

fun js_join :: "string \<Rightarrow> string list \<Rightarrow> string" where
  "js_join sep [] = []"
| "js_join sep [w] = w"
| "js_join sep (w # v # ws) = w @ sep @ js_join sep (v # ws)"

definition substring :: "string \<Rightarrow> nat \<Rightarrow> nat \<Rightarrow> string" where
  "substring s a b = take (max a b - min a b) (drop (min a b) s)"

definition js_trim :: "string \<Rightarrow> string" where
  "js_trim s = rev (dropWhile js_space (rev (dropWhile js_space s)))"

lemma js_trim_last: "js_trim s \<noteq> [] \<Longrightarrow> \<not> js_space (last (js_trim s))"
proof -
  assume ne: "js_trim s \<noteq> []"
  then have "dropWhile js_space (rev (dropWhile js_space s)) \<noteq> []" by (simp add: js_trim_def)
  from hd_dropWhile [OF this] show ?thesis using ne by (simp add: js_trim_def last_rev)
qed

lemma js_split_nonempty [simp]: "js_split sep s \<noteq> []"
  by (cases s) (simp_all split: list.split)

lemma js_join_Cons: "js_join sep (w # ws) = (if ws = [] then w else w @ sep @ js_join sep ws)"
  by (cases ws) simp_all

lemma js_join_split [simp]: "js_join sep (js_split sep s) = s"
proof (induction sep s rule: js_split.induct)
  case (2 sep c s)
  show ?case
  proof (cases "sep \<noteq> [] \<and> prefix sep (c # s)")
    case True
    then obtain t where "c # s = sep @ t" by (auto simp: prefix_def)
    with True have "sep @ drop (length sep - 1) s = c # s" by (cases sep) auto
    with True 2(1) show ?thesis by (simp add: js_join_Cons)
  next
    case False
    obtain w ws where "js_split sep s = w # ws" by (cases "js_split sep s") auto
    with 2(2) [OF False] have "c # js_join sep (w # ws) = c # s" by simp
    moreover have "js_split sep (c # s) = (c # w) # ws" using False \<open>js_split sep s = w # ws\<close> by auto
    ultimately show ?thesis by (simp add: js_join_Cons split: if_splits)
  qed
qed simp

text \<open>A separator of one character.\<close>

lemma js_split_char_append:
  "c \<notin> set u \<Longrightarrow> js_split [c] (u @ c # v) = u # js_split [c] v"
  by (induction u) auto

lemma js_split_char_none: "c \<notin> set u \<Longrightarrow> js_split [c] u = [u]"
  by (induction u) auto

lemma js_split_join:
  assumes "ws \<noteq> []" and "\<forall>w \<in> set ws. c \<notin> set w"
  shows "js_split [c] (js_join [c] ws) = ws"
  using assms by (induction "[c]" ws rule: js_join.induct) (auto simp: js_split_char_append js_split_char_none)

lemma js_split_char_parts: "w \<in> set (js_split [c] s) \<Longrightarrow> c \<notin> set w"
  by (induction "[c]" s arbitrary: w rule: js_split.induct) (auto split: list.splits if_splits)

lemma js_split_empty_part: "[] \<in> set (tl (js_split [c] (u @ [c, c] @ v)))"
proof (induction u)
  case (Cons a u)
  then show ?case by (auto dest: list.set_sel(2) [rotated] split: list.splits)
qed simp

lemma set_js_join: "set (js_join sep ws) \<subseteq> (\<Union>w \<in> set ws. set w) \<union> set sep"
  by (induction sep ws rule: js_join.induct) auto

lemma js_split_chars: "w \<in> set (js_split sep s) \<Longrightarrow> set w \<subseteq> set s"
proof (induction sep s arbitrary: w rule: js_split.induct)
  case (2 sep c s)
  show ?case
  proof (cases "sep \<noteq> [] \<and> prefix sep (c # s)")
    case True
    with 2(1) [OF True] 2(3) show ?thesis using set_drop_subset [of "length sep - 1" s] by auto
  next
    case False
    obtain v vs where v: "js_split sep s = v # vs" by (cases "js_split sep s") auto
    have "js_split sep (c # s) = (c # v) # vs" using False v by auto
    with 2(3) have "w = c # v \<or> w \<in> set vs" by simp
    moreover have "set v \<subseteq> set s" "w \<in> set vs \<Longrightarrow> set w \<subseteq> set s" using 2(2) [OF False] v by auto
    ultimately show ?thesis by auto
  qed
qed simp

lemma substring_le: "a \<le> b \<Longrightarrow> substring s a b = take (b - a) (drop a s)"
  by (simp add: substring_def)

lemma substring_append: "a \<le> b \<Longrightarrow> b \<le> c \<Longrightarrow> substring s a b @ substring s b c = substring s a c"
proof -
  assume "a \<le> b" "b \<le> c"
  then have "take (c - a) (drop a s) = take (b - a) (drop a s) @ take (c - b) (drop b s)"
    using take_add [of "b - a" "c - b" "drop a s"] by simp
  then show ?thesis using \<open>a \<le> b\<close> \<open>b \<le> c\<close> by (simp add: substring_le)
qed

lemma substring_sublist: "sublist (substring s a b) s"
  unfolding substring_def by (rule sublist_order.order.trans [OF sublist_take sublist_drop])

lemma set_substring: "set (substring s a b) \<subseteq> set s"
  using substring_sublist [of s a b] by (rule set_mono_sublist)

subsection \<open>URI components\<close>

text \<open>Characters are Latin-1, so an escape has one octet below 128 and the two octets of UTF-8 otherwise. Longer UTF-8
  sequences decode to characters that the model does not have and are treated like malformed ones.\<close>

definition new_URIError :: js_error where
  "new_URIError = \<lparr>e_name = ''URIError'', e_message = ''URI malformed'', e_code = None, e_errno = None\<rparr>"

definition upper_hex :: "nat \<Rightarrow> char" where
  "upper_hex d = (if d < 10 then char_of (48 + d) else char_of (55 + d))"

definition hex_digit :: "char \<Rightarrow> nat option" where
  "hex_digit c =
     (let n = of_char c :: nat
      in if 48 \<le> n \<and> n \<le> 57 then Some (n - 48) else if 65 \<le> n \<and> n \<le> 70 then Some (n - 55)
         else if 97 \<le> n \<and> n \<le> 102 then Some (n - 87) else None)"

definition percent :: "nat \<Rightarrow> string" where
  "percent n = [CHR ''%'', upper_hex (n div 16), upper_hex (n mod 16)]"

definition utf8_percent :: "char \<Rightarrow> string" where
  "utf8_percent c =
     (let n = of_char c :: nat in if n < 128 then percent n else percent (192 + n div 64) @ percent (128 + n mod 64))"

definition uri_unreserved :: "char \<Rightarrow> bool" where
  "uri_unreserved c \<longleftrightarrow>
     (let n = of_char c :: nat
      in 48 \<le> n \<and> n \<le> 57 \<or> 65 \<le> n \<and> n \<le> 90 \<or> 97 \<le> n \<and> n \<le> 122 \<or> n \<in> {45, 95, 46, 33, 126, 42, 39, 40, 41})"

definition encodeURIComponent :: "string \<Rightarrow> string" where
  "encodeURIComponent s = concat (map (\<lambda>c. if uri_unreserved c then [c] else utf8_percent c) s)"

definition read_percent :: "string \<Rightarrow> (nat \<times> string) option" where
  "read_percent s =
     (case s of
        p # a # b # r \<Rightarrow>
          (case (hex_digit a, hex_digit b) of
             (Some x, Some y) \<Rightarrow> if p = CHR ''%'' then Some (16 * x + y, r) else None
           | _ \<Rightarrow> None)
      | _ \<Rightarrow> None)"

lemma read_percent_shorter: "read_percent s = Some (n, r) \<Longrightarrow> length r < length s"
  by (auto simp: read_percent_def split: list.splits option.splits if_splits)

function decodeURIComponent :: "string \<Rightarrow> js_error + string" where
  "decodeURIComponent [] = Inr []"
| "decodeURIComponent (c # s) =
     (if c \<noteq> CHR ''%'' then js_bind (decodeURIComponent s) (\<lambda>u. Inr (c # u))
      else (case read_percent (c # s) of
              None \<Rightarrow> Inl new_URIError
            | Some (n, r) \<Rightarrow>
                if n < 128 then js_bind (decodeURIComponent r) (\<lambda>u. Inr (char_of n # u))
                else (case read_percent r of
                        None \<Rightarrow> Inl new_URIError
                      | Some (m, r') \<Rightarrow>
                          if n \<in> {194, 195} \<and> 128 \<le> m \<and> m < 192
                          then js_bind (decodeURIComponent r') (\<lambda>u. Inr (char_of ((n - 192) * 64 + (m - 128)) # u))
                          else Inl new_URIError)))"
  by pat_completeness auto
termination
  by (relation "measure length") (auto dest!: read_percent_shorter)

lemma hex_digit_upper: "d < 16 \<Longrightarrow> hex_digit (upper_hex d) = Some d"
  by (auto simp: hex_digit_def upper_hex_def of_char_of)

lemma read_percent_percent [simp]: "n < 256 \<Longrightarrow> read_percent (percent n @ r) = Some (n, r)"
  by (simp add: read_percent_def percent_def hex_digit_upper)

lemma of_char_less: "(of_char c :: nat) < 256"
  by simp

lemma decode_percent:
  "n < 128 \<Longrightarrow> decodeURIComponent (percent n @ r) = js_bind (decodeURIComponent r) (\<lambda>u. Inr (char_of n # u))"
  using read_percent_percent [of n r] by (simp add: percent_def)

lemma decode_utf8_percent:
  "decodeURIComponent (utf8_percent c @ r) = js_bind (decodeURIComponent r) (\<lambda>u. Inr (c # u))"
proof (cases "(of_char c :: nat) < 128")
  case True
  then show ?thesis by (simp add: utf8_percent_def Let_def decode_percent)
next
  case False
  let ?n = "of_char c :: nat"
  let ?a = "192 + ?n div 64" and ?b = "128 + ?n mod 64"
  have "k div 64 = 2 \<or> k div 64 = 3" if "\<not> k < 128" "k < 256" for k :: nat using that by linarith
  from this [OF False of_char_less] have n: "?n div 64 = 2 \<or> ?n div 64 = 3" .
  then have h: "?a \<in> {194, 195}" "?b < 192" "?a < 256" "?b < 256" "(?a - 192) * 64 + (?b - 128) = ?n"
    using False by auto
  then have "char_of ((?a - 192) * 64 + (?b - 128)) = c" by simp
  moreover have "decodeURIComponent (percent ?a @ percent ?b @ r) =
      js_bind (decodeURIComponent r) (\<lambda>u. Inr (char_of ((?a - 192) * 64 + (?b - 128)) # u))"
    using read_percent_percent [OF h(3), of "percent ?b @ r"] read_percent_percent [OF h(4), of r] h(1,2)
    by (simp add: percent_def del: read_percent_percent)
  ultimately show ?thesis using False by (simp add: utf8_percent_def Let_def)
qed

text \<open>Any printer that escapes some characters, the percent sign among them, is inverted by decoding.\<close>

lemma decode_escaped:
  assumes "\<not> keep (CHR ''%'')"
  shows "decodeURIComponent (concat (map (\<lambda>c. if keep c then [c] else utf8_percent c) s)) = Inr s"
proof (induction s)
  case (Cons c s)
  with assms show ?case by (auto simp: decode_utf8_percent js_bind_def)
qed simp

lemma decode_encodeURIComponent: "decodeURIComponent (encodeURIComponent s) = Inr s"
  unfolding encodeURIComponent_def by (rule decode_escaped) (simp add: uri_unreserved_def)

text \<open>The characters of an escape.\<close>

definition escape_chars :: string where "escape_chars = ''%0123456789ABCDEF''"

lemma upper_hex_escape: "d < 16 \<Longrightarrow> upper_hex d \<in> set escape_chars"
proof -
  have "list_all (\<lambda>d. upper_hex d \<in> set escape_chars) [0..<16]" by code_simp
  then show "d < 16 \<Longrightarrow> upper_hex d \<in> set escape_chars" by (simp add: list_all_iff)
qed

lemma set_percent: "n < 256 \<Longrightarrow> set (percent n) \<subseteq> set escape_chars"
proof -
  assume "n < 256"
  then have "n div 16 < 16" "n mod 16 < 16" by linarith+
  moreover have "CHR ''%'' \<in> set escape_chars" by (simp add: escape_chars_def)
  ultimately show ?thesis using upper_hex_escape by (simp add: percent_def)
qed

lemma set_utf8_percent: "set (utf8_percent c) \<subseteq> set escape_chars"
proof (cases "(of_char c :: nat) < 128")
  case True
  then show ?thesis using set_percent [of "of_char c"] by (simp add: utf8_percent_def Let_def)
next
  case False
  have "k div 64 < 64" if "k < 256" for k :: nat using that by linarith
  from this [OF of_char_less [of c]] have "192 + (of_char c :: nat) div 64 < 256" by simp
  moreover have "128 + (of_char c :: nat) mod 64 < 256" by (simp add: less_trans [OF mod_less_divisor])
  ultimately show ?thesis using False set_percent by (simp add: utf8_percent_def Let_def)
qed

definition percent_encode :: "(char \<Rightarrow> bool) \<Rightarrow> string \<Rightarrow> string" where
  "percent_encode keep s = concat (map (\<lambda>c. if keep c then [c] else utf8_percent c) s)"

lemma percent_encode_simps [simp]:
  "percent_encode keep [] = []"
  "percent_encode keep (u @ v) = percent_encode keep u @ percent_encode keep v"
  by (simp_all add: percent_encode_def)

lemma percent_encode_Cons: "percent_encode keep (c # s) = (if keep c then [c] else utf8_percent c) @ percent_encode keep s"
  by (simp add: percent_encode_def)

lemma percent_encode_id: "list_all keep s \<Longrightarrow> percent_encode keep s = s"
  by (induction s) (auto simp: percent_encode_Cons)

lemma percent_encode_nonempty: "s \<noteq> [] \<Longrightarrow> percent_encode keep s \<noteq> []"
  by (cases s) (auto simp: percent_encode_Cons utf8_percent_def percent_def Let_def)

lemma percent_encode_all:
  assumes "\<And>c. c \<in> set escape_chars \<Longrightarrow> P c" and "\<And>c. c \<in> set s \<Longrightarrow> keep c \<Longrightarrow> P c"
  shows "list_all P (percent_encode keep s)"
  using assms(2)
proof (induction s)
  case (Cons c s)
  have "list_all P (utf8_percent c)" using set_utf8_percent [of c] assms(1) by (auto simp: list_all_iff)
  with Cons show ?case by (simp add: percent_encode_Cons)
qed simp

lemma percent_encode_cong: "(\<And>c. c \<in> set s \<Longrightarrow> keep c = keep' c) \<Longrightarrow> percent_encode keep s = percent_encode keep' s"
  unfolding percent_encode_def by (intro arg_cong [where f = concat] map_cong) auto

lemma decode_percent_encode:
  assumes "\<not> keep (CHR ''%'') \<or> CHR ''%'' \<notin> set s"
  shows "decodeURIComponent (percent_encode keep s) = Inr s"
proof -
  let ?keep = "\<lambda>c. keep c \<and> c \<noteq> CHR ''%''"
  have "percent_encode keep s = percent_encode ?keep s" using assms by (intro percent_encode_cong) auto
  moreover have "decodeURIComponent (percent_encode ?keep s) = Inr s" unfolding percent_encode_def by (rule decode_escaped) simp
  ultimately show ?thesis by simp
qed

lemma percent_encode_join:
  assumes "list_all keep sep"
  shows "percent_encode keep (js_join sep ws) = js_join sep (map (percent_encode keep) ws)"
  using assms by (induction sep ws rule: js_join.induct) (simp_all add: percent_encode_id)

end
