(* ===== verification/Search_Teaser.thy ===== *)
theory Search_Teaser
  imports Web_Text
begin

section \<open>Search results of the book (\<open>searcher.js\<close>)\<close>

text \<open>
  How a search result is printed: \<open>escapeHTML\<close>, the result counter, and \<open>makeTeaser\<close>, which weighs the
  words of a page, slides a window over them, takes the last of the heaviest windows and marks the search terms in
  it. The stemmer of the third-party index is a parameter. The lemmas relate the loops to a direct
  definition of the weights and show that a teaser is an excerpt of the page with nothing added but the marks.
\<close>

subsection \<open>Escaping\<close>

definition escape_char :: "char \<Rightarrow> string" where
  "escape_char c =
     (if c = CHR ''&'' then ''&amp;'' else if c = CHR ''<'' then ''&lt;'' else if c = CHR ''>'' then ''&gt;''
      else if c = CHR 0x22 then ''&#34;'' else if c = CHR 0x27 then ''&#39;'' else [c])"

definition escapeHTML :: "string \<Rightarrow> string" where
  "escapeHTML s = concat (map escape_char s)"

lemma escapeHTML_safe: "set (escapeHTML s) \<inter> {CHR ''<'', CHR ''>'', CHR 0x22, CHR 0x27} = {}"
  by (induction s) (auto simp: escapeHTML_def escape_char_def split: if_splits)

definition formatSearchMetric :: "nat \<Rightarrow> string \<Rightarrow> string" where
  "formatSearchMetric count searchterm =
     (if count = 1 then int_string (int count) @ '' search result for '' @ [CHR 0x27] @ searchterm @ [CHR 0x27] @ '':''
      else if count = 0 then ''No search results for '' @ [CHR 0x27] @ searchterm @ [CHR 0x27] @ ''.''
      else int_string (int count) @ '' search results for '' @ [CHR 0x27] @ searchterm @ [CHR 0x27] @ '':'')"

subsection \<open>Weighing the words\<close>

type_synonym weighted_word = "string \<times> int \<times> nat"

abbreviation word_of :: "weighted_word \<Rightarrow> string" where "word_of \<equiv> fst"
abbreviation weight_of :: "weighted_word \<Rightarrow> int" where "weight_of w \<equiv> fst (snd w)"
abbreviation index_of :: "weighted_word \<Rightarrow> nat" where "index_of w \<equiv> snd (snd w)"

definition searchterm_weight :: int where "searchterm_weight = 40"

record teaser_scan =
  ts_weighted :: "weighted_word list"
  ts_index :: nat
  ts_value :: int
  ts_found :: bool

definition scan_term :: "(string \<Rightarrow> string) \<Rightarrow> string \<Rightarrow> string \<Rightarrow> teaser_scan \<Rightarrow> teaser_scan" where
  "scan_term stemmer word stemmed sc =
     (if prefix stemmed (stemmer word) then sc\<lparr>ts_value := searchterm_weight, ts_found := True\<rparr> else sc)"

definition scan_word :: "(string \<Rightarrow> string) \<Rightarrow> string list \<Rightarrow> string \<Rightarrow> teaser_scan \<Rightarrow> teaser_scan" where
  "scan_word stemmer stemmed_searchterms word sc =
     (let sc1 = (if length word > 0
                 then let sc0 = fold (scan_term stemmer word) stemmed_searchterms sc
                      in sc0\<lparr>ts_weighted := ts_weighted sc0 @ [(word, ts_value sc0, ts_index sc0)], ts_value := 2\<rparr>
                 else sc)
      in sc1\<lparr>ts_index := ts_index sc1 + length word + 1\<rparr>)"

definition scan_sentence :: "(string \<Rightarrow> string) \<Rightarrow> string list \<Rightarrow> string \<Rightarrow> teaser_scan \<Rightarrow> teaser_scan" where
  "scan_sentence stemmer stemmed_searchterms sentence sc =
     (let sc1 = fold (scan_word stemmer stemmed_searchterms) (js_split '' '' sentence) (sc\<lparr>ts_value := 8\<rparr>)
      in sc1\<lparr>ts_index := ts_index sc1 + 1\<rparr>)"

definition scan_body :: "(string \<Rightarrow> string) \<Rightarrow> string \<Rightarrow> string list \<Rightarrow> teaser_scan" where
  "scan_body stemmer body searchterms =
     fold (scan_sentence stemmer (map (\<lambda>w. stemmer (toLowerCase w)) searchterms)) (js_split ''. '' (toLowerCase body))
       \<lparr>ts_weighted = [], ts_index = 0, ts_value = 0, ts_found = False\<rparr>"

subsection \<open>The window\<close>

definition window_weights :: "weighted_word list \<Rightarrow> nat \<Rightarrow> int list" where
  "window_weights weighted window_size =
     (let cur_sum = fold (\<lambda>i s. s + weight_of (weighted ! i)) [0..<window_size] 0
      in snd (fold (\<lambda>i (cur, ws).
                  let cur1 = cur - weight_of (weighted ! i) + weight_of (weighted ! (i + window_size))
                  in (cur1, ws @ [cur1]))
            [0..<length weighted - window_size] (cur_sum, [cur_sum])))"

definition max_sum_window_index :: "bool \<Rightarrow> int list \<Rightarrow> nat" where
  "max_sum_window_index searchterm_found window_weight =
     (if searchterm_found
      then snd (fold (\<lambda>i (max_sum, idx). if window_weight ! i > max_sum then (window_weight ! i, i) else (max_sum, idx))
                 (rev [0..<length window_weight]) (0, 0))
      else 0)"

definition mark_word :: "string \<Rightarrow> weighted_word \<Rightarrow> nat \<times> string list \<Rightarrow> nat \<times> string list" where
  "mark_word body word = (\<lambda>(index, teaser_split).
     let sp1 = (if index < index_of word then teaser_split @ [substring body index (index_of word)] else teaser_split);
         sp2 = (if weight_of word = searchterm_weight then sp1 @ [''<em>''] else sp1);
         index1 = index_of word + length (word_of word);
         sp3 = sp2 @ [substring body (index_of word) index1];
         sp4 = (if weight_of word = searchterm_weight then sp3 @ [''</em>''] else sp3)
     in (index1, sp4))"

definition makeTeaser :: "(string \<Rightarrow> string) \<Rightarrow> nat \<Rightarrow> string \<Rightarrow> string list \<Rightarrow> string" where
  "makeTeaser stemmer teaser_word_count body searchterms =
     (let sc = scan_body stemmer body searchterms;
          weighted = ts_weighted sc;
          window_size = min (length weighted) teaser_word_count;
          m = max_sum_window_index (ts_found sc) (window_weights weighted window_size)
      in if length weighted = 0 then body
         else concat (snd (fold (\<lambda>i. mark_word body (weighted ! i)) [m..<m + window_size] (index_of (weighted ! m), []))))"

subsection \<open>Words and their places\<close>

text \<open>What the scan collects: non-empty words of the lower-cased page at their true places, in order and without overlap.\<close>

definition placed :: "string \<Rightarrow> weighted_word list \<Rightarrow> bool" where
  "placed page ws \<longleftrightarrow>
     (\<forall>w \<in> set ws. word_of w \<noteq> [] \<and> (\<exists>rest. drop (index_of w) page = word_of w @ rest)) \<and>
     sorted_wrt (\<lambda>v w. index_of v + length (word_of v) \<le> index_of w) ws"

definition scan_ok :: "string \<Rightarrow> teaser_scan \<Rightarrow> bool" where
  "scan_ok page sc \<longleftrightarrow>
     placed page (ts_weighted sc) \<and> (\<forall>w \<in> set (ts_weighted sc). index_of w + length (word_of w) \<le> ts_index sc)"

lemma fold_scan_term:
  "fold (scan_term stemmer word) terms sc =
     (if \<exists>t \<in> set terms. prefix t (stemmer word) then sc\<lparr>ts_value := searchterm_weight, ts_found := True\<rparr> else sc)"
  by (induction terms arbitrary: sc) (auto simp: scan_term_def)

lemma scan_word_ok:
  assumes ok: "scan_ok page sc" and d: "drop (ts_index sc) page = word @ rest"
  shows "scan_ok page (scan_word stemmer terms word sc)"
    and "ts_index (scan_word stemmer terms word sc) = ts_index sc + length word + 1"
  using ok d
  by (auto simp: scan_word_def Let_def fold_scan_term scan_ok_def placed_def sorted_wrt_append intro: le_SucI trans_le_add1)

lemma drop_through: "drop i page = u @ v \<Longrightarrow> drop (i + length u) page = v"
  by (metis add.commute append_eq_conv_conj drop_drop)

lemma scan_words_ok:
  assumes "scan_ok page sc" and "ws \<noteq> []" and "drop (ts_index sc) page = js_join '' '' ws @ rest"
  shows "scan_ok page (fold (scan_word stemmer terms) ws sc) \<and>
    ts_index (fold (scan_word stemmer terms) ws sc) = ts_index sc + length (js_join '' '' ws) + 1"
  using assms
proof (induction ws arbitrary: sc)
  case (Cons w ws)
  let ?sc = "scan_word stemmer terms w sc"
  have d: "drop (ts_index sc) page = w @ ((if ws = [] then [] else '' '' @ js_join '' '' ws) @ rest)"
    using Cons.prems(3) by (simp add: js_join_Cons split: if_splits)
  note s = scan_word_ok [OF Cons.prems(1) d, of stemmer terms]
  show ?case
  proof (cases "ws = []")
    case False
    have "drop (ts_index sc + length (w @ '' '')) page = js_join '' '' ws @ rest"
      using d False by (intro drop_through) simp
    with Cons.IH [OF s(1) False] s(2) False show ?thesis by (simp add: js_join_Cons)
  qed (use s in simp)
qed simp

lemma scan_sentence_ok:
  assumes "scan_ok page sc" and "drop (ts_index sc) page = sentence @ rest"
  shows "scan_ok page (scan_sentence stemmer terms sentence sc) \<and>
    ts_index (scan_sentence stemmer terms sentence sc) = ts_index sc + length sentence + 2"
  using scan_words_ok [of page "sc\<lparr>ts_value := 8\<rparr>" "js_split '' '' sentence" rest stemmer terms] assms
  by (force simp: scan_sentence_def Let_def scan_ok_def)

lemma scan_sentences_ok:
  assumes "scan_ok page sc" and "drop (ts_index sc) page = js_join ''. '' ss"
  shows "scan_ok page (fold (scan_sentence stemmer terms) ss sc)"
  using assms
proof (induction ss arbitrary: sc)
  case (Cons s ss)
  let ?sc = "scan_sentence stemmer terms s sc"
  have d: "drop (ts_index sc) page = s @ (if ss = [] then [] else ''. '' @ js_join ''. '' ss)"
    using Cons.prems(2) by (simp add: js_join_Cons split: if_splits)
  note s = scan_sentence_ok [OF Cons.prems(1) d, of stemmer terms]
  show ?case
  proof (cases "ss = []")
    case False
    have "drop (ts_index sc + length (s @ ''. '')) page = js_join ''. '' ss"
      using d False by (intro drop_through) simp
    with Cons.IH [of ?sc] s show ?thesis by simp
  qed (use s in simp)
qed simp

lemma scan_body_placed: "placed (toLowerCase body) (ts_weighted (scan_body stemmer body searchterms))"
proof -
  have "scan_ok (toLowerCase body) (scan_body stemmer body searchterms)"
    unfolding scan_body_def by (rule scan_sentences_ok) (simp_all add: scan_ok_def placed_def)
  then show ?thesis by (simp add: scan_ok_def)
qed

text \<open>The weight of a search term, and of nothing else, is 40; every weight is positive.\<close>

definition hit :: "(string \<Rightarrow> string) \<Rightarrow> string list \<Rightarrow> string \<Rightarrow> bool" where
  "hit stemmer stemmed word \<longleftrightarrow> (\<exists>t \<in> set stemmed. prefix t (stemmer word))"

definition weights_ok :: "(string \<Rightarrow> string) \<Rightarrow> string list \<Rightarrow> teaser_scan \<Rightarrow> bool" where
  "weights_ok stemmer stemmed sc \<longleftrightarrow>
     (\<forall>w \<in> set (ts_weighted sc). (weight_of w = searchterm_weight \<longleftrightarrow> hit stemmer stemmed (word_of w)) \<and> 0 < weight_of w) \<and>
     (ts_found sc \<longleftrightarrow> (\<exists>w \<in> set (ts_weighted sc). hit stemmer stemmed (word_of w)))"

lemma scan_words_weights:
  assumes "weights_ok stemmer stemmed sc" and "ts_value sc \<in> {2, 8}"
  shows "weights_ok stemmer stemmed (fold (scan_word stemmer stemmed) ws sc)"
  using assms
proof (induction ws arbitrary: sc)
  case (Cons w ws)
  have "weights_ok stemmer stemmed (scan_word stemmer stemmed w sc)" "ts_value (scan_word stemmer stemmed w sc) \<in> {2, 8}"
    using Cons.prems by (auto simp: scan_word_def Let_def fold_scan_term weights_ok_def hit_def searchterm_weight_def)
  with Cons.IH show ?case by simp
qed simp

lemma scan_sentences_weights:
  "weights_ok stemmer stemmed sc \<Longrightarrow> weights_ok stemmer stemmed (fold (scan_sentence stemmer stemmed) ss sc)"
proof (induction ss arbitrary: sc)
  case (Cons s ss)
  have "weights_ok stemmer stemmed (sc\<lparr>ts_value := 8\<rparr>)" using Cons.prems by (simp add: weights_ok_def)
  from scan_words_weights [OF this] have "weights_ok stemmer stemmed (scan_sentence stemmer stemmed s sc)"
    by (simp add: scan_sentence_def Let_def weights_ok_def)
  with Cons.IH show ?case by simp
qed simp

lemma scan_body_weights:
  "weights_ok stemmer (map (\<lambda>w. stemmer (toLowerCase w)) searchterms) (scan_body stemmer body searchterms)"
  unfolding scan_body_def by (rule scan_sentences_weights) (simp add: weights_ok_def)

subsection \<open>The sliding sum and the choice of the window\<close>

definition window_sum :: "weighted_word list \<Rightarrow> nat \<Rightarrow> nat \<Rightarrow> int" where
  "window_sum weighted n k = (\<Sum>i = k..<k + n. weight_of (weighted ! i))"

lemma window_sum_slide:
  "window_sum weighted n (Suc k) =
     window_sum weighted n k - weight_of (weighted ! k) + weight_of (weighted ! (k + n))"
proof (cases n)
  case (Suc m)
  have "window_sum weighted n k = weight_of (weighted ! k) + (\<Sum>i = Suc k..<k + n. weight_of (weighted ! i))"
    using Suc by (simp add: window_sum_def sum.atLeast_Suc_lessThan)
  moreover have "window_sum weighted n (Suc k) = (\<Sum>i = Suc k..<k + n. weight_of (weighted ! i)) + weight_of (weighted ! (k + n))"
    using Suc by (simp add: window_sum_def)
  ultimately show ?thesis by simp
qed (simp add: window_sum_def)

lemma window_weights_eq:
  "window_weights weighted n = map (window_sum weighted n) [0..<length weighted - n + 1]"
proof -
  have first: "fold (\<lambda>i s. s + weight_of (weighted ! i)) [0..<m] 0 = (\<Sum>i = 0..<m. weight_of (weighted ! i))" for m
    by (induction m) simp_all
  have "fold (\<lambda>i (cur, ws). let cur1 = cur - weight_of (weighted ! i) + weight_of (weighted ! (i + n)) in (cur1, ws @ [cur1]))
      [0..<m] (window_sum weighted n 0, [window_sum weighted n 0]) =
      (window_sum weighted n m, map (window_sum weighted n) [0..<m + 1])" for m
    by (induction m) (simp_all add: window_sum_slide Let_def)
  then show ?thesis by (simp add: window_weights_def Let_def first window_sum_def)
qed

lemma last_maximum:
  fixes ws :: "int list"
  defines "upd \<equiv> \<lambda>i (max_sum, idx). if ws ! i > max_sum then (ws ! i, i) else (max_sum, idx)"
  assumes "j \<le> n"
  shows "case fold upd (rev [j..<n]) (0, 0) of (M, idx) \<Rightarrow>
    (\<forall>i. j \<le> i \<longrightarrow> i < n \<longrightarrow> ws ! i \<le> M) \<and>
    (M = 0 \<and> idx = 0 \<or> 0 < M \<and> j \<le> idx \<and> idx < n \<and> M = ws ! idx \<and> (\<forall>i. idx < i \<longrightarrow> i < n \<longrightarrow> ws ! i < M))"
  using assms(2)
proof (induction j rule: inc_induct)
  case (step j)
  have "rev [j..<n] = rev [Suc j..<n] @ [j]" using step.hyps by (simp add: upt_conv_Cons)
  moreover obtain M idx where f: "fold upd (rev [Suc j..<n]) (0, 0) = (M, idx)" by fastforce
  ultimately have g: "fold upd (rev [j..<n]) (0, 0) = (if ws ! j > M then (ws ! j, j) else (M, idx))"
    by (simp add: upd_def)
  from step.IH f have ih: "\<forall>i. Suc j \<le> i \<longrightarrow> i < n \<longrightarrow> ws ! i \<le> M"
    "M = 0 \<and> idx = 0 \<or> 0 < M \<and> Suc j \<le> idx \<and> idx < n \<and> M = ws ! idx \<and> (\<forall>i. idx < i \<longrightarrow> i < n \<longrightarrow> ws ! i < M)"
    by simp_all
  have le: "ws ! i \<le> max (ws ! j) M" if "j \<le> i" "i < n" for i
    using ih(1) that by (cases "i = j") (auto simp: le_max_iff_disj)
  show ?case
  proof (cases "ws ! j > M")
    case True
    moreover have "ws ! i < ws ! j" if "j < i" "i < n" for i using ih(1) that True by (meson Suc_leI le_less_trans)
    moreover have "0 < ws ! j" using ih(2) True by linarith
    ultimately show ?thesis using le step.hyps g by simp
  next
    case False
    with le ih(2) g show ?thesis by (auto simp: max_def)
  qed
qed simp

lemma chosen_window:
  fixes ws :: "int list" and found :: bool
  defines "m \<equiv> max_sum_window_index found ws"
  assumes "ws \<noteq> []"
  shows "m < length ws"
    and "found \<Longrightarrow> \<exists>i < length ws. 0 < ws ! i \<Longrightarrow> k < length ws \<Longrightarrow> ws ! k \<le> ws ! m \<and> (m < k \<longrightarrow> ws ! k < ws ! m)"
proof -
  obtain M idx where f: "fold (\<lambda>i (max_sum, idx). if ws ! i > max_sum then (ws ! i, i) else (max_sum, idx))
      (rev [0..<length ws]) (0, 0) = (M, idx)" by fastforce
  from last_maximum [of 0 "length ws" ws] have
    l: "\<forall>i. i < length ws \<longrightarrow> ws ! i \<le> M"
      "M = 0 \<and> idx = 0 \<or> 0 < M \<and> idx < length ws \<and> M = ws ! idx \<and> (\<forall>i. idx < i \<longrightarrow> i < length ws \<longrightarrow> ws ! i < M)"
    unfolding f by simp_all
  have m: "m = (if found then idx else 0)" unfolding m_def max_sum_window_index_def f by simp
  show "m < length ws" using l(2) m assms(2) by auto
  assume "found" and p: "\<exists>i < length ws. 0 < ws ! i" and "k < length ws"
  from p l(1) have "0 < M" by fastforce
  with l \<open>found\<close> \<open>k < length ws\<close> m show "ws ! k \<le> ws ! m \<and> (m < k \<longrightarrow> ws ! k < ws ! m)" by auto
qed

subsection \<open>Marking\<close>

text \<open>The loop over the window prints the words with what stands between them.\<close>

fun excerpt :: "string \<Rightarrow> nat \<Rightarrow> weighted_word list \<Rightarrow> string" where
  "excerpt body i [] = []"
| "excerpt body i (w # ws) =
     (let e = index_of w + length (word_of w)
      in substring body i (index_of w) @
         (if weight_of w = searchterm_weight then ''<em>'' @ substring body (index_of w) e @ ''</em>''
          else substring body (index_of w) e) @
         excerpt body e ws)"

fun excerpt_end :: "nat \<Rightarrow> weighted_word list \<Rightarrow> nat" where
  "excerpt_end i [] = i"
| "excerpt_end i (w # ws) = excerpt_end (index_of w + length (word_of w)) ws"

lemma placed_ConsD:
  assumes "placed page (w # ws)"
  shows "placed page ws" and "\<forall>v \<in> set ws. index_of w + length (word_of w) \<le> index_of v"
  using assms by (auto simp: placed_def)

lemma fold_mark_word:
  assumes "placed page ws" and "\<forall>w \<in> set ws. i \<le> index_of w"
  shows "concat (snd (fold (mark_word body) ws (i, sp))) = concat sp @ excerpt body i ws"
  using assms
proof (induction ws arbitrary: i sp)
  case (Cons w ws)
  have "i \<le> index_of w" using Cons.prems(2) by simp
  then have "substring body i (index_of w) = [] \<or> i < index_of w" by (auto simp: substring_def)
  then show ?case
    using Cons.IH [OF placed_ConsD [OF Cons.prems(1)]] by (auto simp: mark_word_def Let_def substring_def)
qed simp

lemma map_nth_window: "m + n \<le> length xs \<Longrightarrow> map ((!) xs) [m..<m + n] = take n (drop m xs)"
  by (rule nth_equalityI) simp_all

fun strip_tags :: "bool \<Rightarrow> string \<Rightarrow> string" where
  "strip_tags inside [] = []"
| "strip_tags inside (c # s) =
     (if inside then strip_tags (c \<noteq> CHR ''>'') s
      else if c = CHR ''<'' then strip_tags True s else c # strip_tags False s)"

lemma strip_tags_plain [simp]: "CHR ''<'' \<notin> set u \<Longrightarrow> strip_tags False (u @ v) = u @ strip_tags False v"
  by (induction u) auto

lemma strip_tags_self: "CHR ''<'' \<notin> set u \<Longrightarrow> strip_tags False u = u"
  using strip_tags_plain [of u "[]"] by simp

lemma strip_excerpt:
  assumes b: "CHR ''<'' \<notin> set body" and "placed page ws" and "\<forall>w \<in> set ws. i \<le> index_of w"
  shows "strip_tags False (excerpt body i ws) = substring body i (excerpt_end i ws) \<and> i \<le> excerpt_end i ws"
  using assms(2,3)
proof (induction ws arbitrary: i)
  case (Cons w ws)
  let ?e = "index_of w + length (word_of w)"
  have s: "CHR ''<'' \<notin> set (substring body a c)" for a c using set_substring [of body a c] b by auto
  have ih: "strip_tags False (excerpt body ?e ws) = substring body ?e (excerpt_end ?e ws)" "?e \<le> excerpt_end ?e ws"
    using Cons.IH [OF placed_ConsD [OF Cons.prems(1)]] by auto
  have "i \<le> index_of w" using Cons.prems(2) by simp
  then have "substring body i (index_of w) @ substring body (index_of w) ?e @ substring body ?e (excerpt_end ?e ws) =
      substring body i (excerpt_end ?e ws)"
    using ih(2) by (simp add: substring_append)
  with ih s \<open>i \<le> index_of w\<close> show ?case by (simp add: Let_def)
qed (simp add: substring_def)

text \<open>Every opening bracket belongs to one of the two marks.\<close>

fun only_marks :: "string \<Rightarrow> bool" where
  "only_marks [] = True"
| "only_marks (c # s) = ((c = CHR ''<'' \<longrightarrow> prefix ''em>'' s \<or> prefix ''/em>'' s) \<and> only_marks s)"

lemma only_marks_append: "CHR ''<'' \<notin> set u \<Longrightarrow> only_marks (u @ v) = only_marks v"
  by (induction u) auto

lemma only_marks_excerpt:
  assumes b: "CHR ''<'' \<notin> set body"
  shows "only_marks (excerpt body i ws)"
proof (induction ws arbitrary: i)
  case (Cons w ws)
  have s: "CHR ''<'' \<notin> set (substring body a c)" for a c using set_substring [of body a c] b by auto
  show ?case
    using Cons.IH by (simp add: Let_def s only_marks_append)
qed simp

subsection \<open>The teaser as a whole\<close>

lemma teaser_window:
  fixes count
  assumes "ts_weighted (scan_body stemmer body searchterms) \<noteq> []"
  defines "ws \<equiv> ts_weighted (scan_body stemmer body searchterms)"
  defines "n \<equiv> min (length ws) count"
  defines "m \<equiv> max_sum_window_index (ts_found (scan_body stemmer body searchterms)) (window_weights ws n)"
  shows "m + n \<le> length ws"
    and "makeTeaser stemmer count body searchterms = excerpt body (index_of (ws ! m)) (take n (drop m ws))"
    and "placed (toLowerCase body) (take n (drop m ws))"
    and "\<forall>w \<in> set (take n (drop m ws)). index_of (ws ! m) \<le> index_of w"
proof -
  have n: "n \<le> length ws" by (simp add: n_def)
  have "window_weights ws n \<noteq> []" "length (window_weights ws n) = length ws - n + 1" by (simp_all add: window_weights_eq)
  with chosen_window(1) have "m \<le> length ws - n" by (metis m_def Suc_eq_plus1 less_Suc_eq_le)
  with n show le: "m + n \<le> length ws" by simp
  have p: "placed (toLowerCase body) ws" unfolding ws_def by (rule scan_body_placed)
  show pw: "placed (toLowerCase body) (take n (drop m ws))"
    using p by (auto simp: placed_def sorted_wrt_take sorted_wrt_drop dest!: in_set_takeD in_set_dropD)
  show idx: "\<forall>w \<in> set (take n (drop m ws)). index_of (ws ! m) \<le> index_of w"
  proof
    fix w assume "w \<in> set (take n (drop m ws))"
    then obtain k where k: "k < n" "w = ws ! (m + k)" using le by (auto simp: in_set_conv_nth)
    show "index_of (ws ! m) \<le> index_of w"
    proof (cases k)
      case (Suc j)
      with k le have "m < m + k" "m + k < length ws" by simp_all
      with p have "index_of (ws ! m) + length (word_of (ws ! m)) \<le> index_of (ws ! (m + k))"
        by (auto simp: placed_def sorted_wrt_iff_nth_less)
      with k show ?thesis by simp
    qed (use k in simp)
  qed
  have "fold (\<lambda>i. mark_word body (ws ! i)) [m..<m + n] x = fold (mark_word body) (take n (drop m ws)) x" for x
    using map_nth_window [OF le] fold_map [of "mark_word body" "(!) ws" "[m..<m + n]"] by (simp add: comp_def)
  then show "makeTeaser stemmer count body searchterms = excerpt body (index_of (ws ! m)) (take n (drop m ws))"
    using assms(1) fold_mark_word [OF pw idx, of body "[]"]
    by (simp add: makeTeaser_def Let_def ws_def n_def m_def)
qed

subsection \<open>Properties\<close>

text \<open>C28: a teaser is safe to insert as HTML and is a true excerpt. For every page text, search terms, stemmer and window
  size, the only markup in the teaser of the escaped text is \<open><em>\<close> and \<open></em>\<close>, and without these marks the
  teaser is a contiguous piece of the escaped text.\<close>

theorem teaser_is_safe_excerpt:
  "only_marks (makeTeaser stemmer count (escapeHTML body) searchterms) \<and>
   sublist (strip_tags False (makeTeaser stemmer count (escapeHTML body) searchterms)) (escapeHTML body)"
proof -
  let ?b = "escapeHTML body"
  have b: "CHR ''<'' \<notin> set ?b" using escapeHTML_safe [of body] by auto
  show ?thesis
  proof (cases "ts_weighted (scan_body stemmer ?b searchterms) = []")
    case True
    then have "makeTeaser stemmer count ?b searchterms = ?b" by (simp add: makeTeaser_def Let_def)
    with b only_marks_append [OF b, of "[]"] show ?thesis by (simp add: strip_tags_self)
  next
    case False
    note w = teaser_window [OF False, of count]
    show ?thesis unfolding w(2) using only_marks_excerpt [OF b] strip_excerpt [OF b w(3,4)] substring_sublist by metis
  qed
qed

text \<open>The sliding window finds the right place. On a page with words and for a positive window size, the teaser is the
  marked excerpt of the window of words that starts at some word \<open>m\<close>; when a search term occurs on the page, no
  window of that size weighs more, and every later one weighs less; otherwise it is the first window. The words marked
  in it are exactly those that a search term matches.\<close>

theorem teaser_shows_last_best_window:
  fixes stemmer body searchterms count
  defines "ws \<equiv> ts_weighted (scan_body stemmer body searchterms)"
  defines "n \<equiv> min (length ws) count"
  defines "stemmed \<equiv> map (\<lambda>w. stemmer (toLowerCase w)) searchterms"
  assumes words: "ws \<noteq> []" and count: "0 < count"
  shows "\<exists>m. m + n \<le> length ws \<and>
    makeTeaser stemmer count body searchterms = excerpt body (index_of (ws ! m)) (take n (drop m ws)) \<and>
    (\<forall>w \<in> set ws. weight_of w = searchterm_weight \<longleftrightarrow> hit stemmer stemmed (word_of w)) \<and>
    (if \<exists>w \<in> set ws. hit stemmer stemmed (word_of w)
     then \<forall>k. k + n \<le> length ws \<longrightarrow>
            window_sum ws n k \<le> window_sum ws n m \<and> (m < k \<longrightarrow> window_sum ws n k < window_sum ws n m)
     else m = 0)"
proof -
  let ?sc = "scan_body stemmer body searchterms"
  let ?m = "max_sum_window_index (ts_found ?sc) (window_weights ws n)"
  have ok: "weights_ok stemmer stemmed ?sc" unfolding stemmed_def by (rule scan_body_weights)
  then have found: "ts_found ?sc \<longleftrightarrow> (\<exists>w \<in> set ws. hit stemmer stemmed (word_of w))" by (simp add: weights_ok_def ws_def)
  have n: "0 < n" "n \<le> length ws" using words count by (simp_all add: n_def)
  have pos: "0 < window_sum ws n 0"
    unfolding window_sum_def using ok n by (intro sum_pos) (auto simp: weights_ok_def ws_def)
  let ?ww = "window_weights ws n"
  have len: "length ?ww = length ws - n + 1" "?ww \<noteq> []" by (simp_all add: window_weights_eq)
  have ww: "?ww ! k = window_sum ws n k" if "k + n \<le> length ws" for k
  proof -
    have "k < length ws - n + 1" using that by simp
    then show ?thesis unfolding window_weights_eq by (simp only: nth_map_upt diff_zero add_0_left)
  qed
  have "\<exists>i < length ?ww. 0 < ?ww ! i" using pos ww [of 0] n len by (intro exI [of _ 0]) simp
  note best = chosen_window(2) [OF len(2) _ this]
  have m: "?m + n \<le> length ws" using chosen_window(1) [OF len(2), of "ts_found ?sc"] len(1) n by simp
  have "\<forall>k. k + n \<le> length ws \<longrightarrow>
      window_sum ws n k \<le> window_sum ws n ?m \<and> (?m < k \<longrightarrow> window_sum ws n k < window_sum ws n ?m)" if f: "ts_found ?sc"
  proof (intro allI impI)
    fix k assume k: "k + n \<le> length ws"
    then have "k < length ?ww" using len(1) n by simp
    from best [OF f this, unfolded ww [OF k] ww [OF m]]
    show "window_sum ws n k \<le> window_sum ws n ?m \<and> (?m < k \<longrightarrow> window_sum ws n k < window_sum ws n ?m)" .
  qed
  moreover have "?m = 0" if "\<not> ts_found ?sc" using that by (simp add: max_sum_window_index_def)
  moreover note teaser_window(1,2) [OF words [unfolded ws_def], of count, folded ws_def, folded n_def]
  moreover have "\<forall>w \<in> set ws. weight_of w = searchterm_weight \<longleftrightarrow> hit stemmer stemmed (word_of w)"
    using ok by (auto simp: weights_ok_def ws_def)
  ultimately show ?thesis using found by (intro exI [of _ ?m]) auto
qed

theorem teaser_shows_last_best_window_witness:
  "\<exists>m. m + 2 \<le> 4 \<and>
    makeTeaser (\<lambda>w. w) 2 ''The cat. A dog'' [''Dog''] =
      excerpt ''The cat. A dog'' (index_of ([(''the'', 8, 0), (''cat'', 2, 4), (''a'', 8, 9), (''dog'', 40, 11)] ! m))
        (take 2 (drop m [(''the'', 8, 0), (''cat'', 2, 4), (''a'', 8, 9), (''dog'', 40, 11)])) \<and> m = 2"
proof -
  have ws: "ts_weighted (scan_body (\<lambda>w. w) ''The cat. A dog'' [''Dog'']) = [(''the'', 8, 0), (''cat'', 2, 4), (''a'', 8, 9), (''dog'', 40, 11)]"
    by code_simp
  let ?ws = "[(''the'', 8, 0), (''cat'', 2, 4), (''a'', 8, 9), (''dog'', 40, 11)] :: weighted_word list"
  let ?st = "[''dog'']"
  have st: "map (\<lambda>w. toLowerCase w) [''Dog''] = ?st" by code_simp
  have h: "\<exists>w \<in> set ?ws. hit (\<lambda>w. w) ?st (word_of w)" by (simp add: hit_def)
  have s: "window_sum ?ws 2 2 = 48" "window_sum ?ws 2 1 = 10" "window_sum ?ws 2 0 = 10" by code_simp+
  have n: "length ?ws = 4" "min (4 :: nat) 2 = 2" by simp_all
  have ne: "?ws \<noteq> []" "(0 :: nat) < 2" by simp_all
  note t = teaser_shows_last_best_window [of "\<lambda>w. w" "''The cat. A dog''" "[''Dog'']" 2, unfolded ws st n if_P [OF h], OF ne]
  then obtain m where m: "m + 2 \<le> 4"
    "makeTeaser (\<lambda>w. w) 2 ''The cat. A dog'' [''Dog''] = excerpt ''The cat. A dog'' (index_of (?ws ! m)) (take 2 (drop m ?ws))"
    and k: "\<forall>k. k + 2 \<le> 4 \<longrightarrow> window_sum ?ws 2 k \<le> window_sum ?ws 2 m \<and> (m < k \<longrightarrow> window_sum ?ws 2 k < window_sum ?ws 2 m)"
    by blast
  have "(2 :: nat) + 2 \<le> 4" by simp
  with k have m3: "window_sum ?ws 2 2 \<le> window_sum ?ws 2 m" by blast
  have "m \<noteq> 0"
  proof
    assume "m = 0"
    from m3 show False unfolding \<open>m = 0\<close> s by simp
  qed
  moreover have "m \<noteq> 1"
  proof
    assume "m = 1"
    from m3 show False unfolding \<open>m = 1\<close> s by simp
  qed
  ultimately have "m = 2" using m(1) by linarith
  then show ?thesis by (intro exI [of _ m] conjI m(1,2))
qed

text \<open>Two blanks between search terms match everything. When the search term contains two consecutive blanks, splitting it
  gives an empty term, which is a prefix of every word, so every word of every page counts as a search term and is marked,
  provided the stemmer leaves the empty word alone.\<close>

theorem double_blank_matches_every_word:
  assumes stem: "stemmer [] = []" and blanks: "str_includes searchterm ''  ''"
    and w: "w \<in> set (ts_weighted (scan_body stemmer body (js_split '' '' searchterm)))"
  shows "weight_of w = searchterm_weight"
proof -
  from blanks obtain u v where uv: "searchterm = u @ ''  '' @ v" unfolding str_includes_iff by blast
  have "[] \<in> set (tl (js_split '' '' searchterm))" unfolding uv by (rule js_split_empty_part)
  then have "[] \<in> set (js_split '' '' searchterm)" by (rule list.set_sel(2) [rotated]) (rule js_split_nonempty)
  then have "[] \<in> set (map (\<lambda>w. stemmer (toLowerCase w)) (js_split '' '' searchterm))"
    using stem by (force simp: toLowerCase_def)
  then have "hit stemmer (map (\<lambda>w. stemmer (toLowerCase w)) (js_split '' '' searchterm)) (word_of w)"
    unfolding hit_def by (intro bexI [of _ "[]"]) simp_all
  with w scan_body_weights [of stemmer "js_split '' '' searchterm" body] show ?thesis by (simp add: weights_ok_def)
qed

theorem double_blank_matches_every_word_witness:
  "weight_of (''heartbeat'', 40, 2) = searchterm_weight"
proof (rule double_blank_matches_every_word)
  show "(\<lambda>w. w) [] = ([] :: string)" by simp
  show "str_includes ''udp  key'' ''  ''" by code_simp
  show "(''heartbeat'', 40, 2) \<in> set (ts_weighted (scan_body (\<lambda>w. w) ''a heartbeat'' (js_split '' '' ''udp  key'')))"
    by code_simp
qed

end
