(* ===== verification/Page_Url.thy ===== *)
theory Page_Url
  imports Web_Text "HOL-Library.Multiset"
begin

section \<open>URLs of the book pages (\<open>searcher.js\<close>)\<close>

text \<open>
  \<open>parseURL\<close> and \<open>renderURL\<close> of the search script, over the part of the browser that they use: an anchor element
  splits an absolute URL into its components and percent-encodes the characters that a component may not contain.
  The address of a page is kept in this normal form, without default ports and dot segments. Query parameters are a JavaScript object: keys in
  insertion order, array indices first, and assigning to \<open>__proto__\<close> does nothing.
\<close>

subsection \<open>Anchor elements\<close>

record anchor =
  a_protocol :: string
  a_hostname :: string
  a_port :: string
  a_pathname :: string
  a_search :: string
  a_hash :: string

definition ascii_graph :: "char \<Rightarrow> bool" where
  "ascii_graph c \<longleftrightarrow> 32 < (of_char c :: nat) \<and> (of_char c :: nat) < 127"

definition path_keep :: "char \<Rightarrow> bool" where
  "path_keep c \<longleftrightarrow> ascii_graph c \<and>
     c \<notin> {CHR 0x22, CHR ''#'', CHR ''<'', CHR ''>'', CHR ''?'', CHR ''^'', CHR 0x60, CHR ''{'', CHR ''}''}"

definition query_keep :: "char \<Rightarrow> bool" where
  "query_keep c \<longleftrightarrow> ascii_graph c \<and> c \<notin> {CHR 0x22, CHR ''#'', CHR ''<'', CHR ''>'', CHR 0x27}"

definition fragment_keep :: "char \<Rightarrow> bool" where
  "fragment_keep c \<longleftrightarrow> ascii_graph c \<and> c \<notin> {CHR 0x22, CHR ''<'', CHR ''>'', CHR 0x60}"

definition c0_or_space :: "char \<Rightarrow> bool" where
  "c0_or_space c \<longleftrightarrow> (of_char c :: nat) \<le> 32"

definition url_clean :: "string \<Rightarrow> string" where
  "url_clean s =
     filter (\<lambda>c. of_char c \<notin> {9 :: nat, 10, 13}) (rev (dropWhile c0_or_space (rev (dropWhile c0_or_space s))))"

definition split_first :: "char \<Rightarrow> string \<Rightarrow> string \<times> string" where
  "split_first c s = (takeWhile (\<lambda>x. x \<noteq> c) s, drop 1 (dropWhile (\<lambda>x. x \<noteq> c) s))"

definition parse_href :: "string \<Rightarrow> anchor" where
  "parse_href s =
     (let (front, fragment) = split_first (CHR ''#'') (url_clean s);
          (origin_path, query) = split_first (CHR ''?'') front;
          (scheme, rest) = split_first (CHR '':'') origin_path;
          authority = takeWhile (\<lambda>c. c \<noteq> CHR ''/'') (drop 2 rest);
          path = dropWhile (\<lambda>c. c \<noteq> CHR ''/'') (drop 2 rest);
          (host, port) = split_first (CHR '':'') authority
      in \<lparr>a_protocol = scheme @ '':'', a_hostname = host, a_port = port,
          a_pathname = (if path = [] then ''/'' else percent_encode path_keep path),
          a_search = (if query = [] then [] else CHR ''?'' # percent_encode query_keep query),
          a_hash = (if fragment = [] then [] else CHR ''#'' # percent_encode fragment_keep fragment)\<rparr>)"

definition href :: "anchor \<Rightarrow> string" where
  "href a =
     a_protocol a @ ''//'' @ a_hostname a @ (if a_port a = [] then [] else CHR '':'' # a_port a) @
     a_pathname a @ a_search a @ a_hash a"

subsection \<open>Query parameters\<close>

type_synonym params = "(string \<times> string option) list"

definition proto_key :: string where "proto_key = ''__proto__''"

definition obj_set :: "string \<Rightarrow> string option \<Rightarrow> params \<Rightarrow> params" where
  "obj_set k v ps =
     (if k = proto_key then ps
      else if k \<in> fst ` set ps then map (\<lambda>(k', v'). if k' = k then (k', v) else (k', v')) ps
      else ps @ [(k, v)])"

definition obj_delete :: "string \<Rightarrow> params \<Rightarrow> params" where
  "obj_delete k ps = filter (\<lambda>(k', _). k' \<noteq> k) ps"

definition hasOwnProperty :: "string \<Rightarrow> params \<Rightarrow> bool" where
  "hasOwnProperty k ps \<longleftrightarrow> k \<in> fst ` set ps"

definition obj_get :: "string \<Rightarrow> params \<Rightarrow> string option" where
  "obj_get k ps = (case map_of ps k of None \<Rightarrow> None | Some v \<Rightarrow> v)"

definition decimal_value :: "string \<Rightarrow> int" where
  "decimal_value s = foldl (\<lambda>a c. 10 * a + digit_value c) 0 s"

definition array_index :: "string \<Rightarrow> bool" where
  "array_index s \<longleftrightarrow>
     s \<noteq> [] \<and> list_all is_digit s \<and> (hd s \<noteq> CHR ''0'' \<or> s = ''0'') \<and> decimal_value s < 2 ^ 32 - 1"

definition own_entries :: "params \<Rightarrow> params" where
  "own_entries ps =
     sort_key (\<lambda>(k, _). decimal_value k) (filter (\<lambda>(k, _). array_index k) ps) @ filter (\<lambda>(k, _). \<not> array_index k) ps"

definition undefined_text :: "string option \<Rightarrow> string" where
  "undefined_text v = (case v of None \<Rightarrow> ''undefined'' | Some s \<Rightarrow> s)"

definition add_param :: "string \<Rightarrow> params \<Rightarrow> params" where
  "add_param part ret =
     (if part = [] then ret
      else let s = js_split ''='' part in obj_set (s ! 0) (if length s > 1 then Some (s ! 1) else None) ret)"

definition parse_params :: "string \<Rightarrow> params" where
  "parse_params search =
     fold add_param (js_split ''&'' (if search \<noteq> [] \<and> hd search = CHR ''?'' then tl search else search)) []"

definition render_params :: "params \<Rightarrow> string" where
  "render_params ps =
     (let parts = map (\<lambda>(k, v). k @ ''='' @ undefined_text v) (own_entries ps)
      in if parts = [] then [] else ''?'' @ js_join ''&'' parts)"

subsection \<open>\<open>parseURL\<close> and \<open>renderURL\<close>\<close>

record url =
  url_source :: string
  url_protocol :: string
  url_host :: string
  url_port :: string
  url_params :: params
  url_file :: string
  url_hash :: string
  url_path :: string

definition remove_first :: "char \<Rightarrow> string \<Rightarrow> string" where
  "remove_first c s = remove1 c s"

definition last_segment :: "string \<Rightarrow> string" where
  "last_segment pathname =
     (let seg = rev (takeWhile (\<lambda>c. c \<noteq> CHR ''/'') (rev pathname))
      in if length seg < length pathname \<and> CHR ''?'' \<notin> set seg \<and> CHR ''#'' \<notin> set seg then seg else [])"

definition parseURL :: "string \<Rightarrow> url" where
  "parseURL source =
     (let a = parse_href source
      in \<lparr>url_source = source, url_protocol = remove_first (CHR '':'') (a_protocol a), url_host = a_hostname a,
          url_port = a_port a, url_params = parse_params (a_search a), url_file = last_segment (a_pathname a),
          url_hash = remove_first (CHR ''#'') (a_hash a),
          url_path = (if a_pathname a \<noteq> [] \<and> hd (a_pathname a) \<noteq> CHR ''/'' then CHR ''/'' # a_pathname a else a_pathname a)\<rparr>)"

definition renderURL :: "url \<Rightarrow> string" where
  "renderURL u =
     url_protocol u @ ''://'' @ url_host u @ (if url_port u \<noteq> [] then CHR '':'' # url_port u else []) @ url_path u @
     render_params (url_params u) @ (if url_hash u \<noteq> [] then CHR ''#'' # url_hash u else [])"

subsection \<open>Addresses in normal form\<close>

definition front_char :: "char \<Rightarrow> bool" where
  "front_char c \<longleftrightarrow> ascii_graph c \<and> c \<noteq> CHR ''#'' \<and> c \<noteq> CHR ''?''"

definition host_char :: "char \<Rightarrow> bool" where
  "host_char c \<longleftrightarrow> front_char c \<and> c \<noteq> CHR '':'' \<and> c \<noteq> CHR ''/''"

definition origin_ok :: "anchor \<Rightarrow> bool" where
  "origin_ok a \<longleftrightarrow>
     (\<exists>scheme. a_protocol a = scheme @ '':'' \<and> scheme \<noteq> [] \<and> list_all host_char scheme) \<and>
     list_all host_char (a_hostname a) \<and> list_all host_char (a_port a) \<and>
     (\<exists>p. a_pathname a = CHR ''/'' # p) \<and> list_all path_keep (a_pathname a)"

definition location_ok :: "anchor \<Rightarrow> bool" where
  "location_ok a \<longleftrightarrow>
     origin_ok a \<and>
     (\<exists>q. list_all query_keep q \<and> a_search a = (if q = [] then [] else CHR ''?'' # q)) \<and>
     (\<exists>f. list_all fragment_keep f \<and> a_hash a = (if f = [] then [] else CHR ''#'' # f))"

lemma split_first_append [simp]: "c \<notin> set u \<Longrightarrow> split_first c (u @ c # v) = (u, v)"
  by (induction u) (auto simp: split_first_def)

lemma split_first_none [simp]: "c \<notin> set u \<Longrightarrow> split_first c u = (u, [])"
  by (induction u) (auto simp: split_first_def)

lemma dropWhile_ends:
  assumes "s \<noteq> []" and "\<not> P (hd s)" and "\<not> P (last s)"
  shows "rev (dropWhile P (rev (dropWhile P s))) = s"
proof -
  have "dropWhile P s = s" using assms(2) by (simp add: dropWhile_eq_self_iff)
  moreover have "dropWhile P (rev s) = rev s" using assms(1,3) by (simp add: dropWhile_eq_self_iff hd_rev)
  ultimately show ?thesis by simp
qed

text \<open>Parsing an origin and path, with any query and fragment behind it whose last character is no blank.\<close>

definition url_tail :: "string \<Rightarrow> string \<Rightarrow> string" where
  "url_tail query fragment =
     (if query = [] then [] else CHR ''?'' # query) @ (if fragment = [] then [] else CHR ''#'' # fragment)"

definition plain_text :: "string \<Rightarrow> bool" where
  "plain_text s \<longleftrightarrow> (\<forall>c \<in> set s. 32 \<le> (of_char c :: nat))"

lemma front_char_simps [simp]: "front_char (CHR '':'')" "front_char (CHR ''/'')"
  by (simp_all add: front_char_def ascii_graph_def)

lemma front_charD: "front_char c \<Longrightarrow> 32 < (of_char c :: nat)" "front_char c \<Longrightarrow> \<not> c0_or_space c"
  by (simp_all add: front_char_def ascii_graph_def c0_or_space_def)

definition port_text :: "string \<Rightarrow> string" where
  "port_text port = (if port = [] then [] else CHR '':'' # port)"

lemma origin_okE:
  assumes "origin_ok a"
  obtains scheme p where "a_protocol a = scheme @ '':''" "scheme \<noteq> []" "CHR '':'' \<notin> set scheme" "list_all front_char scheme"
    "list_all front_char (a_hostname a)" "list_all front_char (port_text (a_port a))"
    "CHR '':'' \<notin> set (a_hostname a)" "CHR ''/'' \<notin> set (a_hostname a)" "CHR '':'' \<notin> set (a_port a)" "CHR ''/'' \<notin> set (a_port a)"
    "a_pathname a = CHR ''/'' # p" "list_all front_char (a_pathname a)" "list_all path_keep (a_pathname a)"
proof -
  obtain scheme where "a_protocol a = scheme @ '':''" "scheme \<noteq> []" "list_all host_char scheme"
    using assms unfolding origin_ok_def by blast
  moreover obtain p where "a_pathname a = CHR ''/'' # p" "list_all path_keep (a_pathname a)"
    using assms unfolding origin_ok_def by blast
  moreover have "list_all host_char (a_hostname a)" "list_all host_char (a_port a)"
    using assms unfolding origin_ok_def by blast+
  moreover have "list_all front_char s" "CHR '':'' \<notin> set s" "CHR ''/'' \<notin> set s" if "list_all host_char s" for s
    using that by (induction s) (auto simp: host_char_def)
  moreover have "list_all front_char s" if "list_all path_keep s" for s
    using that by (induction s) (simp_all add: path_keep_def front_char_def)
  ultimately show thesis using that [of scheme p] by (simp add: port_text_def)
qed

lemma url_clean_id:
  assumes "s \<noteq> []" and "plain_text s" and "\<not> c0_or_space (hd s)" and "\<not> c0_or_space (last s)"
  shows "url_clean s = s"
  using assms(2) unfolding url_clean_def dropWhile_ends [OF assms(1,3,4)]
  by (induction s) (auto simp: plain_text_def)

lemma plain_last: "plain_text s \<Longrightarrow> s \<noteq> [] \<Longrightarrow> last s \<noteq> CHR '' '' \<Longrightarrow> \<not> c0_or_space (last s)"
proof
  assume s: "plain_text s" "s \<noteq> []" "last s \<noteq> CHR '' ''" "c0_or_space (last s)"
  then have "(of_char (last s) :: nat) = 32" using last_in_set [OF s(2)] unfolding plain_text_def c0_or_space_def by (meson le_antisym)
  then have "of_char (last s) = (of_char (CHR '' '') :: nat)" by simp
  with s(3) show False by (simp only: of_char_eq_iff)
qed

lemma last_url_tail: "query @ fragment \<noteq> [] \<Longrightarrow> last (u @ url_tail query fragment) = last (query @ fragment)"
  by (auto simp: url_tail_def)

text \<open>The address of a page up to the path.\<close>

definition base_text :: "anchor \<Rightarrow> string" where
  "base_text a = a_protocol a @ ''//'' @ a_hostname a @ port_text (a_port a)"

lemma page_text_clean:
  assumes o: "origin_ok a" and q: "plain_text query" and f: "plain_text fragment"
    and l: "query @ fragment \<noteq> [] \<Longrightarrow> last (query @ fragment) \<noteq> CHR '' ''"
  defines "s \<equiv> base_text a @ a_pathname a @ url_tail query fragment"
  shows "s \<noteq> []" and "plain_text s" and "\<not> c0_or_space (hd s)" and "\<not> c0_or_space (last s)"
    and "CHR ''#'' \<notin> set (base_text a @ a_pathname a)" and "CHR ''?'' \<notin> set (base_text a @ a_pathname a)"
proof -
  from o obtain scheme p where sc: "a_protocol a = scheme @ '':''" "scheme \<noteq> []" "list_all front_char scheme"
    and h: "list_all front_char (a_hostname a)" "list_all front_char (port_text (a_port a))"
    and p: "a_pathname a = CHR ''/'' # p" "list_all front_char (a_pathname a)" by (rule origin_okE)
  have fr: "list_all front_char (base_text a @ a_pathname a)" using sc h p(2) by (simp add: base_text_def)
  show "CHR ''#'' \<notin> set (base_text a @ a_pathname a)" "CHR ''?'' \<notin> set (base_text a @ a_pathname a)"
    using fr by (auto simp: list_all_iff front_char_def)
  show "s \<noteq> []" using p(1) by (simp add: s_def)
  show "plain_text s"
    using fr q f front_charD(1) by (fastforce simp: s_def plain_text_def url_tail_def list_all_iff split: if_splits)
  show "\<not> c0_or_space (hd s)" using sc front_charD(2) by (cases scheme) (auto simp: s_def base_text_def)
  show "\<not> c0_or_space (last s)"
  proof (cases "query @ fragment = []")
    case True
    then have "last s \<in> set (a_pathname a)" using p(1) by (simp add: s_def url_tail_def)
    with p(2) show ?thesis by (auto simp: list_all_iff front_charD(2))
  next
    case False
    have "plain_text (query @ fragment)" using q f by (auto simp: plain_text_def)
    from plain_last [OF this False l [OF False]] show ?thesis
      using last_url_tail [OF False, of "base_text a @ a_pathname a"] by (simp add: s_def)
  qed
qed

lemma parse_href_parts:
  assumes o: "origin_ok a" and q: "plain_text query" "CHR ''#'' \<notin> set query" and f: "plain_text fragment"
    and l: "query @ fragment \<noteq> [] \<Longrightarrow> last (query @ fragment) \<noteq> CHR '' ''"
  shows "parse_href (base_text a @ a_pathname a @ url_tail query fragment) =
    a\<lparr>a_search := (if query = [] then [] else CHR ''?'' # percent_encode query_keep query),
      a_hash := (if fragment = [] then [] else CHR ''#'' # percent_encode fragment_keep fragment)\<rparr>"
proof (rule origin_okE [OF o])
  fix scheme p
  assume sc: "a_protocol a = scheme @ '':''" "CHR '':'' \<notin> set scheme"
    and h: "CHR '':'' \<notin> set (a_hostname a)" "CHR ''/'' \<notin> set (a_hostname a)" "CHR '':'' \<notin> set (a_port a)" "CHR ''/'' \<notin> set (a_port a)"
    and p: "a_pathname a = CHR ''/'' # p" "list_all path_keep (a_pathname a)"
  let ?auth = "a_hostname a @ port_text (a_port a)"
  let ?front = "base_text a @ a_pathname a"
  let ?q = "if query = [] then [] else CHR ''?'' # query"
  note clean = page_text_clean [OF o q(1) f l]
  have c: "url_clean (?front @ url_tail query fragment) = ?front @ url_tail query fragment"
    using url_clean_id [OF clean(1-4)] by simp
  have nq: "CHR ''#'' \<notin> set (?front @ ?q)" using clean(5) q(2) by simp
  have 1: "split_first (CHR ''#'') (?front @ url_tail query fragment) = (?front @ ?q, fragment)"
    using split_first_append [OF nq, of fragment] split_first_none [OF nq]
    by (cases "fragment = []") (simp_all only: url_tail_def append_assoc if_True if_False append_Nil2 refl)
  have 2: "split_first (CHR ''?'') (?front @ ?q) = (?front, query)"
    using split_first_append [OF clean(6), of query] split_first_none [OF clean(6)] by (cases "query = []") simp_all
  have 3: "split_first (CHR '':'') ?front = (scheme, ''//'' @ ?auth @ a_pathname a)"
    using split_first_append [OF sc(2), of "''//'' @ ?auth @ a_pathname a"] sc(1) by (simp add: base_text_def)
  have na: "CHR ''/'' \<notin> set ?auth" using h(2,4) by (simp add: port_text_def)
  have 4: "takeWhile (\<lambda>c. c \<noteq> CHR ''/'') (?auth @ a_pathname a) = ?auth"
    "dropWhile (\<lambda>c. c \<noteq> CHR ''/'') (?auth @ a_pathname a) = a_pathname a"
    using na p(1) by (auto simp: takeWhile_append dropWhile_append)
  have 5: "split_first (CHR '':'') ?auth = (a_hostname a, a_port a)"
    using split_first_append [OF h(1), of "a_port a"] split_first_none [OF h(1)] by (simp add: port_text_def)
  have "parse_href (?front @ url_tail query fragment) =
      a\<lparr>a_search := (if query = [] then [] else CHR ''?'' # percent_encode query_keep query),
        a_hash := (if fragment = [] then [] else CHR ''#'' # percent_encode fragment_keep fragment)\<rparr>"
    unfolding parse_href_def c Let_def 1 2 3 prod.case
    using 4 5 sc(1) p(1) percent_encode_id [OF p(2)] by simp
  then show ?thesis by simp
qed

text \<open>An empty fragment makes no difference.\<close>

lemma parse_href_empty_fragment:
  assumes o: "origin_ok a" and q: "plain_text query" "CHR ''#'' \<notin> set query" and l: "query \<noteq> [] \<Longrightarrow> last query \<noteq> CHR '' ''"
  shows "parse_href (base_text a @ a_pathname a @ url_tail query [] @ ''#'') = parse_href (base_text a @ a_pathname a @ url_tail query [])"
proof -
  let ?s = "base_text a @ a_pathname a @ url_tail query []"
  have l': "query @ [] \<noteq> [] \<Longrightarrow> last (query @ []) \<noteq> CHR '' ''" using l by simp
  have n: "plain_text []" by (simp add: plain_text_def)
  note clean = page_text_clean [OF o q(1) n l']
  have "\<not> c0_or_space (CHR ''#'')" "(32 :: nat) \<le> of_char (CHR ''#'')" by code_simp+
  then have "url_clean (?s @ ''#'') = ?s @ ''#''"
    using clean(1-3) by (intro url_clean_id) (auto simp: plain_text_def hd_append simp del: append_assoc)
  moreover have "url_clean ?s = ?s" by (rule url_clean_id [OF clean(1-4)])
  moreover have "CHR ''#'' \<notin> set ?s" using clean(5) q(2) by (simp add: url_tail_def)
  ultimately have "split_first (CHR ''#'') (url_clean (?s @ ''#'')) = split_first (CHR ''#'') (url_clean ?s)"
    using split_first_append [of "CHR ''#''" ?s "[]"] split_first_none [of "CHR ''#''" ?s] by simp
  then show ?thesis by (simp add: parse_href_def)
qed

lemma href_tail:
  "a_search a = (if q = [] then [] else CHR ''?'' # q) \<Longrightarrow> a_hash a = (if f = [] then [] else CHR ''#'' # f) \<Longrightarrow>
   href a = base_text a @ a_pathname a @ url_tail q f"
  by (simp add: href_def base_text_def port_text_def url_tail_def)

lemma keep_plain:
  "list_all query_keep q \<Longrightarrow> plain_text q" "list_all query_keep q \<Longrightarrow> CHR ''#'' \<notin> set q"
  "list_all fragment_keep q \<Longrightarrow> plain_text q"
  "list_all query_keep q \<Longrightarrow> CHR '' '' \<notin> set q" "list_all fragment_keep q \<Longrightarrow> CHR '' '' \<notin> set q"
  by (induction q) (auto simp: query_keep_def fragment_keep_def ascii_graph_def plain_text_def)

text \<open>The address of a page parses to itself.\<close>

lemma parse_href_href:
  assumes "location_ok a"
  shows "parse_href (href a) = a"
proof -
  obtain q where q: "a_search a = (if q = [] then [] else CHR ''?'' # q)" "list_all query_keep q"
    using assms unfolding location_ok_def by blast
  obtain f where f: "a_hash a = (if f = [] then [] else CHR ''#'' # f)" "list_all fragment_keep f"
    using assms unfolding location_ok_def by blast
  have o: "origin_ok a" using assms by (simp add: location_ok_def)
  have "CHR '' '' \<notin> set (q @ f)" using keep_plain(4) [OF q(2)] keep_plain(5) [OF f(2)] by simp
  then have "q @ f \<noteq> [] \<Longrightarrow> last (q @ f) \<noteq> CHR '' ''" using last_in_set by metis
  from parse_href_parts [OF o keep_plain(1,2) [OF q(2)] keep_plain(3) [OF f(2)] this]
  show ?thesis
    using q f by (simp add: href_tail [OF q(1) f(1)] percent_encode_id)
qed

subsection \<open>Round trip of the parameters\<close>

definition param_text :: "string \<Rightarrow> bool" where
  "param_text s \<longleftrightarrow> CHR ''&'' \<notin> set s \<and> CHR ''='' \<notin> set s"

definition entry_ok :: "string \<times> string option \<Rightarrow> bool" where
  "entry_ok e \<longleftrightarrow> fst e \<noteq> proto_key \<and> param_text (fst e) \<and> (case snd e of None \<Rightarrow> True | Some s \<Rightarrow> param_text s)"

definition params_ok :: "params \<Rightarrow> bool" where
  "params_ok ps \<longleftrightarrow> distinct (map fst ps) \<and> list_all entry_ok ps"

lemma params_ok_Nil [simp]: "params_ok []"
  by (simp add: params_ok_def)

lemma obj_set_keys: "fst ` set (obj_set k v ps) = (if k = proto_key then fst ` set ps else insert k (fst ` set ps))"
  by (force simp: obj_set_def)

lemma obj_set_all:
  assumes ps: "list_all R ps" and e: "k \<noteq> proto_key \<Longrightarrow> R (k, v)"
  shows "list_all R (obj_set k v ps)"
proof -
  have "list_all R (map (\<lambda>(k', v'). if k' = k then (k', v) else (k', v')) qs)" if "list_all R qs" "k \<noteq> proto_key" for qs
    using that(1) e [OF that(2)] by (induction qs) (auto split: prod.split)
  with ps e show ?thesis by (simp add: obj_set_def)
qed

lemma obj_set_distinct:
  assumes "distinct (map fst ps)"
  shows "distinct (map fst (obj_set k v ps))"
proof -
  have "map fst (map (\<lambda>(k', v'). if k' = k then (k', v) else (k', v')) ps) = map fst ps" by (induction ps) auto
  with assms show ?thesis unfolding obj_set_def by (auto simp del: map_map list.map_comp)
qed

lemma obj_set_ok: "params_ok ps \<Longrightarrow> (k \<noteq> proto_key \<Longrightarrow> entry_ok (k, v)) \<Longrightarrow> params_ok (obj_set k v ps)"
  by (simp add: params_ok_def obj_set_all obj_set_distinct)

lemma obj_delete_ok: "params_ok ps \<Longrightarrow> params_ok (obj_delete k ps)"
  by (auto simp: params_ok_def obj_delete_def distinct_map_filter list_all_iff)

lemma js_split_parts_text:
  assumes "CHR ''&'' \<notin> set part" and "w \<in> set (js_split ''='' part)"
  shows "param_text w"
  using js_split_char_parts [OF assms(2)] js_split_chars [OF assms(2)] assms(1) by (auto simp: param_text_def)

lemma add_param_ok:
  assumes "params_ok ret" and "CHR ''&'' \<notin> set part"
  shows "params_ok (add_param part ret)"
proof -
  let ?s = "js_split ''='' part"
  have "param_text (?s ! 0)" using js_split_parts_text [OF assms(2), of "?s ! 0"] by simp
  moreover have "length ?s > 1 \<Longrightarrow> param_text (?s ! 1)" using js_split_parts_text [OF assms(2), of "?s ! 1"] by simp
  ultimately show ?thesis
    using assms(1) unfolding add_param_def Let_def by (auto simp: entry_ok_def intro!: obj_set_ok)
qed

lemma parse_params_ok: "params_ok (parse_params q)"
proof -
  have "params_ok (fold add_param parts ret)" if "params_ok ret" "\<forall>w \<in> set parts. CHR ''&'' \<notin> set w" for parts ret
    using that by (induction parts arbitrary: ret) (auto simp: add_param_ok)
  from this [of "[]"] js_split_char_parts show ?thesis unfolding parse_params_def by (simp only: params_ok_Nil) blast
qed

lemma mset_own_entries: "mset (own_entries ps) = mset ps"
proof -
  have "filter (\<lambda>(k, _). \<not> array_index k) ps = filter (\<lambda>x. \<not> (\<lambda>(k, _). array_index k) x) ps"
    by (rule filter_cong) auto
  then show ?thesis unfolding own_entries_def by (simp only: mset_append mset_sort multiset_partition [symmetric] mset_filter)
qed

lemma own_entries_ok: "params_ok ps \<Longrightarrow> params_ok (own_entries ps)"
proof -
  assume ok: "params_ok ps"
  have "mset (map fst (own_entries ps)) = mset (map fst ps)" by (simp add: mset_own_entries)
  then have "distinct (map fst (own_entries ps)) = distinct (map fst ps)" by (rule mset_eq_imp_distinct_iff)
  moreover have "set (own_entries ps) = set ps" using mset_own_entries [of ps] by (rule mset_eq_setD)
  ultimately show ?thesis using ok by (simp add: params_ok_def list_all_iff)
qed

lemma add_param_entry:
  assumes "param_text k" and "param_text v" and "k \<noteq> proto_key" and "k \<notin> fst ` set ret"
  shows "add_param (k @ ''='' @ v) ret = ret @ [(k, Some v)]"
proof -
  have "js_split ''='' (k @ ''='' @ v) = [k, v]"
    using assms(1,2) js_split_char_append [of "CHR ''=''" k v] js_split_char_none [of "CHR ''=''" v] by (simp add: param_text_def)
  then show ?thesis using assms(3,4) unfolding add_param_def by (simp add: obj_set_def)
qed

lemma fold_add_param:
  assumes "distinct (map fst es)" and "\<forall>(k, v) \<in> set es. param_text k \<and> param_text v \<and> k \<noteq> proto_key \<and> k \<notin> fst ` set ret"
  shows "fold add_param (map (\<lambda>(k, v). k @ ''='' @ v) es) ret = ret @ map (\<lambda>(k, v). (k, Some v)) es"
  using assms
proof (induction es arbitrary: ret)
  case (Cons e es)
  obtain k v where e: "e = (k, v)" by (cases e)
  have "add_param (k @ ''='' @ v) ret = ret @ [(k, Some v)]" using Cons.prems(2) e by (intro add_param_entry) auto
  moreover have "fold add_param (map (\<lambda>(k, v). k @ ''='' @ v) es) (ret @ [(k, Some v)]) = (ret @ [(k, Some v)]) @ map (\<lambda>(k, v). (k, Some v)) es"
    using Cons.prems e by (intro Cons.IH) (auto simp: rev_image_eqI)
  ultimately show ?case using e by simp
qed simp

text \<open>What the page script prints as a query it reads back, for printed entries of any kind.\<close>

lemma parse_printed:
  assumes "distinct (map fst es)" and "\<forall>(k, v) \<in> set es. param_text k \<and> param_text v \<and> k \<noteq> proto_key"
  shows "parse_params (if es = [] then [] else ''?'' @ js_join ''&'' (map (\<lambda>(k, v). k @ ''='' @ v) es)) = map (\<lambda>(k, v). (k, Some v)) es"
proof (cases "es = []")
  case False
  have "\<forall>w \<in> set (map (\<lambda>(k, v). k @ ''='' @ v) es). CHR ''&'' \<notin> set w" using assms(2) by (auto simp: param_text_def)
  then have "js_split ''&'' (js_join ''&'' (map (\<lambda>(k, v). k @ ''='' @ v) es)) = map (\<lambda>(k, v). k @ ''='' @ v) es"
    using False by (intro js_split_join) simp_all
  moreover have "fold add_param (map (\<lambda>(k, v). k @ ''='' @ v) es) [] = map (\<lambda>(k, v). (k, Some v)) es"
    using fold_add_param [OF assms(1), of "[]"] assms(2) by auto
  ultimately show ?thesis using False by (simp add: parse_params_def)
qed (simp add: parse_params_def add_param_def)

lemma render_params_printed:
  "render_params ps =
     (let es = map (\<lambda>(k, v). (k, undefined_text v)) (own_entries ps)
      in if es = [] then [] else ''?'' @ js_join ''&'' (map (\<lambda>(k, v). k @ ''='' @ v) es))"
  by (simp add: render_params_def Let_def comp_def case_prod_unfold)

lemma printed_entries_ok:
  assumes "params_ok ps"
  defines "es \<equiv> map (\<lambda>(k, v). (k, undefined_text v)) (own_entries ps)"
  shows "distinct (map fst es)" and "\<forall>(k, v) \<in> set es. param_text k \<and> param_text v \<and> k \<noteq> proto_key"
proof -
  have ok: "params_ok (own_entries ps)" by (rule own_entries_ok [OF assms(1)])
  have "map fst es = map fst (own_entries ps)" by (simp add: es_def comp_def case_prod_unfold)
  with ok show "distinct (map fst es)" by (simp only: params_ok_def)
  have "param_text (undefined_text v)" if "entry_ok (k, v)" for k v
    using that by (cases v) (simp_all add: entry_ok_def undefined_text_def param_text_def)
  with ok show "\<forall>(k, v) \<in> set es. param_text k \<and> param_text v \<and> k \<noteq> proto_key"
    by (auto simp: es_def params_ok_def list_all_iff) (auto simp: entry_ok_def)
qed

subsection \<open>New addresses\<close>

text \<open>Whatever the scripts print behind an origin and path, the browser turns it into an address in normal form.\<close>

lemma escape_keep: "c \<in> set escape_chars \<Longrightarrow> query_keep c" "c \<in> set escape_chars \<Longrightarrow> fragment_keep c"
proof -
  have "list_all query_keep escape_chars" "list_all fragment_keep escape_chars" by code_simp+
  then show "c \<in> set escape_chars \<Longrightarrow> query_keep c" "c \<in> set escape_chars \<Longrightarrow> fragment_keep c"
    by (simp_all add: list_all_iff)
qed

lemma new_location:
  assumes "origin_ok a" "plain_text query" "CHR ''#'' \<notin> set query" "plain_text fragment"
    and "query @ fragment \<noteq> [] \<Longrightarrow> last (query @ fragment) \<noteq> CHR '' ''"
  defines "a' \<equiv> parse_href (base_text a @ a_pathname a @ url_tail query fragment)"
  shows "a_search a' = (if query = [] then [] else CHR ''?'' # percent_encode query_keep query)"
    and "location_ok a'" and "origin_ok a'"
proof -
  let ?q = "percent_encode query_keep query" and ?f = "percent_encode fragment_keep fragment"
  have e: "a' = a\<lparr>a_search := (if query = [] then [] else CHR ''?'' # ?q), a_hash := (if fragment = [] then [] else CHR ''#'' # ?f)\<rparr>"
    using parse_href_parts [OF assms(1-5)] by (simp add: a'_def)
  show "a_search a' = (if query = [] then [] else CHR ''?'' # ?q)" by (simp add: e)
  show o: "origin_ok a'" using assms(1) by (simp add: e origin_ok_def)
  have "list_all query_keep ?q" "list_all fragment_keep ?f" by (rule percent_encode_all; simp add: escape_keep)+
  moreover have "?q = [] \<longleftrightarrow> query = []" "?f = [] \<longleftrightarrow> fragment = []" using percent_encode_nonempty by fastforce+
  ultimately have "list_all query_keep ?q \<and> a_search a' = (if ?q = [] then [] else CHR ''?'' # ?q)"
    "list_all fragment_keep ?f \<and> a_hash a' = (if ?f = [] then [] else CHR ''#'' # ?f)" by (simp_all add: e)
  then have "\<exists>q. list_all query_keep q \<and> a_search a' = (if q = [] then [] else CHR ''?'' # q)"
    "\<exists>f. list_all fragment_keep f \<and> a_hash a' = (if f = [] then [] else CHR ''#'' # f)" by blast+
  with o show "location_ok a'" by (simp add: location_ok_def)
qed

definition entry_chars :: "(char \<Rightarrow> bool) \<Rightarrow> string \<times> string option \<Rightarrow> bool" where
  "entry_chars P e \<longleftrightarrow> list_all P (fst e) \<and> (case snd e of None \<Rightarrow> True | Some s \<Rightarrow> list_all P s)"

lemma add_param_chars:
  assumes ret: "list_all (entry_chars P) ret" and part: "list_all P part"
  shows "list_all (entry_chars P) (add_param part ret)"
proof -
  let ?s = "js_split ''='' part"
  have "list_all P w" if "w \<in> set ?s" for w using js_split_chars [OF that] part by (auto simp: list_all_iff)
  then have "list_all P (?s ! 0)" "length ?s > 1 \<Longrightarrow> list_all P (?s ! 1)" by simp_all
  then show ?thesis using ret unfolding add_param_def Let_def by (simp add: obj_set_all entry_chars_def)
qed

lemma parse_params_chars:
  assumes "list_all P q"
  shows "list_all (entry_chars P) (parse_params q)"
proof -
  have step: "list_all (entry_chars P) (fold add_param parts ret)"
    if "list_all (entry_chars P) ret" "\<forall>w \<in> set parts. list_all P w" for parts ret
    using that by (induction parts arbitrary: ret) (simp_all add: add_param_chars)
  let ?q = "if q \<noteq> [] \<and> hd q = CHR ''?'' then tl q else q"
  have q: "list_all P ?q" using assms by (cases q) simp_all
  have "list_all P w" if "w \<in> set (js_split ''&'' ?q)" for w using js_split_chars [OF that] q by (auto simp: list_all_iff)
  then show ?thesis unfolding parse_params_def by (intro step) simp_all
qed

subsection \<open>Properties\<close>

text \<open>Printing query parameters and reading them back. For every query string, printing the parsed parameters with
  \<open>renderURL\<close> and parsing the result gives the same keys in the order of a JavaScript object, each with its value, except that
  a parameter without a value comes back with the value \<open>undefined\<close>.\<close>

theorem params_roundtrip:
  "parse_params (render_params (parse_params q)) =
     map (\<lambda>(k, v). (k, Some (undefined_text v))) (own_entries (parse_params q))"
  unfolding render_params_printed Let_def parse_printed [OF printed_entries_ok [OF parse_params_ok]]
  by (simp add: comp_def case_prod_unfold)

end
