(* ===== verification/Searcher.thy ===== *)
theory Searcher
  imports Search_Teaser Page_Url
begin

section \<open>The search of the book (\<open>searcher.js\<close>)\<close>

text \<open>
  The search interface of a book page: its variables and the elements it drives as one record, its
  handlers as functions on it. The index library, the highlighting library and the generated index are parameters: the index is
  a function from a search sterm to hits, the highlighting keeps the words it was given. Handlers that can throw return
  the exception beside the state reached. The scroll position is not kept.
\<close>

subsection \<open>State\<close>

record hit_doc =
  hd_ref :: nat
  hd_body :: string
  hd_breadcrumbs :: string

record search_config =
  cf_teaser_word_count :: nat
  cf_limit_results :: nat
  cf_doc_urls :: "string list"
  cf_search :: "string \<Rightarrow> hit_doc list"

record search_env =
  se_stemmer :: "string \<Rightarrow> string"
  se_path_to_root :: string
  se_select_focuses :: bool

record result_item =
  ri_html :: string
  ri_href :: string
  ri_focus :: bool

record searcher =
  sr_location :: anchor
  sr_history :: "anchor list"
  sr_wrap_hidden :: bool
  sr_expanded :: string
  sr_value :: string
  sr_active :: bool
  sr_searching :: bool
  sr_has_focus :: bool
  sr_header :: string
  sr_results :: "result_item list"
  sr_results_hidden :: bool
  sr_current_searchterm :: string
  sr_teaser_count :: nat
  sr_config :: "search_config option"
  sr_script :: bool
  sr_marked :: "string list"
  sr_fading :: bool
  sr_unmark_timers :: nat
  sr_assigned :: "string list"

definition URL_SEARCH_PARAM :: string where "URL_SEARCH_PARAM = ''search''"

definition URL_MARK_PARAM :: string where "URL_MARK_PARAM = ''highlight''"

definition hasFocus :: "searcher \<Rightarrow> bool" where
  "hasFocus s = sr_has_focus s"

definition removeChildren :: "searcher \<Rightarrow> searcher" where
  "removeChildren s = s\<lparr>sr_results := []\<rparr>"

definition unmark :: "searcher \<Rightarrow> searcher" where
  "unmark s = s\<lparr>sr_marked := []\<rparr>"

definition searchbar_select :: "search_env \<Rightarrow> searcher \<Rightarrow> searcher" where
  "searchbar_select env s = (if se_select_focuses env then s\<lparr>sr_has_focus := True\<rparr> else s)"

subsection \<open>Results\<close>

definition new_TypeError :: js_error where
  "new_TypeError = \<lparr>e_name = ''TypeError'', e_message = ''Cannot read properties of undefined'', e_code = None, e_errno = None\<rparr>"

definition encoded_search :: "string list \<Rightarrow> string" where
  "encoded_search searchterms =
     concat (map (\<lambda>c. if c = CHR 0x27 then ''%27'' else [c]) (encodeURIComponent (js_join '' '' searchterms)))"

definition result_href :: "search_env \<Rightarrow> string list \<Rightarrow> string list \<Rightarrow> string" where
  "result_href env url searchterms =
     se_path_to_root env @ url ! 0 @ ''?'' @ URL_MARK_PARAM @ ''='' @ encoded_search searchterms @ ''#'' @ url ! 1"

definition formatSearchResult ::
    "search_env \<Rightarrow> search_config \<Rightarrow> nat \<Rightarrow> hit_doc \<Rightarrow> string list \<Rightarrow> js_error + (string \<times> string)" where
  "formatSearchResult env cf teaser_count result searchterms =
     (let teaser = makeTeaser (se_stemmer env) (cf_teaser_word_count cf) (escapeHTML (hd_body result)) searchterms;
          q = [CHR 0x22]
      in if hd_ref result < length (cf_doc_urls cf)
         then let parts = js_split ''#'' (cf_doc_urls cf ! hd_ref result);
                  url = (if length parts = 1 then parts @ [[]] else parts);
                  target = result_href env url searchterms;
                  n = int_string (int teaser_count)
              in Inr (''<a href='' @ q @ target @ q @ '' aria-details='' @ q @ ''mdbook-teaser_'' @ n @ q @ ''>'' @
                      hd_breadcrumbs result @ ''</a>'' @ ''<span class='' @ q @ ''teaser'' @ q @ '' id='' @ q @ ''mdbook-teaser_'' @ n @ q @
                      '' aria-label='' @ q @ ''Search Result Teaser'' @ q @ ''>'' @ teaser @ ''</span>'', target)
         else Inl new_TypeError)"

fun append_results ::
    "search_env \<Rightarrow> search_config \<Rightarrow> string list \<Rightarrow> hit_doc list \<Rightarrow> searcher \<Rightarrow> js_error option \<times> searcher" where
  "append_results env cf searchterms [] s = (None, s)"
| "append_results env cf searchterms (r # rs) s =
     (let s1 = s\<lparr>sr_teaser_count := sr_teaser_count s + 1\<rparr>
      in case formatSearchResult env cf (sr_teaser_count s1) r searchterms of
           Inl e \<Rightarrow> (Some e, s1)
         | Inr (html, target) \<Rightarrow>
             append_results env cf searchterms rs
               (s1\<lparr>sr_results := sr_results s1 @ [\<lparr>ri_html = html, ri_href = target, ri_focus = False\<rparr>]\<rparr>))"

definition showResults :: "bool \<Rightarrow> searcher \<Rightarrow> searcher" where
  "showResults yes s = s\<lparr>sr_results_hidden := \<not> yes\<rparr>"

definition doSearch :: "search_env \<Rightarrow> string \<Rightarrow> searcher \<Rightarrow> js_error option \<times> searcher" where
  "doSearch env searchterm s =
     (if sr_current_searchterm s = searchterm then (None, s)
      else let s1 = s\<lparr>sr_searching := True\<rparr>
        in case sr_config s1 of
             None \<Rightarrow> (None, s1)
           | Some cf \<Rightarrow>
               let results = cf_search cf searchterm;
                   resultcount = min (length results) (cf_limit_results cf);
                   s2 = removeChildren (s1\<lparr>sr_current_searchterm := searchterm, sr_header := formatSearchMetric resultcount searchterm\<rparr>)
               in case append_results env cf (js_split '' '' searchterm) (take resultcount results) s2 of
                    (Some e, s3) \<Rightarrow> (Some e, s3)
                  | (None, s3) \<Rightarrow> (None, (showResults True s3)\<lparr>sr_searching := False\<rparr>))"

subsection \<open>Address and history\<close>

datatype url_action = Push | Replace | Push_if_new_search_else_replace

definition pushState :: "string \<Rightarrow> searcher \<Rightarrow> searcher" where
  "pushState target s = s\<lparr>sr_history := sr_location s # sr_history s, sr_location := parse_href target\<rparr>"

definition replaceState :: "string \<Rightarrow> searcher \<Rightarrow> searcher" where
  "replaceState target s = s\<lparr>sr_location := parse_href target\<rparr>"

definition setSearchUrlParameters :: "string \<Rightarrow> url_action \<Rightarrow> searcher \<Rightarrow> searcher" where
  "setSearchUrlParameters searchterm action s =
     (let u = parseURL (href (sr_location s));
          first_search = (\<not> hasOwnProperty URL_SEARCH_PARAM (url_params u));
          u1 = (if searchterm \<noteq> [] \<or> action = Push_if_new_search_else_replace
                then u\<lparr>url_params := obj_delete URL_MARK_PARAM (obj_set URL_SEARCH_PARAM (Some searchterm) (url_params u)), url_hash := []\<rparr>
                else u\<lparr>url_params := obj_delete URL_SEARCH_PARAM (obj_delete URL_MARK_PARAM (url_params u))\<rparr>)
      in if action = Push \<or> action = Push_if_new_search_else_replace \<and> first_search then pushState (renderURL u1) s
         else if action = Replace \<or> action = Push_if_new_search_else_replace \<and> \<not> first_search then replaceState (renderURL u1) s
         else s)"

subsection \<open>Handlers\<close>

definition loadSearchScript :: "searcher \<Rightarrow> searcher" where
  "loadSearchScript s = (if sr_script s then s else s\<lparr>sr_searching := True, sr_script := True\<rparr>)"

definition showSearch :: "bool \<Rightarrow> searcher \<Rightarrow> searcher" where
  "showSearch yes s =
     (if yes then (loadSearchScript s)\<lparr>sr_wrap_hidden := False, sr_expanded := ''true''\<rparr>
      else s\<lparr>sr_wrap_hidden := True, sr_expanded := ''false'', sr_results := map (\<lambda>r. r\<lparr>ri_focus := False\<rparr>) (sr_results s)\<rparr>)"

definition searchbarKeyUpHandler :: "search_env \<Rightarrow> searcher \<Rightarrow> js_error option \<times> searcher" where
  "searchbarKeyUpHandler env s =
     (let searchterm = js_trim (sr_value s)
      in case (if searchterm \<noteq> [] then doSearch env searchterm (s\<lparr>sr_active := True\<rparr>)
               else (None, removeChildren (showResults False (s\<lparr>sr_active := False\<rparr>)))) of
           (Some e, s1) \<Rightarrow> (Some e, s1)
         | (None, s1) \<Rightarrow> (None, unmark (setSearchUrlParameters searchterm Push_if_new_search_else_replace s1)))"

definition search_init :: "search_env \<Rightarrow> search_config \<Rightarrow> searcher \<Rightarrow> js_error option \<times> searcher" where
  "search_init env cf s =
     (let s1 = s\<lparr>sr_config := Some cf, sr_searching := False, sr_has_focus := True\<rparr>;
          searchterm = js_trim (sr_value s1)
      in if searchterm \<noteq> [] then doSearch env searchterm (s1\<lparr>sr_active := True\<rparr>) else (None, s1))"

definition unfocusSearchbar :: "searcher \<Rightarrow> searcher" where
  "unfocusSearchbar s = s\<lparr>sr_has_focus := False\<rparr>"

definition searchIconClickHandler :: "search_env \<Rightarrow> searcher \<Rightarrow> searcher" where
  "searchIconClickHandler env s =
     (if sr_wrap_hidden s then searchbar_select env (showSearch True s) else showSearch False s)"

definition replace_plus :: "string \<Rightarrow> string" where
  "replace_plus s = concat (map (\<lambda>c. if c = CHR ''+'' then ''%20'' else [c]) s)"

definition search_from_url :: "search_env \<Rightarrow> params \<Rightarrow> searcher \<Rightarrow> js_error option \<times> searcher" where
  "search_from_url env ps s =
     (if hasOwnProperty URL_SEARCH_PARAM ps \<and> obj_get URL_SEARCH_PARAM ps \<noteq> Some []
      then let s1 = showSearch True s
        in case decodeURIComponent (replace_plus (undefined_text (obj_get URL_SEARCH_PARAM ps))) of
             Inl e \<Rightarrow> (Some e, s1)
           | Inr v \<Rightarrow> searchbarKeyUpHandler env (s1\<lparr>sr_value := v\<rparr>)
      else (None, showSearch False s))"

definition mark_from_url :: "params \<Rightarrow> searcher \<Rightarrow> js_error option \<times> searcher" where
  "mark_from_url ps s =
     (if hasOwnProperty URL_MARK_PARAM ps
      then (case decodeURIComponent (undefined_text (obj_get URL_MARK_PARAM ps)) of
              Inl e \<Rightarrow> (Some e, s)
            | Inr v \<Rightarrow> (None, s\<lparr>sr_marked := sr_marked s @ js_split '' '' v\<rparr>))
      else (None, s))"

definition doSearchOrMarkFromUrl :: "search_env \<Rightarrow> searcher \<Rightarrow> js_error option \<times> searcher" where
  "doSearchOrMarkFromUrl env s =
     (let ps = url_params (parseURL (href (sr_location s)))
      in case search_from_url env ps s of
           (Some e, s1) \<Rightarrow> (Some e, s1)
         | (None, s1) \<Rightarrow> mark_from_url ps s1)"

text \<open>A click on one of the \<open>n\<close> marks found on the page fades all of them and schedules their removal.\<close>

definition hide_marks :: "nat \<Rightarrow> searcher \<Rightarrow> searcher" where
  "hide_marks n s = (if n = 0 then s else s\<lparr>sr_fading := True, sr_unmark_timers := sr_unmark_timers s + n\<rparr>)"

definition unmark_timer :: "searcher \<Rightarrow> searcher" where
  "unmark_timer s = (if sr_unmark_timers s = 0 then s else unmark (s\<lparr>sr_unmark_timers := sr_unmark_timers s - 1\<rparr>))"

record key_event =
  ke_modifier :: bool
  ke_target_type :: string
  ke_target_nodeName :: string
  ke_key :: string

definition editing_target :: "key_event \<Rightarrow> bool" where
  "editing_target e \<longleftrightarrow> toLowerCase (ke_target_nodeName e) \<in> {''input'', ''select'', ''textarea''}"

text \<open>The position of the result with the class \<open>focus\<close>, the first one if there are several.\<close>

fun focused_result :: "result_item list \<Rightarrow> nat option" where
  "focused_result [] = None"
| "focused_result (r # rs) = (if ri_focus r then Some 0 else map_option Suc (focused_result rs))"

definition set_focus :: "nat \<Rightarrow> bool \<Rightarrow> result_item list \<Rightarrow> result_item list" where
  "set_focus i b rs = (if i < length rs then rs[i := (rs ! i)\<lparr>ri_focus := b\<rparr>] else rs)"

text \<open>The handler of key presses returns whether it suppressed the default action of the key.\<close>

definition globalKeyHandler :: "search_env \<Rightarrow> key_event \<Rightarrow> searcher \<Rightarrow> bool \<times> searcher" where
  "globalKeyHandler env e s =
     (let key = ke_key e
      in if ke_modifier e \<or> ke_target_type e = ''textarea'' \<or> ke_target_type e = ''text'' \<or> (\<not> hasFocus s \<and> editing_target e)
         then (False, s)
         else if key = ''Escape''
         then let s1 = setSearchUrlParameters [] (if js_trim (sr_value s) \<noteq> [] then Push else Replace) (s\<lparr>sr_active := False\<rparr>);
                  s2 = (if hasFocus s1 then unfocusSearchbar s1 else s1)
              in (True, unmark (showSearch False s2))
         else if \<not> hasFocus s \<and> (key = ''s'' \<or> key = ''/'')
         then (True, searchbar_select env (showSearch True s))
         else if hasFocus s \<and> (key = ''ArrowDown'' \<or> key = ''Enter'')
         then (case sr_results s of
                 [] \<Rightarrow> (True, s)
               | r # rs \<Rightarrow>
                   let s1 = (unfocusSearchbar s)\<lparr>sr_results := set_focus 0 True (sr_results s)\<rparr>
                   in (True, if key = ''Enter'' then s1\<lparr>sr_assigned := sr_assigned s1 @ [ri_href r]\<rparr> else s1))
         else if \<not> hasFocus s \<and> (key = ''ArrowDown'' \<or> key = ''ArrowUp'' \<or> key = ''Enter'')
         then (case focused_result (sr_results s) of
                 None \<Rightarrow> (False, s)
               | Some i \<Rightarrow>
                   (True,
                    if key = ''ArrowDown''
                    then (if i + 1 < length (sr_results s)
                          then s\<lparr>sr_results := set_focus (i + 1) True (set_focus i False (sr_results s))\<rparr> else s)
                    else if key = ''ArrowUp''
                    then let s1 = s\<lparr>sr_results := set_focus i False (sr_results s)\<rparr>
                         in if i > 0 then s1\<lparr>sr_results := set_focus (i - 1) True (sr_results s1)\<rparr>
                            else searchbar_select env s1
                    else s\<lparr>sr_assigned := sr_assigned s @ [ri_href (sr_results s ! i)]\<rparr>))
         else (False, s))"

subsection \<open>Events\<close>

text \<open>What happens to a page in any order: typing, clicks, keys, the index arriving (once, after it was requested), going back to
  an address, clicks on marks and their timers, and the search field gaining or losing focus.\<close>

datatype search_event =
    Typed string | IconClicked | KeyPressed key_event | IndexLoaded search_config
  | Visited anchor | MarkClicked nat | UnmarkTimer | BarFocused bool

fun search_step :: "search_env \<Rightarrow> search_event \<Rightarrow> searcher \<Rightarrow> searcher" where
  "search_step env (Typed v) s = snd (searchbarKeyUpHandler env (s\<lparr>sr_value := v\<rparr>))"
| "search_step env IconClicked s = searchIconClickHandler env s"
| "search_step env (KeyPressed e) s = snd (globalKeyHandler env e s)"
| "search_step env (IndexLoaded cf) s =
     (if sr_script s \<and> sr_config s = None then snd (search_init env cf s) else s)"
| "search_step env (Visited a) s = snd (doSearchOrMarkFromUrl env (s\<lparr>sr_location := a\<rparr>))"
| "search_step env (MarkClicked n) s = hide_marks n s"
| "search_step env UnmarkTimer s = unmark_timer s"
| "search_step env (BarFocused b) s = s\<lparr>sr_has_focus := b\<rparr>"

text \<open>An index whose hits refer to pages it knows.\<close>

definition config_ok :: "search_config \<Rightarrow> bool" where
  "config_ok cf \<longleftrightarrow> (\<forall>sterm. \<forall>r \<in> set (cf_search cf sterm). hd_ref r < length (cf_doc_urls cf))"

fun event_ok :: "search_event \<Rightarrow> bool" where
  "event_ok (IndexLoaded cf) = config_ok cf"
| "event_ok _ = True"

definition search_ok :: "searcher \<Rightarrow> bool" where
  "search_ok s \<longleftrightarrow>
     sr_expanded s = (if sr_wrap_hidden s then ''false'' else ''true'') \<and>
     (sr_results_hidden s \<longrightarrow> sr_results s = []) \<and>
     (case sr_config s of
        None \<Rightarrow> sr_results s = [] \<and> sr_results_hidden s \<and> sr_current_searchterm s = []
      | Some cf \<Rightarrow> config_ok cf \<and> length (sr_results s) \<le> cf_limit_results cf \<and> sr_script s \<and> \<not> sr_searching s)"

lemma append_results_ok:
  assumes "\<forall>r \<in> set rs. hd_ref r < length (cf_doc_urls cf)"
  shows "\<exists>its n. append_results env cf terms rs s = (None, s\<lparr>sr_results := sr_results s @ its, sr_teaser_count := n\<rparr>) \<and>
    length its = length rs"
  using assms
proof (induction rs arbitrary: s)
  case Nil
  show ?case by (intro exI [of _ "[]"] exI [of _ "sr_teaser_count s"]) simp
next
  case (Cons r rs)
  let ?s = "s\<lparr>sr_teaser_count := sr_teaser_count s + 1\<rparr>"
  obtain html target where f: "formatSearchResult env cf (sr_teaser_count ?s) r terms = Inr (html, target)"
    using Cons.prems by (simp add: formatSearchResult_def Let_def)
  let ?it = "\<lparr>ri_html = html, ri_href = target, ri_focus = False\<rparr>"
  from Cons.IH [of "?s\<lparr>sr_results := sr_results s @ [?it]\<rparr>"] Cons.prems obtain its n where
    "append_results env cf terms rs (?s\<lparr>sr_results := sr_results s @ [?it]\<rparr>) =
      (None, s\<lparr>sr_results := (sr_results s @ [?it]) @ its, sr_teaser_count := n\<rparr>)" "length its = length rs" by auto
  with f show ?case by (intro exI [of _ "?it # its"] exI [of _ n]) simp
qed

text \<open>What a search does: nothing for the sterm it showed last, nothing but the spinner without an index, and otherwise
  the hits up to the limit, without an exception.\<close>

lemma doSearch_cases:
  assumes "search_ok s"
  obtains "sr_current_searchterm s = sterm" "doSearch env sterm s = (None, s)"
  | "sr_config s = None" "doSearch env sterm s = (None, s\<lparr>sr_searching := True\<rparr>)"
  | cf its n where "sr_config s = Some cf" "length its = min (length (cf_search cf sterm)) (cf_limit_results cf)"
      "doSearch env sterm s = (None, s\<lparr>sr_current_searchterm := sterm, sr_header := formatSearchMetric (length its) sterm,
         sr_results := its, sr_teaser_count := n, sr_results_hidden := False, sr_searching := False\<rparr>)"
proof (cases "sr_current_searchterm s = sterm")
  case True
  then show thesis using that(1) by (simp add: doSearch_def)
next
  case False
  show thesis
  proof (cases "sr_config s")
    case None
    with False that(2) show thesis by (simp add: doSearch_def Let_def)
  next
    case (Some cf)
    let ?n = "min (length (cf_search cf sterm)) (cf_limit_results cf)"
    let ?s = "s\<lparr>sr_searching := True, sr_current_searchterm := sterm, sr_header := formatSearchMetric ?n sterm, sr_results := []\<rparr>"
    have "\<forall>r \<in> set (take ?n (cf_search cf sterm)). hd_ref r < length (cf_doc_urls cf)"
      using assms Some by (auto simp: search_ok_def config_ok_def dest: in_set_takeD)
    from append_results_ok [OF this, of env "js_split '' '' sterm" ?s] obtain its n where
      "append_results env cf (js_split '' '' sterm) (take ?n (cf_search cf sterm)) ?s =
        (None, ?s\<lparr>sr_results := its, sr_teaser_count := n\<rparr>)" "length its = ?n" by auto
    with False Some that(3) [of cf its n] show thesis
      by (simp add: doSearch_def Let_def removeChildren_def showResults_def)
  qed
qed

lemma doSearch_ok:
  assumes "search_ok s"
  shows "fst (doSearch env sterm s) = None \<and> search_ok (snd (doSearch env sterm s))"
  by (rule doSearch_cases [OF assms, of sterm env]) (use assms in \<open>auto simp: search_ok_def split: option.splits\<close>)

lemma search_ok_updates [simp]:
  "search_ok (s\<lparr>sr_location := a\<rparr>) = search_ok s" "search_ok (s\<lparr>sr_history := h\<rparr>) = search_ok s"
  "search_ok (s\<lparr>sr_value := v\<rparr>) = search_ok s" "search_ok (s\<lparr>sr_active := b\<rparr>) = search_ok s"
  "search_ok (s\<lparr>sr_has_focus := b\<rparr>) = search_ok s" "search_ok (s\<lparr>sr_marked := m\<rparr>) = search_ok s"
  "search_ok (s\<lparr>sr_fading := b\<rparr>) = search_ok s" "search_ok (s\<lparr>sr_unmark_timers := n\<rparr>) = search_ok s"
  "search_ok (s\<lparr>sr_assigned := l\<rparr>) = search_ok s"
  by (simp_all add: search_ok_def split: option.split)

lemma setSearchUrlParameters_ok [simp]: "search_ok (setSearchUrlParameters sterm action s) = search_ok s"
  by (simp add: setSearchUrlParameters_def pushState_def replaceState_def Let_def)

lemma unmark_ok [simp]: "search_ok (unmark s) = search_ok s" "search_ok (searchbar_select env s) = search_ok s"
  "search_ok (unfocusSearchbar s) = search_ok s"
  by (simp_all add: unmark_def searchbar_select_def unfocusSearchbar_def)

lemma showSearch_ok: "search_ok s \<Longrightarrow> search_ok (showSearch yes s)"
  by (auto simp: search_ok_def showSearch_def loadSearchScript_def split: option.splits)

lemma set_focus_ok:
  assumes "search_ok s" and "length rs = length (sr_results s)"
  shows "search_ok (s\<lparr>sr_results := rs\<rparr>)"
  using assms by (auto simp: search_ok_def split: option.splits)

lemma length_set_focus [simp]: "length (set_focus i b rs) = length rs"
  by (simp add: set_focus_def)

lemma searchbarKeyUpHandler_ok:
  assumes "search_ok s"
  shows "fst (searchbarKeyUpHandler env s) = None \<and> search_ok (snd (searchbarKeyUpHandler env s))"
proof (cases "js_trim (sr_value s) = []")
  case True
  have "search_ok (removeChildren (showResults False (s\<lparr>sr_active := False\<rparr>)))"
    using assms by (auto simp: search_ok_def removeChildren_def showResults_def split: option.splits)
  with True show ?thesis by (simp add: searchbarKeyUpHandler_def)
next
  case False
  obtain s1 where "doSearch env (js_trim (sr_value s)) (s\<lparr>sr_active := True\<rparr>) = (None, s1)" "search_ok s1"
    using doSearch_ok [of "s\<lparr>sr_active := True\<rparr>" env "js_trim (sr_value s)"] assms by (metis prod.collapse search_ok_updates(4))
  with False show ?thesis by (simp add: searchbarKeyUpHandler_def)
qed

lemma mark_from_url_ok: "search_ok s \<Longrightarrow> search_ok (snd (mark_from_url ps s))"
  by (simp add: mark_from_url_def split: sum.split)

lemma search_from_url_ok: "search_ok s \<Longrightarrow> search_ok (snd (search_from_url env ps s))"
  by (auto simp: search_from_url_def showSearch_ok searchbarKeyUpHandler_ok Let_def split: sum.split)

lemma doSearchOrMarkFromUrl_ok: "search_ok s \<Longrightarrow> search_ok (snd (doSearchOrMarkFromUrl env s))"
  using search_from_url_ok [of s env "url_params (parseURL (href (sr_location s)))"]
  by (auto simp: doSearchOrMarkFromUrl_def Let_def mark_from_url_ok split: prod.split option.split)

lemma globalKeyHandler_ok:
  assumes "search_ok s"
  shows "search_ok (snd (globalKeyHandler env e s))"
proof -
  have r: "search_ok ((unfocusSearchbar s)\<lparr>sr_results := rs\<rparr>)" "search_ok (s\<lparr>sr_results := rs\<rparr>)" "search_ok (searchbar_select env (s\<lparr>sr_results := rs\<rparr>))"
    if "length rs = length (sr_results s)" for rs
    using that assms set_focus_ok by (simp_all add: unfocusSearchbar_def)
  have e: "search_ok (unmark (showSearch False (setSearchUrlParameters [] act (s\<lparr>sr_active := False\<rparr>))))"
    "search_ok (unmark (showSearch False (unfocusSearchbar (setSearchUrlParameters [] act (s\<lparr>sr_active := False\<rparr>)))))"
    "search_ok (searchbar_select env (showSearch True s))" for act
    using assms showSearch_ok by simp_all
  show ?thesis
    unfolding globalKeyHandler_def Let_def
    using assms r e by (simp split: list.split option.split if_split del: unmark_ok)
qed

lemma search_step_ok:
  assumes "search_ok s" and "event_ok ev"
  shows "search_ok (search_step env ev s)"
proof (cases ev)
  case (IndexLoaded cf)
  have "search_ok (snd (search_init env cf s))" if "sr_script s" "sr_config s = None"
  proof -
    let ?s = "s\<lparr>sr_config := Some cf, sr_searching := False, sr_has_focus := True\<rparr>"
    have "search_ok ?s" using assms that IndexLoaded by (simp add: search_ok_def)
    then show ?thesis using doSearch_ok [of "?s\<lparr>sr_active := True\<rparr>" env "js_trim (sr_value s)"]
      by (simp add: search_init_def Let_def del: search_ok_updates(5))
  qed
  with IndexLoaded assms show ?thesis by simp
qed (use assms in \<open>simp_all add: searchbarKeyUpHandler_ok globalKeyHandler_ok doSearchOrMarkFromUrl_ok hide_marks_def unmark_timer_def
    searchIconClickHandler_def showSearch_ok\<close>)

lemma search_steps_ok:
  "search_ok s \<Longrightarrow> \<forall>ev \<in> set evs. event_ok ev \<Longrightarrow> search_ok (fold (search_step env) evs s)"
  by (induction evs arbitrary: s) (auto simp: search_step_ok)

subsection \<open>The search term in the address\<close>

definition printed :: "params \<Rightarrow> (string \<times> string) list" where
  "printed ps = map (\<lambda>(k, v). (k, undefined_text v)) (own_entries ps)"

definition query_text :: "(string \<times> string) list \<Rightarrow> string" where
  "query_text es = js_join ''&'' (map (\<lambda>(k, v). k @ ''='' @ v) es)"

lemma query_text_empty [simp]: "query_text es = [] \<longleftrightarrow> es = []"
  by (cases es; cases "tl es") (auto simp: query_text_def)

lemma render_params_tail: "render_params ps = url_tail (query_text (printed ps)) []"
  unfolding render_params_printed Let_def printed_def [symmetric] query_text_def [symmetric] url_tail_def by simp

lemma location_search_chars:
  assumes "location_ok a"
  shows "list_all query_keep (a_search a)"
proof -
  have "query_keep (CHR ''?'')" by code_simp
  then show ?thesis using assms by (auto simp: location_ok_def)
qed

lemma render_page_url:
  assumes "location_ok a"
  shows "renderURL ((parseURL (href a))\<lparr>url_params := ps, url_hash := h\<rparr>) =
    base_text a @ a_pathname a @ render_params ps @ (if h \<noteq> [] then CHR ''#'' # h else [])"
    and "url_params (parseURL (href a)) = parse_params (a_search a)"
proof -
  have o: "origin_ok a" using assms by (simp add: location_ok_def)
  show "renderURL ((parseURL (href a))\<lparr>url_params := ps, url_hash := h\<rparr>) =
    base_text a @ a_pathname a @ render_params ps @ (if h \<noteq> [] then CHR ''#'' # h else [])"
    by (rule origin_okE [OF o])
       (simp add: renderURL_def parseURL_def Let_def parse_href_href [OF assms] base_text_def remove_first_def port_text_def remove1_append)
  show "url_params (parseURL (href a)) = parse_params (a_search a)"
    by (simp add: parseURL_def Let_def parse_href_href [OF assms])
qed

lemma obj_set_mem: "k \<noteq> proto_key \<Longrightarrow> (k, v) \<in> set (obj_set k v ps)"
  by (force simp: obj_set_def)

lemma param_text_encode: "param_text s \<Longrightarrow> param_text (percent_encode query_keep s)"
proof -
  assume s: "param_text s"
  have "CHR ''&'' \<notin> set escape_chars" "CHR ''='' \<notin> set escape_chars" by (simp_all add: escape_chars_def)
  with s have "list_all (\<lambda>c. c \<noteq> CHR ''&'' \<and> c \<noteq> CHR ''='') (percent_encode query_keep s)"
    by (intro percent_encode_all) (auto simp: param_text_def)
  then show ?thesis by (auto simp: param_text_def list_all_iff)
qed

lemma encode_query_text:
  assumes "\<forall>(k, v) \<in> set es. list_all query_keep k"
  shows "percent_encode query_keep (query_text es) = query_text (map (\<lambda>(k, v). (k, percent_encode query_keep v)) es)"
proof -
  have k: "query_keep (CHR ''&'')" "query_keep (CHR ''='')" by code_simp+
  have "percent_encode query_keep (k @ ''='' @ v) = k @ ''='' @ percent_encode query_keep v" if "(k, v) \<in> set es" for k v
    using that assms k by (auto simp: percent_encode_id percent_encode_Cons)
  then have "map (percent_encode query_keep) (map (\<lambda>(k, v). k @ ''='' @ v) es) =
      map (\<lambda>(k, v). k @ ''='' @ v) (map (\<lambda>(k, v). (k, percent_encode query_keep v)) es)"
    by (auto simp: comp_def case_prod_unfold)
  moreover have "list_all query_keep ''&''" using k by simp
  ultimately show ?thesis unfolding query_text_def by (simp only: percent_encode_join)
qed

text \<open>Entries that are printed without loss.\<close>

definition printable_value :: "string \<Rightarrow> bool" where
  "printable_value s \<longleftrightarrow> plain_text s \<and> CHR ''#'' \<notin> set s \<and> (s = [] \<or> last s \<noteq> CHR '' '')"

definition printable_entry :: "string \<times> string option \<Rightarrow> bool" where
  "printable_entry e \<longleftrightarrow> list_all query_keep (fst e) \<and> printable_value (undefined_text (snd e))"

lemma query_keep_printable: "list_all query_keep s \<Longrightarrow> printable_value s"
  unfolding printable_value_def by (metis keep_plain(1,2,4) last_in_set)

lemma entry_printable: "entry_chars query_keep e \<Longrightarrow> printable_entry e"
proof -
  assume e: "entry_chars query_keep e"
  have "list_all query_keep ''undefined''" by code_simp
  with e have "list_all query_keep (undefined_text (snd e))"
    by (cases "snd e") (simp_all add: entry_chars_def undefined_text_def)
  with e query_keep_printable show ?thesis by (simp add: printable_entry_def entry_chars_def)
qed

lemma query_text_printable:
  assumes "\<forall>(k, v) \<in> set es. list_all query_keep k \<and> printable_value v"
  shows "plain_text (query_text es)" and "CHR ''#'' \<notin> set (query_text es)"
    and "query_text es \<noteq> [] \<Longrightarrow> last (query_text es) \<noteq> CHR '' ''"
proof -
  have part: "plain_text (k @ ''='' @ v) \<and> CHR ''#'' \<notin> set (k @ ''='' @ v) \<and> last (k @ ''='' @ v) \<noteq> CHR '' ''"
    if "(k, v) \<in> set es" for k v
    using that assms keep_plain(1,2) [of k] by (auto simp: printable_value_def plain_text_def)
  have join: "plain_text (js_join ''&'' ws) \<and> CHR ''#'' \<notin> set (js_join ''&'' ws) \<and>
      (js_join ''&'' ws \<noteq> [] \<longrightarrow> last (js_join ''&'' ws) \<noteq> CHR '' '')"
    if "\<forall>w \<in> set ws. plain_text w \<and> CHR ''#'' \<notin> set w \<and> w \<noteq> [] \<and> last w \<noteq> CHR '' ''" for ws
    using that by (induction "''&''" ws rule: js_join.induct) (auto simp: plain_text_def js_join_Cons)
  have "\<forall>w \<in> set (map (\<lambda>(k, v). k @ ''='' @ v) es). plain_text w \<and> CHR ''#'' \<notin> set w \<and> w \<noteq> [] \<and> last w \<noteq> CHR '' ''"
    using part by auto
  from join [OF this] show "plain_text (query_text es)" "CHR ''#'' \<notin> set (query_text es)"
    "query_text es \<noteq> [] \<Longrightarrow> last (query_text es) \<noteq> CHR '' ''" by (simp_all add: query_text_def)
qed

text \<open>Replacing the query of a page by printable entries: the browser stores, and the script reads back, the percent-encoded values.\<close>

lemma print_params_location:
  assumes a: "location_ok a" and ok: "params_ok ps" and pr: "list_all printable_entry ps"
  defines "a' \<equiv> parse_href (renderURL ((parseURL (href a))\<lparr>url_params := ps, url_hash := []\<rparr>))"
  shows "location_ok a'"
    and "parse_params (a_search a') = map (\<lambda>(k, v). (k, Some (percent_encode query_keep v))) (printed ps)"
proof -
  let ?es = "printed ps"
  let ?es' = "map (\<lambda>(k, v). (k, percent_encode query_keep v)) ?es"
  have o: "origin_ok a" using a by (simp add: location_ok_def)
  have "set (own_entries ps) = set ps" using mset_own_entries [of ps] by (rule mset_eq_setD)
  with pr have es: "\<forall>(k, v) \<in> set ?es. list_all query_keep k \<and> printable_value v"
    by (auto simp: printed_def list_all_iff printable_entry_def)
  note q = query_text_printable [OF es]
  have a': "a' = parse_href (base_text a @ a_pathname a @ url_tail (query_text ?es) [])"
    by (simp add: a'_def render_page_url(1) [OF a] render_params_tail)
  have l: "query_text ?es @ [] \<noteq> [] \<Longrightarrow> last (query_text ?es @ []) \<noteq> CHR '' ''" using q(3) by simp
  have n: "plain_text []" by (simp add: plain_text_def)
  note loc = new_location [OF o q(1,2) n l, folded a']
  show "location_ok a'" by (rule loc(2))
  have "\<forall>(k, v) \<in> set ?es. list_all query_keep k" using es by auto
  from encode_query_text [OF this] loc(1) have "a_search a' = (if ?es' = [] then [] else ''?'' @ query_text ?es')" by simp
  moreover have "distinct (map fst ?es')" "\<forall>(k, v) \<in> set ?es'. param_text k \<and> param_text v \<and> k \<noteq> proto_key"
    using printed_entries_ok [OF ok, folded printed_def] param_text_encode by (auto simp: comp_def case_prod_unfold)
  ultimately have "parse_params (a_search a') = map (\<lambda>(k, v). (k, Some v)) ?es'"
    using parse_printed [of ?es'] by (simp only: query_text_def)
  then show "parse_params (a_search a') = map (\<lambda>(k, v). (k, Some (percent_encode query_keep v))) ?es"
    by (simp add: comp_def case_prod_unfold)
qed

lemma search_keys: "URL_SEARCH_PARAM \<noteq> proto_key" "URL_SEARCH_PARAM \<noteq> URL_MARK_PARAM" "param_text URL_SEARCH_PARAM"
  "list_all query_keep URL_SEARCH_PARAM"
  by code_simp+

text \<open>The parameters after a search for \<open>t\<close>.\<close>

lemma search_location:
  fixes s :: searcher
  assumes a: "location_ok (sr_location s)" and t: "printable_value t" "param_text t"
  defines "a' \<equiv> sr_location (setSearchUrlParameters t Push_if_new_search_else_replace s)"
  shows "location_ok a'"
    and "hasOwnProperty URL_SEARCH_PARAM (parse_params (a_search a'))"
    and "obj_get URL_SEARCH_PARAM (parse_params (a_search a')) = Some (percent_encode query_keep t)"
    and "\<not> hasOwnProperty URL_MARK_PARAM (parse_params (a_search a'))"
proof -
  let ?ps = "parse_params (a_search (sr_location s))"
  let ?qs = "obj_delete URL_MARK_PARAM (obj_set URL_SEARCH_PARAM (Some t) ?ps)"
  have e: "a' = parse_href (renderURL ((parseURL (href (sr_location s)))\<lparr>url_params := ?qs, url_hash := []\<rparr>))"
    by (simp add: a'_def setSearchUrlParameters_def Let_def pushState_def replaceState_def render_page_url(2) [OF a])
  have "params_ok (obj_set URL_SEARCH_PARAM (Some t) ?ps)"
    using t search_keys(3) by (intro obj_set_ok parse_params_ok) (simp add: entry_ok_def)
  then have ok: "params_ok ?qs" by (rule obj_delete_ok)
  have "list_all printable_entry ?ps"
    using parse_params_chars [OF location_search_chars [OF a]] entry_printable by (auto simp: list_all_iff)
  then have "list_all printable_entry (obj_set URL_SEARCH_PARAM (Some t) ?ps)"
    using t search_keys(4) by (intro obj_set_all) (simp_all add: printable_entry_def undefined_text_def)
  then have pr: "list_all printable_entry ?qs" by (auto simp: list_all_iff obj_delete_def)
  note p = print_params_location [OF a ok pr, folded e]
  show "location_ok a'" by (rule p(1))
  have mem: "(URL_SEARCH_PARAM, Some t) \<in> set ?qs"
    using obj_set_mem [OF search_keys(1)] search_keys(2) by (simp add: obj_delete_def)
  have own: "set (own_entries ?qs) = set ?qs" using mset_own_entries [of ?qs] by (rule mset_eq_setD)
  with mem have "(URL_SEARCH_PARAM, t) \<in> set (printed ?qs)" by (force simp: printed_def undefined_text_def)
  then have m: "(URL_SEARCH_PARAM, Some (percent_encode query_keep t)) \<in> set (parse_params (a_search a'))"
    unfolding p(2) by force
  then show "hasOwnProperty URL_SEARCH_PARAM (parse_params (a_search a'))" by (force simp: hasOwnProperty_def)
  have "distinct (map fst (parse_params (a_search a')))" using parse_params_ok by (simp add: params_ok_def)
  from map_of_is_SomeI [OF this m] show "obj_get URL_SEARCH_PARAM (parse_params (a_search a')) = Some (percent_encode query_keep t)"
    by (simp add: obj_get_def)
  have "URL_MARK_PARAM \<notin> fst ` set ?qs" by (auto simp: obj_delete_def)
  then show "\<not> hasOwnProperty URL_MARK_PARAM (parse_params (a_search a'))"
    unfolding p(2) hasOwnProperty_def using own by (force simp: printed_def)
qed

definition fresh_page :: "anchor \<Rightarrow> searcher" where
  "fresh_page a =
     \<lparr>sr_location = a, sr_history = [], sr_wrap_hidden = True, sr_expanded = ''false'', sr_value = [], sr_active = False,
      sr_searching = False, sr_has_focus = False, sr_header = [], sr_results = [], sr_results_hidden = True,
      sr_current_searchterm = [], sr_teaser_count = 0, sr_config = None, sr_script = False, sr_marked = [], sr_fading = False,
      sr_unmark_timers = 0, sr_assigned = []\<rparr>"

lemma fresh_page_simps [simp]:
  "search_ok (fresh_page a)" "sr_location (fresh_page a) = a" "sr_marked (fresh_page a) = []" "sr_wrap_hidden (fresh_page a)"
  "sr_value (fresh_page a) = []" "sr_config (fresh_page a) = None" "sr_results_hidden (fresh_page a)" "sr_script (fresh_page a) = False"
  by (simp_all add: fresh_page_def search_ok_def)

lemma setSearchUrlParameters_frame [simp]:
  "sr_value (setSearchUrlParameters t action s) = sr_value s" "sr_wrap_hidden (setSearchUrlParameters t action s) = sr_wrap_hidden s"
  "sr_results (setSearchUrlParameters t action s) = sr_results s"
  "sr_results_hidden (setSearchUrlParameters t action s) = sr_results_hidden s"
  "sr_current_searchterm (setSearchUrlParameters t action s) = sr_current_searchterm s"
  "sr_config (setSearchUrlParameters t action s) = sr_config s"
  by (simp_all add: setSearchUrlParameters_def Let_def pushState_def replaceState_def)

lemma setSearchUrlParameters_location:
  "sr_location s = sr_location s' \<Longrightarrow>
   sr_location (setSearchUrlParameters t action s) = sr_location (setSearchUrlParameters t action s')"
  by (simp add: setSearchUrlParameters_def Let_def pushState_def replaceState_def)

lemma doSearch_frame:
  assumes "search_ok s"
  shows "\<exists>s1. doSearch env t s = (None, s1) \<and> sr_value s1 = sr_value s \<and> sr_wrap_hidden s1 = sr_wrap_hidden s \<and>
    sr_location s1 = sr_location s"
  by (rule doSearch_cases [OF assms, of t env]) simp_all

lemma searchbarKeyUpHandler_frame:
  assumes "search_ok s"
  shows "sr_value (snd (searchbarKeyUpHandler env s)) = sr_value s"
    and "sr_wrap_hidden (snd (searchbarKeyUpHandler env s)) = sr_wrap_hidden s"
    and "sr_location (snd (searchbarKeyUpHandler env s)) =
      sr_location (setSearchUrlParameters (js_trim (sr_value s)) Push_if_new_search_else_replace s)"
proof -
  let ?t = "js_trim (sr_value s)"
  obtain s1 where s1: "sr_value s1 = sr_value s" "sr_wrap_hidden s1 = sr_wrap_hidden s" "sr_location s1 = sr_location s"
    "searchbarKeyUpHandler env s = (None, unmark (setSearchUrlParameters ?t Push_if_new_search_else_replace s1))"
  proof (cases "?t = []")
    case True
    then show ?thesis using that [of "removeChildren (showResults False (s\<lparr>sr_active := False\<rparr>))"]
      by (simp add: searchbarKeyUpHandler_def removeChildren_def showResults_def)
  next
    case False
    have "search_ok (s\<lparr>sr_active := True\<rparr>)" using assms by simp
    from doSearch_frame [OF this, of env ?t] obtain s1 where "doSearch env ?t (s\<lparr>sr_active := True\<rparr>) = (None, s1)"
      "sr_value s1 = sr_value s" "sr_wrap_hidden s1 = sr_wrap_hidden s" "sr_location s1 = sr_location s" by auto
    with False show ?thesis using that [of s1] by (simp add: searchbarKeyUpHandler_def)
  qed
  then show "sr_value (snd (searchbarKeyUpHandler env s)) = sr_value s"
    "sr_wrap_hidden (snd (searchbarKeyUpHandler env s)) = sr_wrap_hidden s"
    "sr_location (snd (searchbarKeyUpHandler env s)) = sr_location (setSearchUrlParameters ?t Push_if_new_search_else_replace s)"
    using setSearchUrlParameters_location [OF s1(3)] by (simp_all add: unmark_def)
qed

lemma replace_plus_id: "CHR ''+'' \<notin> set s \<Longrightarrow> replace_plus s = s"
  by (induction s) (auto simp: replace_plus_def)

lemma plus_not_encoded: "CHR ''+'' \<notin> set s \<Longrightarrow> CHR ''+'' \<notin> set (percent_encode query_keep s)"
proof -
  assume s: "CHR ''+'' \<notin> set s"
  have "CHR ''+'' \<notin> set escape_chars" by (simp add: escape_chars_def)
  with s have "list_all (\<lambda>c. c \<noteq> CHR ''+'') (percent_encode query_keep s)" by (intro percent_encode_all) auto
  then show ?thesis by (auto simp: list_all_iff)
qed

text \<open>A page opened at an address with a search parameter, and without one for marks.\<close>

lemma open_search_page:
  fixes env
  assumes a: "location_ok a" and h: "hasOwnProperty URL_SEARCH_PARAM (parse_params (a_search a))"
    and v: "obj_get URL_SEARCH_PARAM (parse_params (a_search a)) = Some q" "q \<noteq> []"
    and m: "\<not> hasOwnProperty URL_MARK_PARAM (parse_params (a_search a))"
  defines "p \<equiv> doSearchOrMarkFromUrl env (fresh_page a)"
  shows "decodeURIComponent (replace_plus q) = Inr t \<Longrightarrow> fst p = None \<and> sr_value (snd p) = t \<and> \<not> sr_wrap_hidden (snd p)"
    and "decodeURIComponent (replace_plus q) = Inl e \<Longrightarrow> fst p = Some e \<and> sr_value (snd p) = []"
proof -
  let ?s = "(showSearch True (fresh_page a))\<lparr>sr_value := t\<rparr>"
  have ok: "search_ok ?s" by (simp add: showSearch_ok)
  have w: "\<not> sr_wrap_hidden ?s" by (simp add: showSearch_def)
  have p: "p = (case decodeURIComponent (replace_plus q) of
       Inl e \<Rightarrow> (Some e, showSearch True (fresh_page a))
     | Inr t \<Rightarrow> searchbarKeyUpHandler env ((showSearch True (fresh_page a))\<lparr>sr_value := t\<rparr>))"
    using h v m
    by (auto simp: p_def doSearchOrMarkFromUrl_def Let_def render_page_url(2) [OF a] search_from_url_def undefined_text_def
        mark_from_url_def split: sum.split option.split prod.split)
  show "fst p = None \<and> sr_value (snd p) = t \<and> \<not> sr_wrap_hidden (snd p)" if "decodeURIComponent (replace_plus q) = Inr t"
    using that searchbarKeyUpHandler_ok [OF ok] searchbarKeyUpHandler_frame(1,2) [OF ok, of env] w by (simp add: p)
  show "fst p = Some e \<and> sr_value (snd p) = []" if "decodeURIComponent (replace_plus q) = Inl e"
    using that by (simp add: p showSearch_def loadSearchScript_def)
qed

text \<open>Searching on a page whose address has no query, and opening the resulting address.\<close>

definition reload :: "search_env \<Rightarrow> anchor \<Rightarrow> string \<Rightarrow> js_error option \<times> searcher" where
  "reload env a t =
     doSearchOrMarkFromUrl env (fresh_page (sr_location (setSearchUrlParameters t Push_if_new_search_else_replace (fresh_page a))))"

definition simple_char :: "char \<Rightarrow> bool" where
  "simple_char c \<longleftrightarrow> query_keep c \<and> c \<noteq> CHR ''%'' \<and> c \<noteq> CHR ''&'' \<and> c \<noteq> CHR ''+'' \<and> c \<noteq> CHR ''=''"

lemma simple_text:
  assumes "list_all simple_char u"
  shows "list_all query_keep u" "param_text u" "CHR ''+'' \<notin> set u" "CHR ''%'' \<notin> set u"
  using assms by (induction u) (auto simp: simple_char_def param_text_def)

lemma reload_address:
  assumes a: "location_ok a" "a_search a = []"
  shows "sr_location (setSearchUrlParameters t Push_if_new_search_else_replace (fresh_page a)) =
    parse_href (base_text a @ a_pathname a @ CHR ''?'' # URL_SEARCH_PARAM @ ''='' @ t)"
proof -
  have "\<not> array_index URL_SEARCH_PARAM" by code_simp
  then have "printed (obj_delete URL_MARK_PARAM (obj_set URL_SEARCH_PARAM (Some t) [])) = [(URL_SEARCH_PARAM, t)]"
    using search_keys(1,2) by (simp add: obj_set_def obj_delete_def printed_def own_entries_def undefined_text_def)
  moreover have "parse_params [] = []" by (simp add: parse_params_def add_param_def)
  ultimately show ?thesis
    using a by (simp add: setSearchUrlParameters_def Let_def pushState_def replaceState_def render_page_url [OF a(1)]
        render_params_tail query_text_def url_tail_def)
qed

text \<open>The address that the browser makes of a query of kept characters and any fragment.\<close>

lemma kept_location:
  assumes a: "location_ok a" and q: "list_all query_keep q" "q \<noteq> []" and f: "list_all query_keep f"
  defines "a' \<equiv> parse_href (base_text a @ a_pathname a @ url_tail q f)"
  shows "location_ok a'" and "a_search a' = CHR ''?'' # q"
proof -
  have o: "origin_ok a" using a by (simp add: location_ok_def)
  have "CHR '' '' \<notin> set (q @ f)" using keep_plain(4) q(1) f by simp
  then have "q @ f \<noteq> [] \<Longrightarrow> last (q @ f) \<noteq> CHR '' ''" using last_in_set by metis
  note l = new_location [OF o keep_plain(1,2) [OF q(1)] keep_plain(1) [OF f] this, folded a'_def]
  show "location_ok a'" by (rule l(2))
  show "a_search a' = CHR ''?'' # q" using l(1) q by (simp add: percent_encode_id)
qed

lemma decode_trailing_percent:
  "CHR ''%'' \<notin> set u \<Longrightarrow> decodeURIComponent (u @ ''%'') = Inl new_URIError"
  by (induction u) (auto simp: read_percent_def js_bind_def)

lemma decode_plus:
  assumes "list_all simple_char u" "list_all simple_char v"
  shows "decodeURIComponent (replace_plus (u @ CHR ''+'' # v)) = Inr (u @ CHR '' '' # v)"
proof -
  have k: "\<not> simple_char (CHR ''%'')" "\<not> simple_char (CHR '' '')" by code_simp+
  have p: "utf8_percent (CHR '' '') = ''%20''" by code_simp
  have "replace_plus (u @ CHR ''+'' # v) = replace_plus u @ ''%20'' @ replace_plus v" by (simp add: replace_plus_def)
  also have "\<dots> = percent_encode simple_char (u @ CHR '' '' # v)"
    using assms simple_text(3) k(2) p by (simp add: replace_plus_id percent_encode_id percent_encode_Cons)
  finally show ?thesis using k(1) decode_percent_encode [of simple_char "u @ CHR '' '' # v"] by simp
qed

text \<open>What the parameters of such an address are.\<close>

lemma parse_search_query:
  assumes "param_text u"
  shows "parse_params (CHR ''?'' # URL_SEARCH_PARAM @ ''='' @ u) = [(URL_SEARCH_PARAM, Some u)]"
  using parse_printed [of "[(URL_SEARCH_PARAM, u)]"] assms search_keys(1,3) by simp

lemma parse_search_query_equals:
  assumes "param_text u" "param_text v"
  shows "parse_params (CHR ''?'' # URL_SEARCH_PARAM @ ''='' @ u @ ''='' @ v) = [(URL_SEARCH_PARAM, Some u)]"
proof -
  have s: "CHR ''='' \<notin> set URL_SEARCH_PARAM" "CHR ''&'' \<notin> set URL_SEARCH_PARAM" using search_keys(3) by (simp_all add: param_text_def)
  let ?w = "URL_SEARCH_PARAM @ ''='' @ u @ ''='' @ v"
  have "js_split ''='' ?w = [URL_SEARCH_PARAM, u, v]"
    using assms s(1) js_split_char_append [of "CHR ''=''"] js_split_char_none [of "CHR ''=''" v] by (simp add: param_text_def)
  moreover have "js_split ''&'' ?w = [?w]" using assms s(2) by (intro js_split_char_none) (simp add: param_text_def)
  ultimately show ?thesis using search_keys(1) by (simp add: parse_params_def add_param_def obj_set_def)
qed

lemma parse_search_query_ampersand:
  assumes u: "param_text u" and v: "param_text v" "v \<noteq> URL_SEARCH_PARAM" "v \<noteq> URL_MARK_PARAM"
  defines "ps \<equiv> parse_params (CHR ''?'' # URL_SEARCH_PARAM @ ''='' @ u @ ''&'' @ v)"
  shows "obj_get URL_SEARCH_PARAM ps = Some u" "hasOwnProperty URL_SEARCH_PARAM ps" "\<not> hasOwnProperty URL_MARK_PARAM ps"
proof -
  have s: "CHR ''='' \<notin> set URL_SEARCH_PARAM" "CHR ''&'' \<notin> set URL_SEARCH_PARAM" using search_keys(3) by (simp_all add: param_text_def)
  let ?w = "URL_SEARCH_PARAM @ ''='' @ u"
  have "CHR ''&'' \<notin> set ?w" using u s(2) by (simp add: param_text_def)
  then have "js_split ''&'' (?w @ ''&'' @ v) = [?w, v]"
    using js_split_char_append [of "CHR ''&''" ?w v] js_split_char_none [of "CHR ''&''" v] v(1) by (simp add: param_text_def)
  moreover have "add_param ?w [] = [(URL_SEARCH_PARAM, Some u)]" using add_param_entry [OF search_keys(3) u search_keys(1)] by simp
  moreover have "js_split ''='' v = [v]" using v(1) by (intro js_split_char_none) (simp add: param_text_def)
  then have "add_param v ret = (if v = [] then ret else obj_set v None ret)" for ret by (simp add: add_param_def)
  ultimately have "ps = (if v = [] \<or> v = proto_key then [(URL_SEARCH_PARAM, Some u)] else [(URL_SEARCH_PARAM, Some u), (v, None)])"
    using v(2) by (simp add: ps_def parse_params_def obj_set_def)
  then show "obj_get URL_SEARCH_PARAM ps = Some u" "hasOwnProperty URL_SEARCH_PARAM ps" "\<not> hasOwnProperty URL_MARK_PARAM ps"
    using search_keys(2) v(3) by (auto simp: obj_get_def hasOwnProperty_def)
qed

subsection \<open>The links of the results\<close>

lemma encoded_search_eq:
  "encoded_search terms = percent_encode (\<lambda>c. uri_unreserved c \<and> c \<noteq> CHR 0x27) (js_join '' '' terms)"
proof -
  have q: "utf8_percent (CHR 0x27) = ''%27''" by code_simp
  have n: "CHR 0x27 \<notin> set escape_chars" by (simp add: escape_chars_def)
  have e: "concat (map (\<lambda>c. if c = CHR 0x27 then ''%27'' else [c]) (utf8_percent x)) = utf8_percent x" for x
  proof -
    have "map (\<lambda>c. if c = CHR 0x27 then ''%27'' else [c]) (utf8_percent x) = map (\<lambda>c. [c]) (utf8_percent x)"
      using set_utf8_percent [of x] n by (intro map_cong) auto
    then have "concat (map (\<lambda>c. if c = CHR 0x27 then ''%27'' else [c]) (utf8_percent x)) = concat (map (\<lambda>c. [c]) (utf8_percent x))"
      by (rule arg_cong)
    then show ?thesis by (simp only: concat_map_singleton list.map_ident)
  qed
  have "concat (map (\<lambda>c. if c = CHR 0x27 then ''%27'' else [c]) (encodeURIComponent s)) =
      percent_encode (\<lambda>c. uri_unreserved c \<and> c \<noteq> CHR 0x27) s" for s
  proof (induction s)
    case (Cons c s)
    have u: "uri_unreserved (CHR 0x27)" by code_simp
    show ?case
      using Cons e [of c] q u unfolding encodeURIComponent_def
      by (cases "c = CHR 0x27") (auto simp: percent_encode_Cons)
  qed (simp add: encodeURIComponent_def)
  then show ?thesis by (simp add: encoded_search_def)
qed

lemma unreserved_query_keep: "uri_unreserved c \<Longrightarrow> c \<noteq> CHR 0x27 \<Longrightarrow> query_keep c \<and> c \<noteq> CHR ''&'' \<and> c \<noteq> CHR ''='' \<and> c \<noteq> CHR ''#''"
  by (auto simp: uri_unreserved_def query_keep_def ascii_graph_def Let_def)

lemma encoded_search_chars: "list_all query_keep (encoded_search terms)" "param_text (encoded_search terms)"
proof -
  have "CHR ''&'' \<notin> set escape_chars" "CHR ''='' \<notin> set escape_chars" by (simp_all add: escape_chars_def)
  then have "list_all (\<lambda>c. query_keep c \<and> c \<noteq> CHR ''&'' \<and> c \<noteq> CHR ''='') (encoded_search terms)"
    unfolding encoded_search_eq by (intro percent_encode_all) (auto simp: escape_keep unreserved_query_keep)
  then show "list_all query_keep (encoded_search terms)" "param_text (encoded_search terms)"
    by (auto simp: list_all_iff param_text_def)
qed

lemma decode_encoded_search: "decodeURIComponent (encoded_search terms) = Inr (js_join '' '' terms)"
proof -
  have "\<not> (uri_unreserved (CHR ''%'') \<and> CHR ''%'' \<noteq> CHR 0x27)" by code_simp
  then show ?thesis unfolding encoded_search_eq by (intro decode_percent_encode) simp
qed

lemma mark_keys: "URL_MARK_PARAM \<noteq> proto_key" "param_text URL_MARK_PARAM" "list_all query_keep URL_MARK_PARAM"
  by code_simp+

text \<open>A page opened at an address with a mark parameter only.\<close>

lemma open_marked_page:
  assumes a: "location_ok a" and p: "parse_params (a_search a) = [(URL_MARK_PARAM, Some q)]"
    and d: "decodeURIComponent q = Inr v"
  shows "\<exists>s. doSearchOrMarkFromUrl env (fresh_page a) = (None, s) \<and> sr_marked s = js_split '' '' v \<and> sr_wrap_hidden s"
proof -
  have "URL_MARK_PARAM \<noteq> URL_SEARCH_PARAM" using search_keys(2) by simp
  then show ?thesis
    using d by (simp add: doSearchOrMarkFromUrl_def Let_def render_page_url(2) [OF a] p search_from_url_def mark_from_url_def
        hasOwnProperty_def obj_get_def undefined_text_def showSearch_def)
qed

subsection \<open>Properties\<close>

text \<open>C29: the search page stays consistent. After any sequence of events, starting from a consistent page and with indexes whose
  hits refer to known pages: the expanded attribute tells whether the search is shown, a hidden result list is empty, and once
  the index is loaded the spinner is off and there are at most as many results as the limit allows.\<close>

theorem search_page_consistent:
  fixes env evs
  assumes "search_ok s" and "\<forall>ev \<in> set evs. event_ok ev"
  defines "s' \<equiv> fold (search_step env) evs s"
  shows "sr_expanded s' = (if sr_wrap_hidden s' then ''false'' else ''true'') \<and>
    (sr_results_hidden s' \<longrightarrow> sr_results s' = []) \<and>
    (\<forall>cf. sr_config s' = Some cf \<longrightarrow> length (sr_results s') \<le> cf_limit_results cf \<and> \<not> sr_searching s')"
  using search_steps_ok [OF assms(1,2), of env] by (auto simp: s'_def search_ok_def)

text \<open>A reload restores the search. Let the reader type a search term without the characters \<open>% & + = #\<close> on a page at any
  address. Then the page opened at the address that the script leaves in the address bar shows the search with the
  same term, and opening it throws nothing.\<close>

theorem reload_restores_search:
  fixes env v
  assumes s: "search_ok s" "location_ok (sr_location s)" and t: "js_trim v \<noteq> []" "plain_text (js_trim v)"
    and c: "set (js_trim v) \<inter> {CHR ''%'', CHR ''&'', CHR ''+'', CHR ''='', CHR ''#''} = {}"
  defines "s' \<equiv> search_step env (Typed v) s"
  defines "p \<equiv> doSearchOrMarkFromUrl env (fresh_page (sr_location s'))"
  shows "fst p = None \<and> sr_value (snd p) = js_trim v \<and> \<not> sr_wrap_hidden (snd p)"
proof -
  let ?t = "js_trim v"
  let ?a = "sr_location (setSearchUrlParameters ?t Push_if_new_search_else_replace (s\<lparr>sr_value := v\<rparr>))"
  have ok: "search_ok (s\<lparr>sr_value := v\<rparr>)" using s by simp
  have a: "sr_location s' = ?a" using searchbarKeyUpHandler_frame(3) [OF ok, of env] by (simp add: s'_def)
  have "js_space (CHR '' '')" by code_simp
  then have "last ?t \<noteq> CHR '' ''" using js_trim_last [OF t(1)] by metis
  then have pv: "printable_value ?t" "param_text ?t" using t(2) c by (auto simp: printable_value_def param_text_def)
  have "location_ok (sr_location (s\<lparr>sr_value := v\<rparr>))" using s(2) by simp
  note l = search_location [OF this pv]
  have "CHR ''+'' \<notin> set ?t" "CHR ''%'' \<notin> set ?t" using c by auto
  then have d: "decodeURIComponent (replace_plus (percent_encode query_keep ?t)) = Inr ?t"
    by (simp add: replace_plus_id plus_not_encoded decode_percent_encode)
  from open_search_page(1) [OF l(1,2,3) percent_encode_nonempty [OF t(1)] l(4) d] show ?thesis by (simp add: p_def a)
qed

text \<open>A search that was cleared is not repeated. When the term that the page searched last is typed again after the
  search field was emptied, the result list stays empty and hidden, whatever the index would return.\<close>

theorem cleared_search_not_repeated:
  fixes env v
  assumes "sr_current_searchterm s = js_trim v" and "js_trim v \<noteq> []"
  defines "s' \<equiv> fold (search_step env) [Typed [], Typed v] s"
  shows "sr_results s' = [] \<and> sr_results_hidden s'"
proof -
  have e: "js_trim [] = []" by (simp add: js_trim_def)
  show ?thesis
    using assms(1,2)
    by (simp add: s'_def searchbarKeyUpHandler_def e doSearch_def removeChildren_def showResults_def unmark_def)
qed

text \<open>Some characters of a search term are lost on reload. Let a reader search for a term that consists of two ordinary
  words with one special character between them, on a page without query. Opening the resulting address
  searches only for the first word if the character is \<open>&\<close>, \<open>=\<close> or \<open>#\<close>, and with a blank instead of a \<open>+\<close>; a term that ends in
  \<open>%\<close> makes the script throw a \<open>URIError\<close>.\<close>

theorem reload_loses_special_characters:
  assumes a: "location_ok a" "a_search a = []" and u: "list_all simple_char u" "u \<noteq> []"
    and v: "list_all simple_char v" "v \<noteq> URL_SEARCH_PARAM" "v \<noteq> URL_MARK_PARAM" "v \<noteq> []"
  shows "(\<forall>c \<in> {CHR ''&'', CHR ''='', CHR ''#''}. fst (reload env a (u @ c # v)) = None \<and> sr_value (snd (reload env a (u @ c # v))) = u) \<and>
    sr_value (snd (reload env a (u @ CHR ''+'' # v))) = u @ CHR '' '' # v \<and>
    fst (reload env a (u @ ''%'')) = Some new_URIError"
proof -
  let ?p = "URL_SEARCH_PARAM @ ''=''"
  note su = simple_text [OF u(1)] and sv = simple_text [OF v(1)]
  have d: "decodeURIComponent (replace_plus u) = Inr u"
    using su percent_encode_id [OF su(1)] decode_percent_encode [of query_keep u] by (simp add: replace_plus_id)
  have k: "list_all query_keep ?p" "query_keep (CHR ''&'')" "query_keep (CHR ''='')" "query_keep (CHR ''+'')" "query_keep (CHR ''%'')"
    by code_simp+
  have addr: "reload env a t = doSearchOrMarkFromUrl env (fresh_page (parse_href (base_text a @ a_pathname a @ url_tail q f)))"
    if "CHR ''?'' # ?p @ t = url_tail q f" for t q f
    using that by (simp add: reload_def reload_address [OF a])
  have one: "fst (reload env a t) = None \<and> sr_value (snd (reload env a t)) = r"
    if t: "CHR ''?'' # ?p @ t = url_tail q f" and q: "list_all query_keep q" "q \<noteq> []" "list_all query_keep f"
      and ps: "obj_get URL_SEARCH_PARAM (parse_params (CHR ''?'' # q)) = Some w" "w \<noteq> []"
        "hasOwnProperty URL_SEARCH_PARAM (parse_params (CHR ''?'' # q))" "\<not> hasOwnProperty URL_MARK_PARAM (parse_params (CHR ''?'' # q))"
      and dec: "decodeURIComponent (replace_plus w) = Inr r" for t q f w r
    using open_search_page(1) [OF kept_location(1) [OF a(1) q], unfolded kept_location(2) [OF a(1) q], OF ps(3,1,2,4) dec]
    by (simp add: addr [OF t])
  have single: "obj_get URL_SEARCH_PARAM [(URL_SEARCH_PARAM, Some w)] = Some w" "hasOwnProperty URL_SEARCH_PARAM [(URL_SEARCH_PARAM, Some w)]"
    "\<not> hasOwnProperty URL_MARK_PARAM [(URL_SEARCH_PARAM, Some w)]" for w
    using search_keys(2) by (auto simp: obj_get_def hasOwnProperty_def)
  have amp: "fst (reload env a (u @ CHR ''&'' # v)) = None \<and> sr_value (snd (reload env a (u @ CHR ''&'' # v))) = u"
    by (rule one [of _ "?p @ u @ ''&'' @ v" "[]"])
       (use k su sv u v d parse_search_query_ampersand [OF su(2) sv(2) v(2,3)] in \<open>simp_all add: url_tail_def\<close>)
  have eq: "fst (reload env a (u @ CHR ''='' # v)) = None \<and> sr_value (snd (reload env a (u @ CHR ''='' # v))) = u"
    by (rule one [of _ "?p @ u @ ''='' @ v" "[]"])
       (use k su sv u d parse_search_query_equals [OF su(2) sv(2)] single in \<open>simp_all add: url_tail_def\<close>)
  have pl: "param_text (u @ CHR ''+'' # v)" using su(2) sv(2) by (simp add: param_text_def)
  have plus: "fst (reload env a (u @ CHR ''+'' # v)) = None \<and> sr_value (snd (reload env a (u @ CHR ''+'' # v))) = u @ CHR '' '' # v"
    by (rule one [of _ "?p @ u @ CHR ''+'' # v" "[]"])
       (use k su sv u decode_plus [OF u(1) v(1)] parse_search_query [OF pl] single in \<open>simp_all add: url_tail_def\<close>)
  have hash: "fst (reload env a (u @ CHR ''#'' # v)) = None \<and> sr_value (snd (reload env a (u @ CHR ''#'' # v))) = u"
    by (rule one [of _ "?p @ u" v])
       (use k su sv u v(4) d parse_search_query [OF su(2)] single in \<open>simp_all add: url_tail_def\<close>)
  have pt: "param_text (u @ ''%'')" using su(2) by (simp add: param_text_def)
  let ?q = "?p @ u @ ''%''"
  have q: "list_all query_keep ?q" "?q \<noteq> []" "list_all query_keep []" using k su by simp_all
  have ps: "parse_params (CHR ''?'' # ?q) = [(URL_SEARCH_PARAM, Some (u @ ''%''))]" using parse_search_query [OF pt] by simp
  have "CHR ''+'' \<notin> set (u @ ''%'')" using su(3) by simp
  then have "decodeURIComponent (replace_plus (u @ ''%'')) = Inl new_URIError"
    using decode_trailing_percent [OF su(4)] by (simp add: replace_plus_id)
  from open_search_page(2) [OF kept_location(1) [OF a(1) q], unfolded kept_location(2) [OF a(1) q] ps, OF single(2,1) _ single(3) this]
  have "fst (reload env a (u @ ''%'')) = Some new_URIError" by (subst addr [of _ ?q "[]"]) (simp_all add: url_tail_def)
  with amp eq hash plus show ?thesis by simp
qed

text \<open>C27: a result link marks what was searched. Take the link that the script prints for a hit on some page, for any search term,
  followed from a page of the book, so that the path of the link is appended to a directory of the site. On the page that opens,
  the script throws nothing, keeps the search hidden, and passes exactly the blank-separated words of the search term to the highlighter.\<close>

theorem result_link_marks_search_words:
  assumes o: "origin_ok a" "a_pathname a = dir @ se_path_to_root env @ url ! 0"
    and f: "plain_text (url ! 1)" "url ! 1 \<noteq> [] \<Longrightarrow> last (url ! 1) \<noteq> CHR '' ''"
  shows "\<exists>s. doSearchOrMarkFromUrl env
      (fresh_page (parse_href (base_text a @ dir @ result_href env url (js_split '' '' searchterm)))) = (None, s) \<and>
    sr_marked s = js_split '' '' searchterm \<and> sr_wrap_hidden s"
proof -
  let ?terms = "js_split '' '' searchterm"
  let ?e = "encoded_search ?terms"
  let ?q = "URL_MARK_PARAM @ ''='' @ ?e"
  let ?link = "base_text a @ dir @ result_href env url ?terms"
  have k: "list_all query_keep ?q"
  proof -
    have "query_keep (CHR ''='')" by code_simp
    then show ?thesis using mark_keys(3) encoded_search_chars(1) by simp
  qed
  have q: "plain_text ?q" "CHR ''#'' \<notin> set ?q" "last ?q \<noteq> CHR '' ''"
    using keep_plain(1,2,4) [OF k] last_in_set [of ?q] by (auto simp del: append_assoc)
  have l: "?q @ url ! 1 \<noteq> [] \<Longrightarrow> last (?q @ url ! 1) \<noteq> CHR '' ''" using q(3) f(2) by (cases "url ! 1 = []") simp_all
  have link: "?link = base_text a @ a_pathname a @ CHR ''?'' # ?q @ CHR ''#'' # url ! 1" by (simp add: result_href_def o(2))
  have "parse_href (base_text a @ a_pathname a @ CHR ''?'' # ?q @ CHR ''#'' # url ! 1) = parse_href (base_text a @ a_pathname a @ url_tail ?q (url ! 1))"
  proof (cases "url ! 1 = []")
    case True
    then show ?thesis using parse_href_empty_fragment [OF o(1) q(1,2) q(3)] by (simp add: url_tail_def)
  qed (simp add: url_tail_def)
  then have e: "parse_href ?link = parse_href (base_text a @ a_pathname a @ url_tail ?q (url ! 1))" unfolding link .
  note n = new_location [OF o(1) q(1,2) f(1) l, folded e]
  have "a_search (parse_href ?link) = CHR ''?'' # ?q" using n(1) percent_encode_id [OF k] by simp
  moreover have "parse_params (CHR ''?'' # ?q) = [(URL_MARK_PARAM, Some ?e)]"
    using parse_printed [of "[(URL_MARK_PARAM, ?e)]"] mark_keys encoded_search_chars(2) by simp
  ultimately have "parse_params (a_search (parse_href ?link)) = [(URL_MARK_PARAM, Some ?e)]" by simp
  from open_marked_page [OF n(2) this decode_encoded_search, of env] show ?thesis by simp
qed

text \<open>A page of the book, for the witnesses.\<close>

definition sample_address :: anchor where
  "sample_address =
     \<lparr>a_protocol = ''https:'', a_hostname = ''varta.dev'', a_port = [], a_pathname = ''/book/introduction.html'', a_search = ''?theme=ayu'',
      a_hash = []\<rparr>"

definition sample_config :: search_config where
  "sample_config =
     \<lparr>cf_teaser_word_count = 30, cf_limit_results = 30, cf_doc_urls = [''introduction.html#what''],
      cf_search = (\<lambda>_. [\<lparr>hd_ref = 0, hd_body = ''A beat. Another beat'', hd_breadcrumbs = ''Introduction''\<rparr>])\<rparr>"

definition sample_env :: search_env where
  "sample_env = \<lparr>se_stemmer = (\<lambda>w. w), se_path_to_root = ''../'', se_select_focuses = True\<rparr>"

lemma sample_ok: "location_ok sample_address" "config_ok sample_config"
proof -
  have "list_all host_char ''https'' \<and> list_all host_char (a_hostname sample_address) \<and> list_all path_keep (a_pathname sample_address) \<and>
      list_all query_keep ''theme=ayu''" by code_simp
  then show "location_ok sample_address"
    unfolding location_ok_def origin_ok_def
    by (auto simp: sample_address_def intro!: exI [of _ "''https''"] exI [of _ "''theme=ayu''"])
  show "config_ok sample_config" by (simp add: config_ok_def sample_config_def)
qed

theorem search_page_consistent_witness:
  "sr_expanded (fold (search_step sample_env) [IconClicked, IndexLoaded sample_config, Typed ''beat'', Typed []] (fresh_page sample_address)) =
     (if sr_wrap_hidden (fold (search_step sample_env) [IconClicked, IndexLoaded sample_config, Typed ''beat'', Typed []] (fresh_page sample_address))
      then ''false'' else ''true'')"
proof -
  have "\<forall>ev \<in> set [IconClicked, IndexLoaded sample_config, Typed ''beat'', Typed []]. event_ok ev" using sample_ok(2) by simp
  from search_page_consistent [OF fresh_page_simps(1) this, of sample_env sample_address] show ?thesis by blast
qed

theorem reload_restores_search_witness:
  "sr_value (snd (doSearchOrMarkFromUrl sample_env
     (fresh_page (sr_location (search_step sample_env (Typed ''lost beats '') (fresh_page sample_address)))))) = ''lost beats''"
proof -
  have t: "js_trim ''lost beats '' = ''lost beats''" by code_simp
  have "js_trim ''lost beats '' \<noteq> []" "plain_text (js_trim ''lost beats '')"
    "set (js_trim ''lost beats '') \<inter> {CHR ''%'', CHR ''&'', CHR ''+'', CHR ''='', CHR ''#''} = {}"
    unfolding t by code_simp+
  moreover have "location_ok (sr_location (fresh_page sample_address))" using sample_ok(1) by simp
  ultimately show ?thesis
    using reload_restores_search [OF fresh_page_simps(1), of sample_address "''lost beats ''" sample_env] t by simp
qed

theorem reload_loses_special_characters_witness:
  "sr_value (snd (reload sample_env (sample_address\<lparr>a_search := []\<rparr>) ''C#panic'')) = ''C''"
proof -
  have "list_all simple_char ''C'' \<and> list_all simple_char ''panic'' \<and> ''panic'' \<noteq> URL_SEARCH_PARAM \<and> ''panic'' \<noteq> URL_MARK_PARAM" by code_simp
  moreover have "location_ok (sample_address\<lparr>a_search := []\<rparr>)" using sample_ok(1) by (auto simp: location_ok_def origin_ok_def)
  ultimately have "\<forall>c \<in> {CHR ''&'', CHR ''='', CHR ''#''}. fst (reload sample_env (sample_address\<lparr>a_search := []\<rparr>) (''C'' @ c # ''panic'')) = None \<and>
      sr_value (snd (reload sample_env (sample_address\<lparr>a_search := []\<rparr>) (''C'' @ c # ''panic''))) = ''C''"
    using reload_loses_special_characters [of "sample_address\<lparr>a_search := []\<rparr>" "''C''" "''panic''" sample_env] by simp
  then show ?thesis by simp
qed

theorem result_link_marks_search_words_witness:
  "\<exists>s. doSearchOrMarkFromUrl sample_env
      (fresh_page (parse_href (base_text sample_address @ ''/book/'' @ result_href sample_env [''guides/udp.html'', []] (js_split '' '' ''C++ & 100%'')))) = (None, s) \<and>
    sr_marked s = [''C++'', ''&'', ''100%''] \<and> sr_wrap_hidden s"
proof -
  let ?a = "sample_address\<lparr>a_pathname := ''/book/../guides/udp.html''\<rparr>"
  have "list_all path_keep ''/book/../guides/udp.html''" by code_simp
  then have o: "origin_ok ?a" using sample_ok(1) by (auto simp: location_ok_def origin_ok_def)
  have d: "a_pathname ?a = ''/book/'' @ se_path_to_root sample_env @ [''guides/udp.html'', []] ! 0" by (simp add: sample_env_def)
  have f: "plain_text ([''guides/udp.html'', []] ! 1)" by (simp add: plain_text_def)
  have b: "base_text ?a = base_text sample_address" by (simp add: base_text_def)
  have w: "js_split '' '' ''C++ & 100%'' = [''C++'', ''&'', ''100%'']" by code_simp
  show ?thesis using result_link_marks_search_words [OF o d f, of "''C++ & 100%''"] unfolding b w by simp
qed

theorem cleared_search_not_repeated_witness:
  "sr_results (fold (search_step sample_env) [Typed [], Typed ''beat'']
     ((fresh_page sample_address)\<lparr>sr_config := Some sample_config, sr_current_searchterm := ''beat''\<rparr>)) = [] \<and>
   cf_search sample_config ''beat'' \<noteq> []"
proof -
  have t: "js_trim ''beat'' = ''beat''" by code_simp
  show ?thesis
    using cleared_search_not_repeated [of "(fresh_page sample_address)\<lparr>sr_config := Some sample_config, sr_current_searchterm := ''beat''\<rparr>"
        "''beat''" sample_env] t
    by (simp add: sample_config_def)
qed

end
