(* ===== verification/Sidebar_Headers.thy ===== *)
theory Sidebar_Headers
  imports Web_Text
begin

section \<open>Headers of a page in the sidebar (\<open>toc.js\<close>)\<close>

text \<open>
  The script that adds the headers of the open page to the sidebar and follows the reader through them. The list under
  construction is a tree of \<open>ol\<close> and \<open>li\<close> elements; an element that the script keeps a reference to is named by its path
  from the outer list, which stays valid because children are only ever appended. The second part is the
  threshold line and the choice of the current header; positions and sizes come from the browser with each event.
\<close>

subsection \<open>Copying a header\<close>

text \<open>The nodes inside a header: texts, elements, and the marks of the highlighter, which the copy drops.\<close>

datatype inline = Text string | Element string "inline list" | Mark "inline list"

fun filter_node :: "inline \<Rightarrow> inline list" where
  "filter_node (Text s) = [Text s]"
| "filter_node (Element tag ns) = [Element tag (concat (map filter_node ns))]"
| "filter_node (Mark ns) = concat (map filter_node ns)"

definition filterHeader :: "inline list \<Rightarrow> inline list" where
  "filterHeader source = concat (map filter_node source)"

fun node_text :: "inline \<Rightarrow> string" where
  "node_text (Text s) = s"
| "node_text (Element tag ns) = concat (map node_text ns)"
| "node_text (Mark ns) = concat (map node_text ns)"

fun mark_free :: "inline \<Rightarrow> bool" where
  "mark_free (Text s) = True"
| "mark_free (Element tag ns) = list_all mark_free ns"
| "mark_free (Mark ns) = False"

lemma filter_node_ok: "list_all mark_free (filter_node n) \<and> concat (map node_text (filter_node n)) = node_text n"
proof (induction n)
  case (Element tag ns)
  then show ?case by (induction ns) (auto simp: list_all_iff)
next
  case (Mark ns)
  then show ?case by (induction ns) (auto simp: list_all_iff)
qed simp

lemma filterHeader_ok:
  "list_all mark_free (filterHeader ns)" "concat (map node_text (filterHeader ns)) = concat (map node_text ns)"
  using filter_node_ok by (induction ns) (auto simp: filterHeader_def)

subsection \<open>The list of headers\<close>

record header =
  h_id :: string
  h_level :: nat
  h_text :: "inline list"

record header_item =
  hi_id :: string
  hi_text :: "inline list"
  hi_toggle :: bool

datatype elem = Ol "elem list" | Li header_item "elem list"

fun children :: "elem \<Rightarrow> elem list" where
  "children (Ol cs) = cs"
| "children (Li i cs) = cs"

fun with_children :: "elem list \<Rightarrow> elem \<Rightarrow> elem" where
  "with_children cs (Ol _) = Ol cs"
| "with_children cs (Li i _) = Li i cs"

fun element_at :: "nat list \<Rightarrow> elem \<Rightarrow> elem" where
  "element_at [] t = t"
| "element_at (i # p) t = element_at p (children t ! i)"

fun appendChild :: "nat list \<Rightarrow> elem \<Rightarrow> elem \<Rightarrow> elem" where
  "appendChild [] x t = with_children (children t @ [x]) t"
| "appendChild (i # p) x t = with_children ((children t)[i := appendChild p x (children t ! i)]) t"

text \<open>A stack entry is the level of a list and its path; the top of the stack is the end of the list. The path of the child appended last.\<close>

type_synonym toc_stack = "(nat \<times> nat list) list"

definition last_child :: "nat list \<Rightarrow> elem \<Rightarrow> nat list option" where
  "last_child p t = (case children (element_at p t) of [] \<Rightarrow> None | cs \<Rightarrow> Some (p @ [length cs - 1]))"

definition next_path :: "nat list \<Rightarrow> elem \<Rightarrow> nat list" where
  "next_path p t = p @ [length (children (element_at p t))]"

text \<open>The lists above the first header: one for each level from two on, each in the one before.\<close>

fun open_first :: "nat list \<Rightarrow> elem \<times> toc_stack \<Rightarrow> elem \<times> toc_stack" where
  "open_first [] (t, stack) = (t, stack)"
| "open_first (i # is) (t, stack) =
     open_first is
       (if stack = [] then (Ol [], [(i + 1, [])])
        else let p = snd (last stack) in (appendChild p (Ol []) t, stack @ [(i + 1, next_path p t)]))"

fun nest :: "nat list \<Rightarrow> elem \<times> toc_stack \<Rightarrow> elem \<times> toc_stack" where
  "nest [] (t, stack) = (t, stack)"
| "nest (nextLevel # ls) (t, stack) =
     (let p = snd (last stack);
          q = (case last_child p t of Some c \<Rightarrow> c | None \<Rightarrow> p)
      in nest ls (appendChild q (Ol []) t, stack @ [(nextLevel, next_path q t)]))"

function pop_to :: "nat \<Rightarrow> toc_stack \<Rightarrow> toc_stack" where
  "pop_to level stack = (if length stack > 1 \<and> fst (last stack) > level then pop_to level (butlast stack) else stack)"
  by pat_completeness auto
termination
  by (relation "measure (\<lambda>(_, s). length s)") auto

declare pop_to.simps [simp del]

definition foldLevel :: nat where "foldLevel = 3"

definition make_item :: "header \<Rightarrow> header option \<Rightarrow> header_item" where
  "make_item h next_header =
     \<lparr>hi_id = h_id h, hi_text = filterHeader (h_text h),
      hi_toggle = (case next_header of None \<Rightarrow> False | Some n \<Rightarrow> h_level n > h_level h \<and> h_level h \<ge> foldLevel)\<rparr>"

definition add_header :: "header \<Rightarrow> header option \<Rightarrow> elem \<times> toc_stack \<Rightarrow> elem \<times> toc_stack" where
  "add_header h next_header ts =
     (let (t, stack) = ts;
          level = h_level h;
          currentLevel = fst (last stack);
          (t1, stack1) = (if level > currentLevel then nest [currentLevel + 1..<level + 1] (t, stack)
                          else if level < currentLevel then (t, pop_to level stack)
                          else (t, stack))
      in (appendChild (snd (last stack1)) (Li (make_item h next_header) []) t1, stack1))"

fun add_headers :: "header list \<Rightarrow> elem \<times> toc_stack \<Rightarrow> elem \<times> toc_stack" where
  "add_headers [] ts = ts"
| "add_headers [h] ts = add_header h None ts"
| "add_headers (h # n # hs) ts = add_headers (n # hs) (add_header h (Some n) ts)"

definition build_header_list :: "header list \<Rightarrow> elem option" where
  "build_header_list headers =
     (case headers of
        [] \<Rightarrow> None
      | h # _ \<Rightarrow> Some (fst (add_headers headers (open_first [1..<h_level h] (Ol [], [])))))"

subsection \<open>What the list shows\<close>

text \<open>The items in document order, each with the number of lists around it.\<close>

fun outline :: "nat \<Rightarrow> elem \<Rightarrow> (header_item \<times> nat) list" where
  "outline d (Ol cs) = concat (map (outline (d + 1)) cs)"
| "outline d (Li i cs) = (i, d) # concat (map (outline d) cs)"

text \<open>A path that always takes the last child, and the number of lists on it.\<close>

fun rightmost :: "nat list \<Rightarrow> elem \<Rightarrow> bool" where
  "rightmost [] t = True"
| "rightmost (i # p) t = (Suc i = length (children t) \<and> rightmost p (children t ! i))"

fun is_ol :: "elem \<Rightarrow> bool" where
  "is_ol (Ol cs) = True"
| "is_ol (Li i cs) = False"

fun ol_depth :: "nat list \<Rightarrow> elem \<Rightarrow> nat" where
  "ol_depth [] t = (if is_ol t then 1 else 0)"
| "ol_depth (i # p) t = (if is_ol t then 1 else 0) + ol_depth p (children t ! i)"

lemma children_with [simp]: "children (with_children cs t) = cs" "is_ol (with_children cs t) = is_ol t"
  by (cases t; simp)+

lemma last_split: "Suc i = length cs \<Longrightarrow> cs = butlast cs @ [cs ! i]"
  by (metis append_butlast_last_id diff_Suc_1 last_conv_nth length_0_conv nat.simps(3))

lemma update_last: "Suc i = length cs \<Longrightarrow> cs[i := x] = butlast cs @ [x]"
  by (metis butlast_list_update diff_Suc_1 last_split length_list_update nth_list_update_eq lessI)

lemma outline_append:
  assumes "rightmost p t"
  shows "outline d (appendChild p x t) = outline d t @ outline (d + ol_depth p t) x"
  using assms
proof (induction p arbitrary: t d)
  case Nil
  then show ?case by (cases t) simp_all
next
  case (Cons i p)
  let ?cs = "children t"
  have i: "Suc i = length ?cs" "rightmost p (?cs ! i)" using Cons.prems by simp_all
  let ?c = "?cs ! i"
  have u: "?cs[i := appendChild p x ?c] = butlast ?cs @ [appendChild p x ?c]" by (rule update_last [OF i(1)])
  have s: "concat (map f ?cs) = concat (map f (butlast ?cs)) @ f ?c" for f :: "elem \<Rightarrow> (header_item \<times> nat) list"
    using arg_cong [OF last_split [OF i(1)], of "\<lambda>cs. concat (map f cs)"] by (simp only: map_append concat_append list.map concat.simps append_Nil2)
  show ?case
  proof (cases t)
    case (Ol cs)
    then show ?thesis using u s [of "outline (d + 1)"] Cons.IH [OF i(2), of "d + 1"] by (simp add: add.assoc)
  next
    case (Li it cs)
    then show ?thesis using u s [of "outline d"] Cons.IH [OF i(2), of d] by simp
  qed
qed

lemma rightmost_append_self: "rightmost p t \<Longrightarrow> rightmost (p @ q) (appendChild (p @ q) x t) = rightmost q (appendChild q x (element_at p t))"
  by (induction p arbitrary: t) auto

lemma append_keeps:
  assumes "rightmost (p @ q) t"
  shows "rightmost p (appendChild (p @ q) x t)" and "ol_depth p (appendChild (p @ q) x t) = ol_depth p t"
  using assms
proof (induction p arbitrary: t)
  case Nil
  case 1 show ?case by simp
  case 2 show ?case by (cases q) simp_all
next
  case (Cons i p)
  case 1 then show ?case using Cons(1) by auto
  case 2 then show ?case using Cons(2) by auto
qed

lemma element_at_append: "element_at (p @ q) t = element_at q (element_at p t)"
  by (induction p arbitrary: t) simp_all

lemma appended_child:
  assumes "rightmost p t"
  shows "rightmost (next_path p t) (appendChild p x t)"
    and "element_at (next_path p t) (appendChild p x t) = x"
    and "ol_depth (next_path p t) (appendChild p x t) = ol_depth p t + (if is_ol x then 1 else 0)"
    and "element_at p (appendChild p x t) = with_children (children (element_at p t) @ [x]) (element_at p t)"
  using assms
  by (induction p arbitrary: t) (auto simp: next_path_def nth_append)

subsection \<open>The stack of open lists\<close>

definition open_list :: "elem \<Rightarrow> nat \<times> nat list \<Rightarrow> bool" where
  "open_list t e \<longleftrightarrow> rightmost (snd e) t \<and> ol_depth (snd e) t + 1 = fst e \<and> is_ol (element_at (snd e) t)"

definition levels_ok :: "toc_stack \<Rightarrow> bool" where
  "levels_ok stack \<longleftrightarrow> (\<forall>k < length stack. fst (stack ! k) = k + 2)"

definition stack_ok :: "elem \<Rightarrow> toc_stack \<Rightarrow> bool" where
  "stack_ok t stack \<longleftrightarrow>
     stack \<noteq> [] \<and> levels_ok stack \<and> sorted_wrt prefix (map snd stack) \<and> list_all (open_list t) stack"

text \<open>The list on top is empty, or its last child is an item to nest under.\<close>

definition top_ok :: "elem \<Rightarrow> toc_stack \<Rightarrow> bool" where
  "top_ok t stack \<longleftrightarrow>
     (let cs = children (element_at (snd (last stack)) t) in cs = [] \<or> \<not> is_ol (last cs))"

lemma is_ol_appendChild [simp]: "is_ol (appendChild p x t) = is_ol t"
  by (cases p) simp_all

lemma element_at_appendChild: "rightmost p t \<Longrightarrow> element_at p (appendChild (p @ q) x t) = appendChild q x (element_at p t)"
  by (induction p arbitrary: t) auto

lemma open_list_append:
  assumes "open_list t e" and "prefix (snd e) q" and "rightmost q t"
  shows "open_list (appendChild q x t) e"
proof -
  obtain r where q: "q = snd e @ r" using assms(2) by (auto simp: prefix_def)
  have r: "rightmost (snd e) t" using assms(1) by (simp add: open_list_def)
  show ?thesis
    using assms(1,3) append_keeps [of "snd e" r t x] element_at_appendChild [OF r, of r x] by (simp add: open_list_def q)
qed

lemma levels_last: "levels_ok stack \<Longrightarrow> stack \<noteq> [] \<Longrightarrow> fst (last stack) = length stack + 1"
  by (cases stack rule: rev_cases) (auto simp: levels_ok_def nth_append)

lemma levels_take: "levels_ok stack \<Longrightarrow> levels_ok (take n stack)"
  by (simp add: levels_ok_def)

lemma levels_snoc: "levels_ok stack \<Longrightarrow> levels_ok (stack @ [(length stack + 2, p)])"
  by (simp add: levels_ok_def nth_append less_Suc_eq)

lemma stack_okD:
  assumes "stack_ok t stack"
  shows "open_list t (last stack)" and "fst (last stack) = length stack + 1"
    and "e \<in> set stack \<Longrightarrow> open_list t e" and "e \<in> set stack \<Longrightarrow> prefix (snd e) (snd (last stack))"
proof -
  have ne: "stack \<noteq> []" using assms by (simp add: stack_ok_def)
  show "e \<in> set stack \<Longrightarrow> open_list t e" using assms by (simp add: stack_ok_def list_all_iff)
  show "open_list t (last stack)" using assms ne by (simp add: stack_ok_def list_all_iff)
  show "fst (last stack) = length stack + 1" using assms by (intro levels_last) (simp_all add: stack_ok_def)
  show "prefix (snd e) (snd (last stack))" if e: "e \<in> set stack"
  proof -
    have "stack = butlast stack @ [last stack]" using ne by simp
    then have "sorted_wrt prefix (map snd (butlast stack) @ [snd (last stack)])"
      using assms by (metis stack_ok_def map_append list.map(1,2))
    moreover have "e \<in> set (butlast stack) \<or> e = last stack" using e ne by (metis append_butlast_last_id rotate1.simps(2) set_ConsD set_rotate1)
    ultimately show ?thesis by (auto simp: sorted_wrt_append)
  qed
qed

lemma stack_ok_append:
  assumes "stack_ok t stack" and "prefix (snd (last stack)) q" and "rightmost q t"
  shows "stack_ok (appendChild q x t) stack"
proof -
  have "open_list (appendChild q x t) e" if "e \<in> set stack" for e
    using stack_okD(3,4) [OF assms(1) that] assms(2,3) by (auto intro: open_list_append prefix_order.trans)
  then show ?thesis using assms(1) by (simp add: stack_ok_def list_all_iff)
qed

lemma stack_ok_push:
  assumes s: "stack_ok t stack" and q: "prefix (snd (last stack)) q" "rightmost q t" "ol_depth q t = fst (last stack) - 1"
  shows "stack_ok (appendChild q (Ol []) t) (stack @ [(fst (last stack) + 1, next_path q t)])"
    and "outline 0 (appendChild q (Ol []) t) = outline 0 t"
    and "top_ok (appendChild q (Ol []) t) (stack @ [(fst (last stack) + 1, next_path q t)])"
proof -
  let ?t = "appendChild q (Ol []) t" and ?p = "next_path q t"
  have len: "fst (last stack) = length stack + 1" by (rule stack_okD(2) [OF s])
  have "open_list ?t (fst (last stack) + 1, ?p)"
    using appended_child [OF q(2), of "Ol []"] q(3) len by (simp add: open_list_def)
  moreover have "prefix (snd e) ?p" if "e \<in> set stack" for e
  proof -
    have "prefix (snd e) q" using stack_okD(4) [OF s that] q(1) by (rule prefix_order.trans)
    then show ?thesis by (simp add: next_path_def)
  qed
  ultimately show "stack_ok ?t (stack @ [(fst (last stack) + 1, ?p)])"
    using stack_ok_append [OF s q(1,2), of "Ol []"] len levels_snoc by (auto simp: stack_ok_def sorted_wrt_append)
  show "outline 0 ?t = outline 0 t" using outline_append [OF q(2), of 0 "Ol []"] by simp
  show "top_ok ?t (stack @ [(fst (last stack) + 1, ?p)])" using appended_child(2) [OF q(2), of "Ol []"] by (simp add: top_ok_def)
qed

lemma pop_to_take:
  assumes "levels_ok stack" and "2 \<le> level" and "level \<le> length stack + 1"
  shows "pop_to level stack = take (level - 1) stack"
  using assms
proof (induction level stack rule: pop_to.induct)
  case (1 level stack)
  have ne: "stack \<noteq> []" using 1(3,4) by auto
  have l: "fst (last stack) = length stack + 1" by (rule levels_last [OF 1(2) ne])
  show ?case
  proof (cases "length stack > 1 \<and> fst (last stack) > level")
    case True
    have b: "levels_ok (butlast stack)" using levels_take [OF 1(2), of "length stack - 1"] by (simp add: butlast_conv_take)
    have "level \<le> length (butlast stack) + 1" using True l ne by (cases stack rule: rev_cases) simp_all
    from 1(1) [OF True b 1(3) this] have "pop_to level stack = take (level - 1) (butlast stack)"
      using True by (simp add: pop_to.simps [of level stack])
    moreover have "level - 1 < length stack" using True l 1(3) by linarith
    ultimately show ?thesis by (simp add: take_butlast)
  next
    case False
    with l 1(3,4) ne have "level = length stack + 1" by (cases "length stack = 1") auto
    moreover have "pop_to level stack = stack" unfolding pop_to.simps [of level stack] using False by (simp only: if_False)
    ultimately show ?thesis by simp
  qed
qed

lemma stack_ok_take:
  assumes s: "stack_ok t stack" and n: "0 < n" "n \<le> length stack"
  shows "stack_ok t (take n stack)" and "fst (last (take n stack)) = n + 1"
proof -
  show ok: "stack_ok t (take n stack)"
    using s n by (auto simp: stack_ok_def take_map [symmetric] sorted_wrt_take levels_take list_all_iff dest: in_set_takeD)
  from stack_okD(2) [OF ok] n show "fst (last (take n stack)) = n + 1" by simp
qed

subsection \<open>Adding headers\<close>

text \<open>Opening the lists above the first header.\<close>

lemma open_first_ok:
  assumes "stack_ok t stack" and "fst (last stack) = i" and "i \<le> l" and "outline 0 t = []" and "top_ok t stack"
  shows "\<exists>t' stack'. open_first [i..<l] (t, stack) = (t', stack') \<and> stack_ok t' stack' \<and> fst (last stack') = l \<and>
    outline 0 t' = [] \<and> top_ok t' stack'"
  using assms
proof (induction "l - i" arbitrary: i t stack)
  case 0
  then show ?case by simp
next
  case (Suc n)
  let ?p = "snd (last stack)"
  have o: "open_list t (last stack)" by (rule stack_okD(1) [OF Suc.prems(1)])
  then have p: "rightmost ?p t" "ol_depth ?p t = fst (last stack) - 1" by (auto simp: open_list_def)
  note push = stack_ok_push [OF Suc.prems(1) prefix_order.refl p]
  let ?t = "appendChild ?p (Ol []) t" and ?s = "stack @ [(fst (last stack) + 1, next_path ?p t)]"
  have i: "[i..<l] = i # [Suc i..<l]" using Suc.hyps(2) by (simp add: upt_conv_Cons)
  have "\<exists>t' stack'. open_first [Suc i..<l] (?t, ?s) = (t', stack') \<and> stack_ok t' stack' \<and> fst (last stack') = l \<and>
      outline 0 t' = [] \<and> top_ok t' stack'"
    using Suc.hyps(2) Suc.prems push by (intro Suc.hyps(1)) auto
  moreover have "stack \<noteq> []" using Suc.prems(1) by (simp add: stack_ok_def)
  ultimately show ?case using Suc.prems(2) by (simp add: i Let_def)
qed

lemma last_item_path:
  assumes o: "open_list t (last stack)" and top: "top_ok t stack"
  defines "p \<equiv> snd (last stack)"
  defines "q \<equiv> (case last_child p t of Some c \<Rightarrow> c | None \<Rightarrow> p)"
  shows "prefix p q" "rightmost q t" "ol_depth q t = fst (last stack) - 1"
proof -
  let ?cs = "children (element_at p t)"
  have p: "rightmost p t" "ol_depth p t = fst (last stack) - 1" using o by (auto simp: open_list_def p_def)
  have ext: "rightmost (r @ [length (children (element_at r t)) - 1]) t \<and> ol_depth (r @ [length (children (element_at r t)) - 1]) t = ol_depth r t"
    if "rightmost r t" "children (element_at r t) \<noteq> []" "\<not> is_ol (last (children (element_at r t)))" for r t
    using that by (induction r arbitrary: t) (auto simp: last_conv_nth)
  have "prefix p q \<and> rightmost q t \<and> ol_depth q t = fst (last stack) - 1"
  proof (cases "?cs = []")
    case True
    then show ?thesis using p by (simp add: q_def last_child_def)
  next
    case False
    then have "q = p @ [length ?cs - 1]" by (cases ?cs) (simp_all add: q_def last_child_def)
    moreover have "\<not> is_ol (last ?cs)" using top False by (simp add: top_ok_def p_def)
    ultimately show ?thesis using ext [OF p(1) False] p(2) by simp
  qed
  then show "prefix p q" "rightmost q t" "ol_depth q t = fst (last stack) - 1" by auto
qed

lemma nest_ok:
  assumes "stack_ok t stack" and "fst (last stack) = c" and "c \<le> l" and "top_ok t stack"
  shows "\<exists>t' stack'. nest [c + 1..<l + 1] (t, stack) = (t', stack') \<and> stack_ok t' stack' \<and> fst (last stack') = l \<and>
    outline 0 t' = outline 0 t \<and> top_ok t' stack'"
  using assms
proof (induction "l - c" arbitrary: c t stack)
  case 0
  then show ?case by simp
next
  case (Suc n)
  let ?p = "snd (last stack)"
  let ?q = "case last_child ?p t of Some c \<Rightarrow> c | None \<Rightarrow> ?p"
  note q = last_item_path [OF stack_okD(1) [OF Suc.prems(1)] Suc.prems(4)]
  note push = stack_ok_push [OF Suc.prems(1) q]
  let ?t = "appendChild ?q (Ol []) t" and ?s = "stack @ [(fst (last stack) + 1, next_path ?q t)]"
  have "c + 1 < l + 1" using Suc.hyps(2) by linarith
  then have c: "[c + 1..<l + 1] = (c + 1) # [c + 1 + 1..<l + 1]" using upt_conv_Cons by simp
  have "\<exists>t' stack'. nest [c + 1 + 1..<l + 1] (?t, ?s) = (t', stack') \<and> stack_ok t' stack' \<and> fst (last stack') = l \<and>
      outline 0 t' = outline 0 ?t \<and> top_ok t' stack'"
    using Suc.hyps(2) Suc.prems push by (intro Suc.hyps(1)) auto
  then show ?case unfolding c using Suc.prems(2) push(2) by (simp add: Let_def)
qed

lemma add_header_ok:
  assumes s: "stack_ok t stack" and top: "top_ok t stack" and l: "2 \<le> h_level h"
  shows "\<exists>t' stack'. add_header h nxt (t, stack) = (t', stack') \<and> stack_ok t' stack' \<and> top_ok t' stack' \<and>
    outline 0 t' = outline 0 t @ [(make_item h nxt, h_level h - 1)]"
proof -
  let ?c = "fst (last stack)"
  have len: "?c = length stack + 1" by (rule stack_okD(2) [OF s])
  obtain t1 s1 where a: "add_header h nxt (t, stack) = (appendChild (snd (last s1)) (Li (make_item h nxt) []) t1, s1)"
    and s1: "stack_ok t1 s1" "fst (last s1) = h_level h" "outline 0 t1 = outline 0 t"
  proof (cases "h_level h" ?c rule: linorder_cases)
    case less
    let ?st = "take (h_level h - 1) stack"
    have "pop_to (h_level h) stack = ?st" using s l less len by (intro pop_to_take) (simp_all add: stack_ok_def)
    with less have a: "add_header h nxt (t, stack) = (appendChild (snd (last ?st)) (Li (make_item h nxt) []) t, ?st)"
      by (simp add: add_header_def Let_def)
    have "0 < h_level h - 1" "h_level h - 1 \<le> length stack" using l less len by linarith+
    note st = stack_ok_take [OF s this]
    have "fst (last ?st) = h_level h" using st(2) l by simp
    from that [OF a st(1) this refl] show thesis .
  next
    case equal
    then have a: "add_header h nxt (t, stack) = (appendChild (snd (last stack)) (Li (make_item h nxt) []) t, stack)"
      by (simp add: add_header_def Let_def)
    from that [OF a s equal [symmetric] refl] show thesis .
  next
    case greater
    with nest_ok [OF s refl _ top, of "h_level h"] obtain t1 s1 where
      n: "nest [?c + 1..<h_level h + 1] (t, stack) = (t1, s1)" "stack_ok t1 s1" "fst (last s1) = h_level h" "outline 0 t1 = outline 0 t"
      by auto
    from greater n(1) have a: "add_header h nxt (t, stack) = (appendChild (snd (last s1)) (Li (make_item h nxt) []) t1, s1)"
      by (simp add: add_header_def Let_def del: upt_Suc)
    from that [OF a n(2-4)] show thesis .
  qed
  let ?p = "snd (last s1)" and ?li = "Li (make_item h nxt) []"
  have p: "rightmost ?p t1" "ol_depth ?p t1 = h_level h - 1" using stack_okD(1) [OF s1(1)] s1(2) by (auto simp: open_list_def)
  have "stack_ok (appendChild ?p ?li t1) s1" by (rule stack_ok_append [OF s1(1) prefix_order.refl p(1)])
  moreover have "top_ok (appendChild ?p ?li t1) s1" using appended_child(4) [OF p(1), of ?li] by (simp add: top_ok_def)
  moreover have "outline 0 (appendChild ?p ?li t1) = outline 0 t @ [(make_item h nxt, h_level h - 1)]"
    using outline_append [OF p(1), of 0 ?li] p(2) s1(3) by simp
  ultimately show ?thesis using a by blast
qed

text \<open>The items that the headers of a page should give, each with its depth.\<close>

fun header_outline :: "header list \<Rightarrow> (header_item \<times> nat) list" where
  "header_outline [] = []"
| "header_outline [h] = [(make_item h None, h_level h - 1)]"
| "header_outline (h # n # hs) = (make_item h (Some n), h_level h - 1) # header_outline (n # hs)"

lemma add_headers_ok:
  assumes "stack_ok t stack" and "top_ok t stack" and "\<forall>h \<in> set hs. 2 \<le> h_level h"
  shows "outline 0 (fst (add_headers hs (t, stack))) = outline 0 t @ header_outline hs"
  using assms
proof (induction hs arbitrary: t stack rule: header_outline.induct)
  case (2 h)
  then obtain t' stack' where "add_header h None (t, stack) = (t', stack')" "outline 0 t' = outline 0 t @ [(make_item h None, h_level h - 1)]"
    using add_header_ok [of t stack h None] by auto
  then show ?case by simp
next
  case (3 h n hs)
  then obtain t' stack' where "add_header h (Some n) (t, stack) = (t', stack')" "stack_ok t' stack'" "top_ok t' stack'"
    "outline 0 t' = outline 0 t @ [(make_item h (Some n), h_level h - 1)]"
    using add_header_ok [of t stack h "Some n"] by auto
  with 3 show ?case by simp
qed simp

lemma start_ok: "stack_ok (Ol []) [(2, [])]" "top_ok (Ol []) [(2, [])]"
  by (simp_all add: stack_ok_def levels_ok_def open_list_def top_ok_def)

lemma header_list_outline:
  assumes "headers \<noteq> []" and "\<forall>h \<in> set headers. 2 \<le> h_level h \<and> h_level h \<le> 6"
  shows "\<exists>t. build_header_list headers = Some t \<and> outline 0 t = header_outline headers"
proof -
  obtain h hs where hs: "headers = h # hs" using assms(1) by (cases headers) auto
  have l: "2 \<le> h_level h" using assms(2) hs by simp
  have "[1..<h_level h] = 1 # [2..<h_level h]" using l by (simp add: upt_conv_Cons numeral_2_eq_2)
  then have "open_first [1..<h_level h] (Ol [], []) = open_first [2..<h_level h] (Ol [], [(2, [])])" by (simp add: numeral_2_eq_2)
  with open_first_ok [OF start_ok(1) _ l _ start_ok(2)] obtain t stack where
    t: "open_first [1..<h_level h] (Ol [], []) = (t, stack)" "stack_ok t stack" "outline 0 t = []" "top_ok t stack" by auto
  with add_headers_ok [OF t(2,4), of headers] assms(2) hs show ?thesis by (simp add: build_header_list_def)
qed

subsection \<open>Properties\<close>

text \<open>C30: the sidebar mirrors the headers of the page. For every non-empty sequence of headers of levels two to six, in any nesting and
  with any jumps between levels, the list that the script builds shows every header once, in document order, each inside as many
  lists as its level below one, with the text of the header and a fold toggle exactly when a deep header has a deeper one behind it.\<close>

theorem sidebar_mirrors_headers:
  assumes "headers \<noteq> []" and "\<forall>h \<in> set headers. 2 \<le> h_level h \<and> h_level h \<le> 6"
  shows "\<exists>t. build_header_list headers = Some t \<and> outline 0 t = header_outline headers"
  using assms by (rule header_list_outline)

theorem sidebar_mirrors_headers_witness:
  "\<exists>t. build_header_list
      [\<lparr>h_id = ''frame'', h_level = 3, h_text = [Text ''Frame'']\<rparr>, \<lparr>h_id = ''setup'', h_level = 2, h_text = [Mark [Text ''Set''], Text ''up'']\<rparr>,
       \<lparr>h_id = ''key'', h_level = 4, h_text = []\<rparr>] = Some t \<and>
     map (\<lambda>(i, d). (hi_id i, d)) (outline 0 t) = [(''frame'', 2), (''setup'', 1), (''key'', 3)]"
  using sidebar_mirrors_headers
    [of "[\<lparr>h_id = ''frame'', h_level = 3, h_text = [Text ''Frame'']\<rparr>, \<lparr>h_id = ''setup'', h_level = 2, h_text = [Mark [Text ''Set''], Text ''up'']\<rparr>,
       \<lparr>h_id = ''key'', h_level = 4, h_text = []\<rparr>]"]
  by (auto simp: make_item_def)

end
