(* ===== verification/Page_Dom.thy ===== *)
theory Page_Dom
  imports Web_Text
begin

section \<open>What the page scripts share\<close>

text \<open>
  Pieces of the browser that the scripts of the book use: class lists, the storage of the browser, and the exception for a
  missing element. A blocked storage throws at every access; an open one is a map. The script in the head of a page unwraps
  stored values that an earlier version of the book kept in quotes.
\<close>

definition null_TypeError :: js_error where
  "null_TypeError = \<lparr>e_name = ''TypeError'', e_message = ''Cannot read properties of null'', e_code = None, e_errno = None\<rparr>"

fun find_index :: "('a \<Rightarrow> bool) \<Rightarrow> 'a list \<Rightarrow> nat option" where
  "find_index P [] = None"
| "find_index P (x # xs) = (if P x then Some 0 else map_option Suc (find_index P xs))"

lemma find_index_Some: "find_index P xs = Some j \<Longrightarrow> j < length xs \<and> P (xs ! j)"
  by (induction xs arbitrary: j) (auto split: if_splits)

lemma find_index_None: "find_index P xs = None \<longleftrightarrow> (\<forall>x \<in> set xs. \<not> P x)"
  by (induction xs) auto

lemma find_index_distinct:
  assumes "distinct (map f xs)" and "k < length xs"
  shows "find_index (\<lambda>x. f x = f (xs ! k)) xs = Some k"
  using assms
proof (induction xs arbitrary: k)
  case (Cons x xs)
  show ?case
  proof (cases k)
    case (Suc m)
    then have "f x \<noteq> f (xs ! m)" using Cons.prems by auto
    with Suc Cons show ?thesis by simp
  qed simp
qed simp

lemma find_index_map: "find_index (\<lambda>x. P (f x)) xs = find_index P (map f xs)"
  by (induction xs) simp_all

subsection \<open>Class lists\<close>

definition class_add :: "string \<Rightarrow> string list \<Rightarrow> string list" where
  "class_add c cs = (if c \<in> set cs then cs else cs @ [c])"

definition class_remove :: "string \<Rightarrow> string list \<Rightarrow> string list" where
  "class_remove c cs = removeAll c cs"

definition class_attr :: "string list \<Rightarrow> string" where
  "class_attr cs = js_join '' '' cs"

lemma set_class_add [simp]: "set (class_add c cs) = insert c (set cs)"
  by (auto simp: class_add_def)

lemma set_class_remove [simp]: "set (class_remove c cs) = set cs - {c}"
  by (simp add: class_remove_def)

lemma distinct_class [simp]:
  "distinct cs \<Longrightarrow> distinct (class_add c cs)" "distinct cs \<Longrightarrow> distinct (class_remove c cs)"
  by (simp_all add: class_add_def class_remove_def distinct_removeAll)

subsection \<open>Storage\<close>

type_synonym storage = "js_error + (string \<rightharpoonup> string)"

definition getItem :: "string \<Rightarrow> storage \<Rightarrow> js_error + string option" where
  "getItem k st = (case st of Inl e \<Rightarrow> Inl e | Inr m \<Rightarrow> Inr (m k))"

definition setItem :: "string \<Rightarrow> string \<Rightarrow> storage \<Rightarrow> js_error + storage" where
  "setItem k v st = (case st of Inl e \<Rightarrow> Inl e | Inr m \<Rightarrow> Inr (Inr (m(k \<mapsto> v))))"

definition removeItem :: "string \<Rightarrow> storage \<Rightarrow> js_error + storage" where
  "removeItem k st = (case st of Inl e \<Rightarrow> Inl e | Inr m \<Rightarrow> Inr (Inr (m(k := None))))"

text \<open>Reading and writing inside \<open>try\<close> with an empty \<open>catch\<close>.\<close>

definition try_get :: "string \<Rightarrow> storage \<Rightarrow> string option" where
  "try_get k st = (case getItem k st of Inl _ \<Rightarrow> None | Inr v \<Rightarrow> v)"

definition try_set :: "string \<Rightarrow> string \<Rightarrow> storage \<Rightarrow> storage" where
  "try_set k v st = (case setItem k v st of Inl _ \<Rightarrow> st | Inr st' \<Rightarrow> st')"

lemma try_get_simps [simp]: "try_get k (Inl e) = None" "try_get k (Inr m) = m k"
  by (simp_all add: try_get_def getItem_def)

lemma try_set_simps [simp]: "try_set k v (Inl e) = Inl e" "try_set k v (Inr m) = Inr (m(k \<mapsto> v))"
  by (simp_all add: try_set_def setItem_def)

lemma removeItem_simps [simp]: "removeItem k (Inl e) = Inl e" "removeItem k (Inr m) = Inr (Inr (m(k := None)))"
  by (simp_all add: removeItem_def)

subsection \<open>Quoted values\<close>

definition theme_key :: string where "theme_key = ''mdbook-theme''"

definition sidebar_key :: string where "sidebar_key = ''mdbook-sidebar''"

definition dquote :: char where "dquote = CHR 0x22"

definition in_quotes :: "string \<Rightarrow> bool" where
  "in_quotes v \<longleftrightarrow> prefix [dquote] v \<and> suffix [dquote] v"

definition slice_quotes :: "string \<Rightarrow> string" where
  "slice_quotes v = take (length v - 1 - 1) (drop 1 v)"

definition unwrap :: "string \<Rightarrow> (string \<rightharpoonup> string) \<Rightarrow> js_error + (string \<rightharpoonup> string)" where
  "unwrap k m = (case m k of None \<Rightarrow> Inl null_TypeError
                 | Some v \<Rightarrow> Inr (if in_quotes v then m(k \<mapsto> slice_quotes v) else m))"

text \<open>Both values are unwrapped in one \<open>try\<close>: an exception in the first skips the second.\<close>

definition unwrap_values :: "storage \<Rightarrow> storage" where
  "unwrap_values st =
     (case st of Inl e \<Rightarrow> Inl e
      | Inr m \<Rightarrow> (case unwrap theme_key m of
                   Inl _ \<Rightarrow> Inr m
                 | Inr m1 \<Rightarrow> (case unwrap sidebar_key m1 of Inl _ \<Rightarrow> Inr m1 | Inr m2 \<Rightarrow> Inr m2)))"

lemma slice_wrapped: "slice_quotes (dquote # v @ [dquote]) = v"
  by (simp add: slice_quotes_def)

lemma keys_distinct [simp]: "theme_key \<noteq> sidebar_key" "sidebar_key \<noteq> theme_key"
  by (simp_all add: theme_key_def sidebar_key_def)

text \<open>Without a stored theme, a stored sidebar value keeps its quotes.\<close>

theorem quoted_sidebar_kept:
  "m theme_key = None \<Longrightarrow> unwrap_values (Inr m) = Inr m"
  by (simp add: unwrap_values_def unwrap_def)

theorem quoted_values_unwrapped:
  "m theme_key = Some (dquote # v @ [dquote]) \<Longrightarrow> m sidebar_key = Some (dquote # w @ [dquote]) \<Longrightarrow>
     unwrap_values (Inr m) = Inr (m(theme_key \<mapsto> v, sidebar_key \<mapsto> w))"
  by (simp add: unwrap_values_def unwrap_def in_quotes_def slice_wrapped suffix_def)

end
