(* ===== verification/Sidebar_Scroll.thy ===== *)
theory Sidebar_Scroll
  imports Sidebar_Headers Page_Dom
begin

section \<open>Following the reader in the sidebar (\<open>toc.js\<close>)\<close>

text \<open>
  The rest of the sidebar script: marking the open chapter, keeping the scroll position of the sidebar between pages, and
  the current header, which a threshold line chooses while the page scrolls. Sizes and positions are those that the browser
  reports with each event; pixels are exact rationals. The header items are numbered in document order.
\<close>

subsection \<open>The threshold\<close>

record viewport =
  vp_scrollTop :: rat
  vp_windowHeight :: rat
  vp_documentHeight :: rat
  vp_top :: "nat \<Rightarrow> rat"
  vp_bottom :: "string \<Rightarrow> rat option"

record toc_item =
  ti_id :: string
  ti_parents :: "nat list"
  ti_toggle :: bool
  ti_expanded :: bool
  ti_current :: bool

datatype debug_value = Pixels rat | Flag bool

record toc_state =
  tc_lastKnownScrollPosition :: rat
  tc_threshold :: rat
  tc_disableScroll :: bool
  tc_timers :: nat
  tc_frames :: "(nat \<times> string) list"
  tc_headers :: "string list"
  tc_items :: "toc_item list"
  tc_thresholdDebug :: bool
  tc_debug_data :: "(string \<times> debug_value) list option"
  tc_debug_line :: "rat option"

definition defaultDownThreshold :: rat where "defaultDownThreshold = 150"

definition defaultUpThreshold :: rat where "defaultUpThreshold = 300"

definition drawDebugLine :: "toc_state \<Rightarrow> toc_state" where
  "drawDebugLine s = s\<lparr>tc_debug_line := Some (tc_threshold s)\<rparr>"

definition adjusted_bottom_add :: "viewport \<Rightarrow> rat \<Rightarrow> rat \<Rightarrow> rat" where
  "adjusted_bottom_add vp pixelsBelow bottomAdd =
     (if vp_documentHeight vp < vp_windowHeight vp * 2
      then let maxPixelsBelow = vp_documentHeight vp - vp_windowHeight vp;
               t = 1 - pixelsBelow / max 1 maxPixelsBelow;
               clamp = max 0 (min 1 t)
           in bottomAdd * clamp
      else bottomAdd)"

definition updateThreshold :: "viewport \<Rightarrow> toc_state \<Rightarrow> toc_state" where
  "updateThreshold vp s =
     (let scrollTop = vp_scrollTop vp;
          windowHeight = vp_windowHeight vp;
          documentHeight = vp_documentHeight vp;
          pixelsBelow = max 0 (documentHeight - (scrollTop + windowHeight));
          pixelsAbove = max 0 (defaultDownThreshold - scrollTop);
          bottomAdd = max 0 (windowHeight - pixelsBelow - defaultDownThreshold);
          adjustedBottomAdd = adjusted_bottom_add vp pixelsBelow bottomAdd;
          scrollingDown = (\<not> scrollTop < tc_lastKnownScrollPosition s);
          moved = (if scrollingDown
                   then max (defaultDownThreshold + adjustedBottomAdd)
                          (tc_threshold s - (scrollTop - tc_lastKnownScrollPosition s))
                   else min (defaultUpThreshold - pixelsAbove + max 0 (adjustedBottomAdd - defaultDownThreshold))
                          (tc_threshold s + (tc_lastKnownScrollPosition s - scrollTop)));
          threshold = (if documentHeight \<le> windowHeight then 0 else moved);
          s1 = s\<lparr>tc_threshold := threshold\<rparr>;
          s2 = (if tc_thresholdDebug s1
                then drawDebugLine (s1\<lparr>tc_debug_data := Some
                  [(''documentHeight'', Pixels documentHeight), (''windowHeight'', Pixels windowHeight), (''scrollTop'', Pixels scrollTop),
                   (''pixelsAbove'', Pixels pixelsAbove), (''pixelsBelow'', Pixels pixelsBelow), (''bottomAdd'', Pixels bottomAdd),
                   (''adjustedBottomAdd'', Pixels adjustedBottomAdd), (''scrollingDown'', Flag scrollingDown), (''threshold'', Pixels threshold)]\<rparr>)
                else s1)
      in s2\<lparr>tc_lastKnownScrollPosition := scrollTop\<rparr>)"

definition mdbookEnableThresholdDebug :: "viewport \<Rightarrow> toc_state \<Rightarrow> toc_state" where
  "mdbookEnableThresholdDebug vp s = drawDebugLine (updateThreshold vp (s\<lparr>tc_thresholdDebug := True\<rparr>))"

subsection \<open>The current header\<close>

text \<open>Removing the class from a live collection while iterating over it visits every other element.\<close>

fun live_reset :: "bool \<Rightarrow> toc_item list \<Rightarrow> toc_item list" where
  "live_reset visit [] = []"
| "live_reset visit (i # is) =
     (if ti_current i then (if visit then i\<lparr>ti_current := False\<rparr> else i) # live_reset (\<not> visit) is
      else i # live_reset visit is)"

definition update_item :: "nat \<Rightarrow> (toc_item \<Rightarrow> toc_item) \<Rightarrow> toc_item list \<Rightarrow> toc_item list" where
  "update_item j f items = (if j < length items then items[j := f (items ! j)] else items)"

definition updateHeaderExpanded :: "nat \<Rightarrow> toc_item list \<Rightarrow> toc_item list" where
  "updateHeaderExpanded j items =
     fold (\<lambda>k. update_item k (\<lambda>i. i\<lparr>ti_expanded := True\<rparr>)) (j # ti_parents (items ! j)) items"

definition last_above :: "rat \<Rightarrow> (nat \<Rightarrow> rat) \<Rightarrow> nat \<Rightarrow> nat option" where
  "last_above threshold pos n =
     (case takeWhile (\<lambda>i. pos i \<le> threshold) [0..<n] of [] \<Rightarrow> None | is \<Rightarrow> Some (last is))"

definition updateCurrentHeader :: "viewport \<Rightarrow> toc_state \<Rightarrow> toc_state" where
  "updateCurrentHeader vp s =
     (if tc_headers s = [] then s
      else let items = map (\<lambda>i. if ti_toggle i then i\<lparr>ti_expanded := False\<rparr> else i) (live_reset True (tc_items s));
               s1 = s\<lparr>tc_items := items\<rparr>;
               chosen = (case last_above (tc_threshold s) (vp_top vp) (length (tc_headers s)) of
                           Some k \<Rightarrow> Some k
                         | None \<Rightarrow> if vp_top vp 0 \<ge> vp_windowHeight vp then None else Some 0)
           in case chosen of
                None \<Rightarrow> s1
              | Some k \<Rightarrow>
                  (case find_index (\<lambda>i. ti_id i = tc_headers s ! k) items of
                     None \<Rightarrow> s1
                   | Some j \<Rightarrow>
                       s1\<lparr>tc_items := updateHeaderExpanded j (update_item j (\<lambda>i. i\<lparr>ti_current := True\<rparr>) items)\<rparr>))"

definition reloadCurrentHeader :: "viewport \<Rightarrow> toc_state \<Rightarrow> toc_state" where
  "reloadCurrentHeader vp s = (if tc_disableScroll s then s else updateCurrentHeader vp (updateThreshold vp s))"

subsection \<open>Clicks on a header\<close>

definition headerThresholdClick :: "string \<Rightarrow> toc_state \<Rightarrow> toc_state" where
  "headerThresholdClick targetId s =
     s\<lparr>tc_disableScroll := True, tc_timers := tc_timers s + 1, tc_frames := tc_frames s @ [(2, targetId)]\<rparr>"

definition enable_timer :: "toc_state \<Rightarrow> toc_state" where
  "enable_timer s = (if tc_timers s = 0 then s else s\<lparr>tc_timers := tc_timers s - 1, tc_disableScroll := False\<rparr>)"

text \<open>The inner frame, once the outer one has passed.\<close>

definition threshold_to_target :: "viewport \<Rightarrow> string \<Rightarrow> toc_state \<Rightarrow> toc_state" where
  "threshold_to_target vp targetId s =
     (case vp_bottom vp targetId of None \<Rightarrow> s | Some b \<Rightarrow> updateCurrentHeader vp (s\<lparr>tc_threshold := b\<rparr>))"

definition click_frame :: "viewport \<Rightarrow> nat \<times> string \<Rightarrow> toc_state \<Rightarrow> toc_state" where
  "click_frame vp = (\<lambda>(stage, targetId) s.
     if stage = 2 then s\<lparr>tc_frames := tc_frames s @ [(1, targetId)]\<rparr> else threshold_to_target vp targetId s)"

definition animation_frame :: "viewport \<Rightarrow> toc_state \<Rightarrow> toc_state" where
  "animation_frame vp s = fold (click_frame vp) (tc_frames s) (s\<lparr>tc_frames := []\<rparr>)"

definition header_toggle_click :: "nat \<Rightarrow> toc_state \<Rightarrow> toc_state" where
  "header_toggle_click j s = s\<lparr>tc_items := update_item j (\<lambda>i. i\<lparr>ti_expanded := \<not> ti_expanded i\<rparr>) (tc_items s)\<rparr>"

subsection \<open>From the header list to its items\<close>

fun number_items :: "nat list \<Rightarrow> nat \<Rightarrow> elem \<Rightarrow> toc_item list"
  and number_list :: "nat list \<Rightarrow> nat \<Rightarrow> elem list \<Rightarrow> toc_item list" where
  "number_items parents k (Ol cs) = number_list parents k cs"
| "number_items parents k (Li it cs) =
     \<lparr>ti_id = hi_id it, ti_parents = parents, ti_toggle = hi_toggle it, ti_expanded = True, ti_current = False\<rparr>
       # number_list (k # parents) (k + 1) cs"
| "number_list parents k [] = []"
| "number_list parents k (c # cs) =
     (let is = number_items parents k c in is @ number_list parents (k + length is) cs)"

definition content_loaded :: "bool \<Rightarrow> header list \<Rightarrow> toc_state \<Rightarrow> toc_state" where
  "content_loaded active headers s =
     (if \<not> active then s
      else let s1 = s\<lparr>tc_headers := map h_id headers\<rparr>
           in case build_header_list headers of
                None \<Rightarrow> s1
              | Some t \<Rightarrow> s1\<lparr>tc_items := number_items [] 0 t\<rparr>)"

definition toc_start :: toc_state where
  "toc_start =
     \<lparr>tc_lastKnownScrollPosition = 0, tc_threshold = defaultDownThreshold, tc_disableScroll = False, tc_timers = 0, tc_frames = [],
      tc_headers = [], tc_items = [], tc_thresholdDebug = False, tc_debug_data = None, tc_debug_line = None\<rparr>"

datatype toc_event =
    Scrolled viewport | HeaderClicked string | EnableTimer | AnimationFrame viewport | ToggleClicked nat | DebugEnabled viewport

fun toc_step :: "toc_event \<Rightarrow> toc_state \<Rightarrow> toc_state" where
  "toc_step (Scrolled vp) s = reloadCurrentHeader vp s"
| "toc_step (HeaderClicked targetId) s = headerThresholdClick targetId s"
| "toc_step EnableTimer s = enable_timer s"
| "toc_step (AnimationFrame vp) s = animation_frame vp s"
| "toc_step (ToggleClicked j) s = header_toggle_click j s"
| "toc_step (DebugEnabled vp) s = mdbookEnableThresholdDebug vp s"

definition toc_page :: "header list \<Rightarrow> viewport \<Rightarrow> toc_state" where
  "toc_page headers vp = reloadCurrentHeader vp (content_loaded True headers toc_start)"

subsection \<open>The open chapter\<close>

record chapter_link =
  ck_href :: "string option"
  ck_resolved :: string
  ck_items :: "nat list"
  ck_active :: bool

definition ends_with :: "string \<Rightarrow> string \<Rightarrow> bool" where
  "ends_with s e \<longleftrightarrow> suffix e s"

definition current_page :: "string \<Rightarrow> string" where
  "current_page location =
     (let p = js_split ''?'' (js_split ''#'' location ! 0) ! 0
      in if ends_with p ''/'' then p @ ''index.html'' else p)"

definition scheme_char :: "char \<Rightarrow> bool" where
  "scheme_char c \<longleftrightarrow> (97 \<le> (of_char c :: nat) \<and> (of_char c :: nat) \<le> 122) \<or> c = CHR ''+''"

definition is_absolute :: "string \<Rightarrow> bool" where
  "is_absolute h \<longleftrightarrow>
     prefix ''//'' h \<or>
     (let r = dropWhile scheme_char h in r \<noteq> h \<and> prefix ''://'' r)"

definition connect_link ::
    "(string \<Rightarrow> string) \<Rightarrow> string \<Rightarrow> string \<Rightarrow> nat \<times> chapter_link \<Rightarrow> nat set \<times> chapter_link list \<Rightarrow> nat set \<times> chapter_link list" where
  "connect_link resolve path_to_root page = (\<lambda>(i, link) (expanded, links).
     let link1 = (case ck_href link of
                    None \<Rightarrow> link
                  | Some h \<Rightarrow> if h \<noteq> [] \<and> \<not> prefix ''#'' h \<and> \<not> is_absolute h
                              then link\<lparr>ck_href := Some (path_to_root @ h), ck_resolved := resolve (path_to_root @ h)\<rparr> else link)
     in if ck_resolved link1 = page \<or> i = 0 \<and> path_to_root = [] \<and> ends_with page ''/index.html''
        then (expanded \<union> set (ck_items link1), links @ [link1\<lparr>ck_active := True\<rparr>])
        else (expanded, links @ [link1]))"

definition connect_links ::
    "(string \<Rightarrow> string) \<Rightarrow> string \<Rightarrow> string \<Rightarrow> nat set \<Rightarrow> chapter_link list \<Rightarrow> nat set \<times> chapter_link list" where
  "connect_links resolve path_to_root location expanded links =
     fold (connect_link resolve path_to_root (current_page location)) (enumerate 0 links) (expanded, [])"

definition toggleSection :: "nat \<Rightarrow> nat set \<Rightarrow> nat set" where
  "toggleSection item expanded = (if item \<in> expanded then expanded - {item} else insert item expanded)"

text \<open>The offset of a clicked link is kept for the next page, which scrolls its open chapter to the same place.\<close>

definition sidebar_click :: "bool \<Rightarrow> rat \<Rightarrow> rat \<Rightarrow> rat option \<Rightarrow> rat option" where
  "sidebar_click is_link link_top sidebar_top stored = (if is_link then Some (link_top - sidebar_top) else stored)"

text \<open>Without a stored offset the browser centres the open chapter, at a scroll position of its own choice.\<close>

definition restore_scroll :: "rat option \<Rightarrow> rat option \<Rightarrow> rat \<Rightarrow> rat \<Rightarrow> rat \<times> rat option" where
  "restore_scroll stored active_offset centred scrollTop =
     (case stored of
        Some offset \<Rightarrow>
          (case active_offset of Some currentOffset \<Rightarrow> scrollTop + (currentOffset - offset) | None \<Rightarrow> scrollTop)
      | None \<Rightarrow> (case active_offset of Some _ \<Rightarrow> centred | None \<Rightarrow> scrollTop),
      None)"

subsection \<open>Items and their ids\<close>

lemma number_ids:
  "map ti_id (number_items parents k t) = map (\<lambda>(i, _). hi_id i) (outline d t)"
  "map ti_id (number_list parents k cs) = map (\<lambda>(i, _). hi_id i) (concat (map (outline d) cs))"
proof (induction parents k t and parents k cs arbitrary: d and d rule: number_items_number_list.induct)
  case (4 parents k c cs)
  then show ?case by (simp add: Let_def)
qed simp_all

lemma header_outline_ids: "map (\<lambda>(i, _). hi_id i) (header_outline hs) = map h_id hs"
  by (induction hs rule: header_outline.induct) (simp_all add: make_item_def)

text \<open>What only the class \<open>expanded\<close> distinguishes.\<close>

definition item_key :: "toc_item \<Rightarrow> string \<times> bool" where
  "item_key i = (ti_id i, ti_current i)"

lemma update_expanded_key: "map item_key (update_item j (\<lambda>i. i\<lparr>ti_expanded := f i\<rparr>) items) = map item_key items"
  by (auto simp: update_item_def item_key_def map_update list_update_same_conv)

lemma updateHeaderExpanded_key: "map item_key (updateHeaderExpanded j items) = map item_key items"
proof -
  have "map item_key (fold (\<lambda>k. update_item k (\<lambda>i. i\<lparr>ti_expanded := True\<rparr>)) ks items) = map item_key items" for ks
    by (induction ks arbitrary: items) (simp_all add: update_expanded_key)
  then show ?thesis by (simp only: updateHeaderExpanded_def)
qed

lemma live_reset_ids: "map ti_id (live_reset v items) = map ti_id items"
  by (induction v items rule: live_reset.induct) simp_all

text \<open>With at most one current item, the reset over the live collection clears it.\<close>

definition currents :: "toc_item list \<Rightarrow> nat" where
  "currents items = length (filter ti_current items)"

lemma live_reset_none: "currents items = 0 \<Longrightarrow> live_reset v items = items"
proof -
  have "\<forall>i \<in> set items. \<not> ti_current i \<Longrightarrow> live_reset v items = items" for v by (induction items) simp_all
  then show "currents items = 0 \<Longrightarrow> live_reset v items = items" by (simp add: currents_def filter_empty_conv)
qed

lemma key_none: "currents items = 0 \<Longrightarrow> map item_key items = map (\<lambda>i. (ti_id i, False)) items"
  by (simp add: currents_def item_key_def filter_empty_conv)

lemma live_reset_key: "currents items \<le> 1 \<Longrightarrow> map item_key (live_reset True items) = map (\<lambda>i. (ti_id i, False)) items"
proof (induction items)
  case (Cons i items)
  show ?case
  proof (cases "ti_current i")
    case True
    then have "currents items = 0" using Cons.prems by (simp add: currents_def)
    with True live_reset_none [OF this] key_none [OF this] show ?thesis by (simp add: item_key_def)
  next
    case False
    with Cons show ?thesis by (simp add: currents_def item_key_def)
  qed
qed simp

lemma currents_key: "currents items = length (filter snd (map item_key items))"
  by (induction items) (simp_all add: currents_def item_key_def)

text \<open>The result of an update: no current item, or exactly the chosen one.\<close>

lemma updateCurrentHeader_key:
  assumes one: "currents (tc_items s) \<le> 1" and h: "tc_headers s \<noteq> []"
  defines "plain \<equiv> map (\<lambda>i. (ti_id i, False)) (tc_items s)"
  shows "map item_key (tc_items (updateCurrentHeader vp s)) =
    (case (case last_above (tc_threshold s) (vp_top vp) (length (tc_headers s)) of
             Some k \<Rightarrow> Some k | None \<Rightarrow> if vp_top vp 0 \<ge> vp_windowHeight vp then None else Some 0) of
       None \<Rightarrow> plain
     | Some k \<Rightarrow> (case find_index (\<lambda>i. ti_id i = tc_headers s ! k) (tc_items s) of
                    None \<Rightarrow> plain | Some j \<Rightarrow> plain[j := (ti_id (tc_items s ! j), True)]))"
proof -
  define items where "items = map (\<lambda>i. if ti_toggle i then i\<lparr>ti_expanded := False\<rparr> else i) (live_reset True (tc_items s))"
  have collapse: "item_key (if ti_toggle i then i\<lparr>ti_expanded := False\<rparr> else i) = item_key i" for i by (simp add: item_key_def)
  have key: "map item_key items = plain"
    unfolding plain_def live_reset_key [OF one, symmetric] by (simp add: items_def comp_def collapse)
  have len: "length items = length (tc_items s)" using arg_cong [OF key, of length] by (simp add: plain_def)
  have "map fst (map item_key items) = map fst plain" by (simp only: key)
  then have ids: "map ti_id items = map ti_id (tc_items s)" by (simp add: plain_def item_key_def comp_def)
  have find: "find_index (\<lambda>i. ti_id i = x) xs = find_index (\<lambda>y. y = x) (map ti_id xs)" for x and xs :: "toc_item list"
    by (induction xs) simp_all
  have found: "find_index (\<lambda>i. ti_id i = x) items = find_index (\<lambda>i. ti_id i = x) (tc_items s)" for x
    unfolding find ids ..
  have upd: "map item_key (update_item j (\<lambda>i. i\<lparr>ti_current := True\<rparr>) items) = plain[j := (ti_id (tc_items s ! j), True)]"
    if "j < length (tc_items s)" for j
  proof -
    have "ti_id (items ! j) = ti_id (tc_items s ! j)" using arg_cong [OF ids, of "\<lambda>xs. xs ! j"] that len by simp
    then have "item_key ((items ! j)\<lparr>ti_current := True\<rparr>) = (ti_id (tc_items s ! j), True)" by (simp add: item_key_def)
    then show ?thesis using that len key by (simp only: update_item_def if_True map_update)
  qed
  show ?thesis
    unfolding updateCurrentHeader_def Let_def items_def [symmetric] found using h
    by (auto simp: key updateHeaderExpanded_key upd dest!: find_index_Some split: option.splits)
qed

subsection \<open>At most one current header\<close>

definition toc_ok :: "toc_state \<Rightarrow> bool" where
  "toc_ok s \<longleftrightarrow> map ti_id (tc_items s) = tc_headers s \<and> currents (tc_items s) \<le> 1"

lemma map_ids_key: "map ti_id items = map fst (map item_key items)"
  by (simp add: item_key_def)

lemma filter_update_plain: "length (filter snd ((map (\<lambda>i. (f i, False)) xs)[j := (y, True)])) \<le> 1"
proof (induction xs arbitrary: j)
  case (Cons x xs)
  have "filter snd (map (\<lambda>i. (f i, False)) xs) = []" by (induction xs) simp_all
  with Cons show ?case by (cases j) simp_all
qed simp

lemma filter_plain: "filter snd (map (\<lambda>i. (f i, False)) xs) = []"
  by (induction xs) simp_all

lemma fst_update_plain: "map fst ((map (\<lambda>i. (f i, False)) xs)[j := (f (xs ! j), True)]) = map f xs"
proof (cases "j < length xs")
  case True
  then have "(map f xs)[j := f (xs ! j)] = map f xs" by (simp add: list_update_same_conv)
  then show ?thesis by (simp add: map_update comp_def)
qed (simp add: comp_def list_update_beyond)

lemma updateCurrentHeader_headers [simp]: "tc_headers (updateCurrentHeader vp s) = tc_headers s"
  by (simp add: updateCurrentHeader_def Let_def split: option.split)

lemma updateCurrentHeader_cases:
  assumes "currents (tc_items s) \<le> 1" and "tc_headers s \<noteq> []"
    and "P (map (\<lambda>i. (ti_id i, False)) (tc_items s))"
    and "\<And>j. P ((map (\<lambda>i. (ti_id i, False)) (tc_items s))[j := (ti_id (tc_items s ! j), True)])"
  shows "P (map item_key (tc_items (updateCurrentHeader vp s)))"
  unfolding updateCurrentHeader_key [OF assms(1,2)] using assms(3,4) by (simp split: option.split)

lemma updateCurrentHeader_ok:
  assumes "toc_ok s"
  shows "toc_ok (updateCurrentHeader vp s)"
proof (cases "tc_headers s = []")
  case True
  then show ?thesis using assms by (simp add: updateCurrentHeader_def)
next
  case False
  have one: "currents (tc_items s) \<le> 1" using assms by (simp add: toc_ok_def)
  have "map fst (map item_key (tc_items (updateCurrentHeader vp s))) = map ti_id (tc_items s)"
    by (rule updateCurrentHeader_cases [OF one False]) (simp add: comp_def, rule fst_update_plain)
  moreover have "length (filter snd (map item_key (tc_items (updateCurrentHeader vp s)))) \<le> 1"
    by (rule updateCurrentHeader_cases [OF one False]) (subst filter_plain, simp, rule filter_update_plain)
  ultimately show ?thesis using assms by (simp only: toc_ok_def currents_key map_ids_key updateCurrentHeader_headers)
qed

lemma updateThreshold_frame [simp]:
  "tc_headers (updateThreshold vp s) = tc_headers s" "tc_items (updateThreshold vp s) = tc_items s"
  "tc_disableScroll (updateThreshold vp s) = tc_disableScroll s" "tc_lastKnownScrollPosition (updateThreshold vp s) = vp_scrollTop vp"
  by (simp_all add: updateThreshold_def Let_def drawDebugLine_def)

lemma toc_ok_frame: "tc_headers s = tc_headers s' \<Longrightarrow> tc_items s = tc_items s' \<Longrightarrow> toc_ok s = toc_ok s'"
  by (simp add: toc_ok_def)

lemma updateThreshold_ok [simp]: "toc_ok (updateThreshold vp s) = toc_ok s"
  by (rule toc_ok_frame) simp_all

lemma reloadCurrentHeader_ok: "toc_ok s \<Longrightarrow> toc_ok (reloadCurrentHeader vp s)"
  by (simp add: reloadCurrentHeader_def updateCurrentHeader_ok)

lemma click_frame_ok: "toc_ok s \<Longrightarrow> toc_ok (click_frame vp f s)"
  by (auto simp: click_frame_def threshold_to_target_def toc_ok_frame [of "s\<lparr>tc_threshold := _\<rparr>" s] toc_ok_frame [of "s\<lparr>tc_frames := _\<rparr>" s]
      intro!: updateCurrentHeader_ok split: prod.split option.split)

lemma animation_frame_ok: "toc_ok s \<Longrightarrow> toc_ok (animation_frame vp s)"
proof -
  have "toc_ok s \<Longrightarrow> toc_ok (fold (click_frame vp) fs s)" for fs s by (induction fs arbitrary: s) (simp_all add: click_frame_ok)
  then show "toc_ok s \<Longrightarrow> toc_ok (animation_frame vp s)"
    by (simp add: animation_frame_def toc_ok_frame [of "s\<lparr>tc_frames := []\<rparr>" s])
qed

lemma header_toggle_click_ok: "toc_ok s \<Longrightarrow> toc_ok (header_toggle_click j s)"
  unfolding toc_ok_def header_toggle_click_def currents_key map_ids_key by (simp add: update_expanded_key del: map_map)

lemma quiet_steps_ok:
  "toc_ok s \<Longrightarrow> toc_ok (headerThresholdClick targetId s)" "toc_ok s \<Longrightarrow> toc_ok (enable_timer s)"
  "toc_ok s \<Longrightarrow> toc_ok (mdbookEnableThresholdDebug vp s)"
  by (simp_all add: headerThresholdClick_def enable_timer_def mdbookEnableThresholdDebug_def drawDebugLine_def toc_ok_def)

lemma toc_step_ok: "toc_ok s \<Longrightarrow> toc_ok (toc_step ev s)"
  by (cases ev) (simp_all add: reloadCurrentHeader_ok animation_frame_ok header_toggle_click_ok quiet_steps_ok)

lemma toc_steps_ok: "toc_ok s \<Longrightarrow> toc_ok (fold toc_step evs s)"
  by (induction evs arbitrary: s) (simp_all add: toc_step_ok)

lemma headers_fold [simp]: "tc_headers (fold toc_step evs s) = tc_headers s"
proof -
  have f: "tc_headers (fold (click_frame vp) fs s) = tc_headers s" for vp fs s
    by (induction fs arbitrary: s) (auto simp: click_frame_def threshold_to_target_def split: prod.split option.split)
  have "tc_headers (toc_step ev s) = tc_headers s" for ev s
    by (cases ev) (simp_all add: reloadCurrentHeader_def headerThresholdClick_def enable_timer_def animation_frame_def f
        header_toggle_click_def mdbookEnableThresholdDebug_def drawDebugLine_def)
  then show ?thesis by (induction evs arbitrary: s) simp_all
qed

text \<open>A loaded page.\<close>

definition headers_ok :: "header list \<Rightarrow> bool" where
  "headers_ok headers \<longleftrightarrow> headers \<noteq> [] \<and> (\<forall>h \<in> set headers. 2 \<le> h_level h \<and> h_level h \<le> 6)"

lemma number_currents:
  "currents (number_items parents k t) = 0" "currents (number_list parents k cs) = 0"
  by (induction parents k t and parents k cs rule: number_items_number_list.induct) (simp_all add: currents_def Let_def)

lemma content_loaded_ok:
  assumes "headers_ok headers"
  shows "toc_ok (content_loaded True headers toc_start)" and "tc_headers (content_loaded True headers toc_start) = map h_id headers"
proof -
  obtain t where t: "build_header_list headers = Some t" "outline 0 t = header_outline headers"
    using header_list_outline assms by (auto simp: headers_ok_def)
  have "currents (number_items [] 0 t) = 0" by (rule number_currents)
  then show "toc_ok (content_loaded True headers toc_start)"
    using t number_ids(1) [of "[]" 0 t 0] header_outline_ids [of headers] by (simp add: toc_ok_def content_loaded_def)
  show "tc_headers (content_loaded True headers toc_start) = map h_id headers"
    using t by (simp add: content_loaded_def)
qed

lemma toc_page_ok:
  assumes "headers_ok headers"
  shows "toc_ok (toc_page headers vp)" and "tc_headers (toc_page headers vp) = map h_id headers"
  using content_loaded_ok [OF assms] reloadCurrentHeader_ok
  by (simp_all add: toc_page_def reloadCurrentHeader_def updateCurrentHeader_ok)

subsection \<open>The header that an update chooses\<close>

lemma last_above_Suc:
  assumes "k < n" and "\<forall>i \<le> k. pos i \<le> t" and "k + 1 < n \<longrightarrow> t < pos (k + 1)"
  shows "last_above t pos n = Some k"
proof -
  have split: "[0..<n] = [0..<Suc k] @ [Suc k..<n]" using assms(1) by (metis Suc_leI le0 upt_add_eq_append le_Suc_ex)
  have "takeWhile (\<lambda>i. pos i \<le> t) [Suc k..<n] = []"
    using assms(1,3) by (cases "Suc k < n") (simp_all add: upt_conv_Cons not_le)
  then have "takeWhile (\<lambda>i. pos i \<le> t) [0..<n] = [0..<Suc k]"
    unfolding split using assms(2) by (subst takeWhile_append2) auto
  moreover have "(case xs of [] \<Rightarrow> None | is \<Rightarrow> Some (last is)) = Some (last xs)" if "xs \<noteq> []" for xs :: "nat list"
    using that by (cases xs) simp_all
  ultimately show ?thesis by (simp add: last_above_def)
qed

lemma filter_marked: "k < length xs \<Longrightarrow> filter snd ((map (\<lambda>i. (f i, False)) xs)[k := (y, True)]) = [(y, True)]"
proof (induction xs arbitrary: k)
  case (Cons x xs)
  then show ?case by (cases k) (simp_all add: filter_plain)
qed simp

definition current_ids :: "toc_state \<Rightarrow> string list" where
  "current_ids s = map ti_id (filter ti_current (tc_items s))"

lemma current_ids_key: "current_ids s = map fst (filter snd (map item_key (tc_items s)))"
  by (simp add: current_ids_def item_key_def filter_map comp_def)

lemma updateCurrentHeader_chooses:
  assumes ok: "toc_ok s" and distinct: "distinct (tc_headers s)" and k: "k < length (tc_headers s)"
    and above: "last_above (tc_threshold s) (vp_top vp) (length (tc_headers s)) = Some k"
  shows "current_ids (updateCurrentHeader vp s) = [tc_headers s ! k]"
proof -
  have ids: "map ti_id (tc_items s) = tc_headers s" and one: "currents (tc_items s) \<le> 1" using ok by (simp_all add: toc_ok_def)
  have len: "k < length (tc_items s)" using k unfolding ids [symmetric] by simp
  have idk: "tc_headers s ! k = ti_id (tc_items s ! k)" unfolding ids [symmetric] using len by simp
  have found: "find_index (\<lambda>i. ti_id i = tc_headers s ! k) (tc_items s) = Some k"
    unfolding idk using distinct len by (intro find_index_distinct) (simp_all add: ids)
  have "tc_headers s \<noteq> []" using k by auto
  then have "map item_key (tc_items (updateCurrentHeader vp s)) =
      (map (\<lambda>i. (ti_id i, False)) (tc_items s))[k := (ti_id (tc_items s ! k), True)]"
    by (simp add: updateCurrentHeader_key [OF one] above found)
  then show ?thesis unfolding current_ids_key by (simp add: filter_marked [OF len] idk del: filter_map map_map)
qed

text \<open>At the bottom of a page that scrolls, the threshold is at or below the lower edge of the window.\<close>

lemma bottom_threshold:
  assumes "150 \<le> vp_windowHeight vp" and "vp_windowHeight vp < vp_documentHeight vp"
    and "vp_documentHeight vp \<le> vp_scrollTop vp + vp_windowHeight vp"
    and "tc_lastKnownScrollPosition s \<le> vp_scrollTop vp"
  shows "vp_windowHeight vp \<le> tc_threshold (updateThreshold vp s)"
proof -
  have below: "max 0 (vp_documentHeight vp - (vp_scrollTop vp + vp_windowHeight vp)) = 0" using assms(3) by simp
  have "adjusted_bottom_add vp 0 (max 0 (vp_windowHeight vp - 0 - defaultDownThreshold)) = vp_windowHeight vp - 150"
    using assms(1) by (simp add: adjusted_bottom_add_def defaultDownThreshold_def)
  then show ?thesis using assms
    by (simp add: updateThreshold_def Let_def below drawDebugLine_def defaultDownThreshold_def not_less not_le)
qed

text \<open>With a fixed window height, scrolling keeps the threshold between 150 pixels and the larger of 300 pixels and that height.\<close>

lemma adjusted_bounds:
  assumes "0 \<le> a"
  shows "0 \<le> adjusted_bottom_add vp p a" and "adjusted_bottom_add vp p a \<le> a"
proof -
  have "0 \<le> max 0 (min 1 t)" "max 0 (min 1 t) \<le> 1" for t :: rat by simp_all
  then show "0 \<le> adjusted_bottom_add vp p a" "adjusted_bottom_add vp p a \<le> a"
    using assms by (simp_all add: adjusted_bottom_add_def Let_def mult_left_le)
qed

definition threshold_in :: "rat \<Rightarrow> toc_state \<Rightarrow> bool" where
  "threshold_in h s \<longleftrightarrow> 150 \<le> tc_threshold s \<and> tc_threshold s \<le> max 300 h"

definition scrollable :: "rat \<Rightarrow> viewport \<Rightarrow> bool" where
  "scrollable h vp \<longleftrightarrow> vp_windowHeight vp = h \<and> h < vp_documentHeight vp \<and> 0 \<le> vp_scrollTop vp"

lemma updateThreshold_in:
  assumes "threshold_in h s" and "scrollable h vp"
  shows "threshold_in h (updateThreshold vp s)"
proof -
  define p where "p = max 0 (vp_documentHeight vp - (vp_scrollTop vp + vp_windowHeight vp))"
  define a where "a = adjusted_bottom_add vp p (max 0 (vp_windowHeight vp - p - 150))"
  have a: "0 \<le> a" "a \<le> max 0 (h - 150)"
  proof -
    show "0 \<le> a" unfolding a_def by (rule adjusted_bounds) simp
    have "a \<le> max 0 (vp_windowHeight vp - p - 150)" unfolding a_def by (rule adjusted_bounds) simp
    also have "\<dots> \<le> max 0 (h - 150)" using assms(2) by (auto simp: scrollable_def p_def)
    finally show "a \<le> max 0 (h - 150)" .
  qed
  have thr: "tc_threshold (updateThreshold vp s) =
      (if vp_scrollTop vp < tc_lastKnownScrollPosition s
       then min (300 - max 0 (150 - vp_scrollTop vp) + max 0 (a - 150)) (tc_threshold s + (tc_lastKnownScrollPosition s - vp_scrollTop vp))
       else max (150 + a) (tc_threshold s - (vp_scrollTop vp - tc_lastKnownScrollPosition s)))"
    using assms(2) unfolding updateThreshold_def Let_def defaultDownThreshold_def defaultUpThreshold_def p_def [symmetric] a_def [symmetric]
    by (simp add: scrollable_def drawDebugLine_def)
  show ?thesis unfolding threshold_in_def thr
    using a assms unfolding threshold_in_def scrollable_def by (auto simp: min_def max_def split: if_splits)
qed

text \<open>While a clicked header is being scrolled to, scroll events change nothing.\<close>

lemma scrolls_disabled: "tc_disableScroll s \<Longrightarrow> fold toc_step (map Scrolled vps) s = s"
  by (induction vps) (simp_all add: reloadCurrentHeader_def)

lemma scrolls_in:
  assumes "list_all (scrollable h) vps" and "threshold_in h s"
  shows "threshold_in h (fold toc_step (map Scrolled vps) s)"
  using assms
proof (induction vps arbitrary: s)
  case (Cons vp vps)
  have "tc_threshold (updateCurrentHeader vp s') = tc_threshold s'" for s' by (simp add: updateCurrentHeader_def Let_def split: option.split)
  then have "threshold_in h (reloadCurrentHeader vp s)"
    using Cons.prems updateThreshold_in [of h s vp] by (simp add: reloadCurrentHeader_def threshold_in_def)
  with Cons show ?case by simp
qed simp

subsection \<open>The open chapter and its place\<close>

lemma connect_link_snd:
  "snd (connect_link resolve base page l (expanded, out)) = out @ snd (connect_link resolve base page l ({}, []))"
  by (cases l) (simp add: connect_link_def Let_def)

lemma connect_links_fold:
  "snd (fold (connect_link resolve base page) ls (expanded, out)) = out @ concat (map (\<lambda>l. snd (connect_link resolve base page l ({}, []))) ls)"
proof (induction ls arbitrary: expanded out)
  case (Cons l ls)
  obtain e out' where e: "connect_link resolve base page l (expanded, out) = (e, out')" by fastforce
  then have "out' = out @ snd (connect_link resolve base page l ({}, []))" using connect_link_snd [of resolve base page l expanded out] by simp
  then show ?case by (simp add: Cons.IH e)
qed simp

text \<open>A page deeper than the root of the book marks exactly the chapters whose resolved address is its own.\<close>

theorem open_chapter_marked:
  assumes "base \<noteq> []" and "\<forall>l \<in> set links. \<not> ck_active l \<and> (\<exists>h. ck_href l = Some h \<and> h \<noteq> [] \<and> \<not> prefix ''#'' h \<and> \<not> is_absolute h)"
  shows "map ck_active (snd (connect_links resolve base location expanded links)) =
         map (\<lambda>l. resolve (base @ the (ck_href l)) = current_page location) links"
proof -
  define ls where "ls = enumerate 0 links"
  have links: "links = map snd ls" by (simp add: ls_def)
  have "map ck_active (concat (map (\<lambda>l. snd (connect_link resolve base page l ({}, []))) ls)) =
        map (\<lambda>l. resolve (base @ the (ck_href l)) = page) (map snd ls)" for page
    using assms(2) unfolding links
  proof (induction ls)
    case (Cons l ls)
    obtain h where "ck_href (snd l) = Some h" "h \<noteq> []" "\<not> prefix ''#'' h" "\<not> is_absolute h" "\<not> ck_active (snd l)" using Cons.prems by auto
    then have "map ck_active (snd (connect_link resolve base page l ({}, []))) = [resolve (base @ h) = page]"
      using assms(1) by (cases l) (simp add: connect_link_def Let_def)
    with Cons \<open>ck_href (snd l) = Some h\<close> show ?case by simp
  qed simp
  then show ?thesis by (simp add: connect_links_def connect_links_fold ls_def [symmetric]) (simp add: links)
qed

text \<open>A chapter opened by a click on its link lies, on the new page, at the height where it was clicked.\<close>

theorem clicked_chapter_keeps_its_place:
  "restore_scroll (sidebar_click True link_top sidebar_top stored) (Some offset) centred y = (y', left) \<Longrightarrow>
     offset - (y' - y) = link_top - sidebar_top \<and> left = None"
  by (auto simp: restore_scroll_def sidebar_click_def)

subsection \<open>Properties\<close>

definition sample_headers :: "header list" where
  "sample_headers =
     [\<lparr>h_id = ''a'', h_level = 2, h_text = []\<rparr>, \<lparr>h_id = ''b'', h_level = 3, h_text = []\<rparr>,
      \<lparr>h_id = ''c'', h_level = 2, h_text = []\<rparr>]"

definition sample_view :: "rat \<Rightarrow> viewport" where
  "sample_view y = \<lparr>vp_scrollTop = y, vp_windowHeight = 600, vp_documentHeight = 1000,
     vp_top = (\<lambda>i. (if i = 0 then 100 else if i = 1 then 400 else 900) - y),
     vp_bottom = (\<lambda>x. if x = ''b'' then Some (430 - y) else None)\<rparr>"

text \<open>C31: at every moment of a page, whatever the order of scrolling, clicks, timers and animation frames, the sidebar
  has an item for each header of the page, in their order, and at most one of them is marked as the current header.\<close>

theorem at_most_one_current_header:
  fixes evs vp
  assumes "headers_ok headers"
  defines "s \<equiv> fold toc_step evs (toc_page headers vp)"
  shows "map ti_id (tc_items s) = map h_id headers \<and> length (current_ids s) \<le> 1"
  using toc_steps_ok [OF toc_page_ok(1) [OF assms(1)], of evs vp] toc_page_ok(2) [OF assms(1), of vp]
  by (simp add: toc_ok_def s_def current_ids_def currents_def)

theorem at_most_one_current_header_witness:
  "headers_ok sample_headers \<and>
   length (current_ids (fold toc_step [Scrolled (sample_view 300), HeaderClicked ''b'', AnimationFrame (sample_view 300)] (toc_page sample_headers (sample_view 0)))) \<le> 1"
proof -
  have h: "headers_ok sample_headers" by (simp add: headers_ok_def sample_headers_def)
  show ?thesis using at_most_one_current_header [OF h] h by blast
qed

text \<open>Whatever happened before, scrolling a page down to its end marks its last header, and no other, when the window
  is at least 150 pixels high and the document does not fit in it.\<close>

theorem end_of_page_marks_last_header:
  fixes evs vp0
  assumes headers: "headers_ok headers" "distinct (map h_id headers)"
  defines "s \<equiv> fold toc_step evs (toc_page headers vp0)"
  assumes enabled: "\<not> tc_disableScroll s" and down: "tc_lastKnownScrollPosition s \<le> vp_scrollTop vp"
    and window: "150 \<le> vp_windowHeight vp" "vp_windowHeight vp < vp_documentHeight vp"
    and bottom: "vp_documentHeight vp \<le> vp_scrollTop vp + vp_windowHeight vp"
    and shown: "\<forall>i < length headers. vp_top vp i \<le> vp_windowHeight vp"
  shows "current_ids (toc_step (Scrolled vp) s) = [h_id (last headers)]"
proof -
  have ok: "toc_ok s" and hs: "tc_headers s = map h_id headers"
    using toc_steps_ok [OF toc_page_ok(1) [OF headers(1)]] toc_page_ok(2) [OF headers(1)] by (simp_all add: s_def)
  have ne: "headers \<noteq> []" using headers(1) by (simp add: headers_ok_def)
  define k where "k = length headers - 1"
  have k: "k < length headers" "headers ! k = last headers" using ne by (simp_all add: k_def last_conv_nth)
  have "\<forall>i \<le> k. vp_top vp i \<le> tc_threshold (updateThreshold vp s)"
    using shown k(1) bottom_threshold [OF window bottom down] by (meson le_less_trans order_trans)
  then have "last_above (tc_threshold (updateThreshold vp s)) (vp_top vp) (length headers) = Some k"
    using k(1) by (intro last_above_Suc) (assumption+, simp add: k_def, arith?)
  then have "current_ids (updateCurrentHeader vp (updateThreshold vp s)) = [map h_id headers ! k]"
    using ok headers(2) k(1) hs updateCurrentHeader_chooses [of "updateThreshold vp s" k vp] by simp
  then show ?thesis using enabled k by (simp add: reloadCurrentHeader_def)
qed

theorem end_of_page_marks_last_header_witness:
  "\<not> tc_disableScroll (fold toc_step [] (toc_page sample_headers (sample_view 0))) \<and>
   current_ids (toc_step (Scrolled (sample_view 400)) (fold toc_step [] (toc_page sample_headers (sample_view 0)))) = [''c'']"
proof -
  have h: "headers_ok sample_headers" "distinct (map h_id sample_headers)" by (simp_all add: headers_ok_def sample_headers_def)
  have s: "\<not> tc_disableScroll (fold toc_step [] (toc_page sample_headers (sample_view 0)))"
    "tc_lastKnownScrollPosition (fold toc_step [] (toc_page sample_headers (sample_view 0))) \<le> vp_scrollTop (sample_view 400)"
    by code_simp+
  have "\<forall>i < length sample_headers. vp_top (sample_view 400) i \<le> vp_windowHeight (sample_view 400)"
    by (simp add: sample_view_def)
  from end_of_page_marks_last_header [OF h s _ _ _ this] s(1) show ?thesis
    by (simp add: sample_view_def sample_headers_def)
qed



text \<open>While a page of a fixed window height is scrolled, the threshold stays at least 150 pixels below the top of the
  window and never lies below both 300 pixels and the lower edge of the window.\<close>

theorem threshold_stays_in_window:
  assumes "list_all (scrollable h) vps" and "tc_threshold s = defaultDownThreshold"
  shows "150 \<le> tc_threshold (fold toc_step (map Scrolled vps) s) \<and> tc_threshold (fold toc_step (map Scrolled vps) s) \<le> max 300 h"
  using scrolls_in [of h vps s] assms by (simp add: threshold_in_def defaultDownThreshold_def)

theorem threshold_stays_in_window_witness:
  "list_all (scrollable 600) [sample_view 0, sample_view 400, sample_view 100] \<and>
   150 \<le> tc_threshold (fold toc_step (map Scrolled [sample_view 0, sample_view 400, sample_view 100]) toc_start)"
proof -
  have a: "list_all (scrollable 600) [sample_view 0, sample_view 400, sample_view 100]" by (simp add: scrollable_def sample_view_def)
  have b: "tc_threshold toc_start = defaultDownThreshold" by (simp add: toc_start_def)
  show ?thesis using a threshold_stays_in_window [OF a b] by simp
qed

end
