(* ===== verification/Book_Theme.thy ===== *)
theory Book_Theme
  imports Page_Dom
begin

section \<open>Themes of the book (\<open>book.js\<close>) and the theme of its diagrams (\<open>mermaid-init.js\<close>)\<close>

text \<open>
  The theme menu of a page: the classes of the root element, the three highlighting stylesheets, the buttons of the menu, the
  stored choice, and the handlers that change them. The preference of the system for dark colours arrives with events. A page
  load runs the script in the head of the page first. A theme name that is not an identifier makes a selector of its own kind, whose
  result is a parameter. The last part is the script that starts the diagrams and reloads the page when the
  theme changes between light and dark.
\<close>

subsection \<open>State\<close>

definition theme_prefix :: string where "theme_prefix = ''mdbook-theme-''"

definition default_entry :: string where "default_entry = ''default_theme''"

definition theme_class :: string where "theme_class = ''theme''"

definition selected_class :: string where "selected_class = ''theme-selected''"

record theme_button =
  tb_id :: string
  tb_class :: "string list"

record sheets =
  ayuHighlight_disabled :: bool
  tomorrowNight_disabled :: bool
  highlight_disabled :: bool

datatype theme_focus = OnToggle | OnTheme nat | Elsewhere

record theme_env =
  te_default_theme :: string
  te_default_dark_theme :: "string option"
  te_default_light_theme :: string
  te_select :: "string \<Rightarrow> js_error + nat option"

record theme_page =
  tp_html :: "string list"
  tp_sheets :: sheets
  tp_buttons :: "theme_button list"
  tp_previousTheme :: string
  tp_storage :: storage
  tp_dark :: bool
  tp_display :: string
  tp_expanded :: bool
  tp_focus :: theme_focus
  tp_color_timers :: nat
  tp_color :: string
  tp_editors :: "string list option"

subsection \<open>The operations\<close>

definition themeIds :: "theme_page \<Rightarrow> string list" where
  "themeIds s = map tb_id (filter (\<lambda>b. theme_class \<in> set (tb_class b)) (tp_buttons s))"

definition get_saved_theme :: "theme_page \<Rightarrow> string option" where
  "get_saved_theme s = try_get theme_key (tp_storage s)"

definition delete_saved_theme :: "theme_page \<Rightarrow> js_error + theme_page" where
  "delete_saved_theme s = js_bind (removeItem theme_key (tp_storage s)) (\<lambda>st. Inr (s\<lparr>tp_storage := st\<rparr>))"

definition fallback_theme :: "theme_env \<Rightarrow> theme_page \<Rightarrow> string" where
  "fallback_theme env s =
     (case te_default_dark_theme env of
        None \<Rightarrow> te_default_theme env
      | Some dark \<Rightarrow> if tp_dark s then dark else te_default_light_theme env)"

definition get_theme :: "theme_env \<Rightarrow> theme_page \<Rightarrow> string" where
  "get_theme env s =
     (case get_saved_theme s of
        None \<Rightarrow> fallback_theme env s
      | Some theme \<Rightarrow> if theme_prefix @ theme \<notin> set (themeIds s) then fallback_theme env s else theme)"

definition ident_char :: "char \<Rightarrow> bool" where
  "ident_char c \<longleftrightarrow> (let n = (of_char c :: nat) in 48 \<le> n \<and> n \<le> 57 \<or> 65 \<le> n \<and> n \<le> 90 \<or> 97 \<le> n \<and> n \<le> 122 \<or> n = 45 \<or> n = 95)"

definition query_button :: "theme_env \<Rightarrow> string \<Rightarrow> theme_page \<Rightarrow> js_error + nat option" where
  "query_button env name s =
     (if list_all ident_char name then Inr (find_index (\<lambda>i. i = theme_prefix @ name) (map tb_id (tp_buttons s))) else te_select env name)"

definition select_button :: "nat \<Rightarrow> theme_button list \<Rightarrow> theme_button list" where
  "select_button j bs = bs[j := (bs ! j)\<lparr>tb_class := class_add selected_class (tb_class (bs ! j))\<rparr>]"

definition updateThemeSelected :: "theme_env \<Rightarrow> theme_page \<Rightarrow> js_error option \<times> theme_page" where
  "updateThemeSelected env s =
     (let s1 = s\<lparr>tp_buttons := map (\<lambda>b. b\<lparr>tb_class := class_remove selected_class (tb_class b)\<rparr>) (tp_buttons s)\<rparr>;
          selected = (case get_saved_theme s1 of None \<Rightarrow> default_entry | Some theme \<Rightarrow> theme);
          element = js_bind (query_button env selected s1) (\<lambda>r. if r = None then query_button env (get_theme env s1) s1 else Inr r)
      in case element of
           Inl e \<Rightarrow> (Some e, s1)
         | Inr None \<Rightarrow> (Some null_TypeError, s1)
         | Inr (Some j) \<Rightarrow> (None, s1\<lparr>tp_buttons := select_button j (tp_buttons s1)\<rparr>))"

definition showThemes :: "theme_env \<Rightarrow> theme_page \<Rightarrow> js_error option \<times> theme_page" where
  "showThemes env s =
     (let s1 = s\<lparr>tp_display := ''block'', tp_expanded := True\<rparr>
      in case query_button env (get_theme env s1) s1 of
           Inl e \<Rightarrow> (Some e, s1)
         | Inr None \<Rightarrow> (Some null_TypeError, s1)
         | Inr (Some j) \<Rightarrow> (None, s1\<lparr>tp_focus := OnTheme j\<rparr>))"

definition hideThemes :: "theme_page \<Rightarrow> theme_page" where
  "hideThemes s = s\<lparr>tp_display := ''none'', tp_expanded := False, tp_focus := OnToggle\<rparr>"

definition theme_sheets :: "string \<Rightarrow> sheets \<times> string" where
  "theme_sheets theme =
     (if theme = ''coal'' \<or> theme = ''navy''
      then (\<lparr>ayuHighlight_disabled = True, tomorrowNight_disabled = False, highlight_disabled = True\<rparr>, ''ace/theme/tomorrow_night'')
      else if theme = ''ayu''
      then (\<lparr>ayuHighlight_disabled = False, tomorrowNight_disabled = True, highlight_disabled = True\<rparr>, ''ace/theme/tomorrow_night'')
      else (\<lparr>ayuHighlight_disabled = True, tomorrowNight_disabled = True, highlight_disabled = False\<rparr>, ''ace/theme/dawn''))"

definition set_theme :: "theme_env \<Rightarrow> string \<Rightarrow> bool \<Rightarrow> theme_page \<Rightarrow> js_error option \<times> theme_page" where
  "set_theme env theme store s =
     (let (sheets, ace_theme) = theme_sheets theme;
          s1 = s\<lparr>tp_sheets := sheets, tp_color_timers := tp_color_timers s + 1,
                 tp_editors := map_option (map (\<lambda>_. ace_theme)) (tp_editors s)\<rparr>;
          s2 = (if store then s1\<lparr>tp_storage := try_set theme_key theme (tp_storage s1)\<rparr> else s1);
          s3 = s2\<lparr>tp_html := class_add theme (class_remove (tp_previousTheme s2) (tp_html s2)), tp_previousTheme := theme\<rparr>
      in updateThemeSelected env s3)"

definition color_timer :: "string \<Rightarrow> theme_page \<Rightarrow> theme_page" where
  "color_timer backgroundColor s =
     (if tp_color_timers s = 0 then s else s\<lparr>tp_color_timers := tp_color_timers s - 1, tp_color := backgroundColor\<rparr>)"

subsection \<open>The handlers\<close>

definition query_onchange :: "theme_env \<Rightarrow> bool \<Rightarrow> theme_page \<Rightarrow> js_error option \<times> theme_page" where
  "query_onchange env dark s = (let s1 = s\<lparr>tp_dark := dark\<rparr> in set_theme env (get_theme env s1) False s1)"

definition theme_toggle_click :: "theme_env \<Rightarrow> theme_page \<Rightarrow> js_error option \<times> theme_page" where
  "theme_toggle_click env s = (if tp_display s = ''block'' then (None, hideThemes s) else showThemes env s)"

text \<open>A click in the menu lands on a button, on an element inside a button, or beside the buttons (the list and its items
  carry other classes).\<close>

datatype menu_target = OnButton nat | InButton nat | Beside

definition clicked_button :: "menu_target \<Rightarrow> theme_page \<Rightarrow> nat option" where
  "clicked_button target s =
     (case target of
        OnButton j \<Rightarrow> if j < length (tp_buttons s) \<and> class_attr (tb_class (tp_buttons s ! j)) = theme_class then Some j else None
      | InButton j \<Rightarrow> if j < length (tp_buttons s) \<and> class_attr (tb_class (tp_buttons s ! j)) = theme_class then Some j else None
      | Beside \<Rightarrow> None)"

definition strip_prefix :: "string \<Rightarrow> string" where
  "strip_prefix i = (if prefix theme_prefix i then drop (length theme_prefix) i else i)"

definition theme_menu_click :: "theme_env \<Rightarrow> menu_target \<Rightarrow> theme_page \<Rightarrow> js_error option \<times> theme_page" where
  "theme_menu_click env target s =
     (case clicked_button target s of
        None \<Rightarrow> (None, s)
      | Some j \<Rightarrow>
          let theme = strip_prefix (tb_id (tp_buttons s ! j))
          in if theme = default_entry
             then (case delete_saved_theme s of
                     Inl e \<Rightarrow> (Some e, s)
                   | Inr s1 \<Rightarrow> set_theme env (get_theme env s1) False s1)
             else set_theme env theme True s)"

datatype place = InToggle | InMenu | Outside

definition theme_focusout :: "place option \<Rightarrow> theme_page \<Rightarrow> theme_page" where
  "theme_focusout relatedTarget s = (if relatedTarget = Some Outside then hideThemes s else s)"

definition theme_document_click :: "place \<Rightarrow> theme_page \<Rightarrow> theme_page" where
  "theme_document_click target s = (if tp_display s = ''block'' \<and> target = Outside then hideThemes s else s)"

text \<open>Keys go to the focused element; each button has a list item of its own.\<close>

definition theme_keydown :: "bool \<Rightarrow> string \<Rightarrow> theme_page \<Rightarrow> bool \<times> theme_page" where
  "theme_keydown modifier key s =
     (if modifier then (False, s)
      else case tp_focus s of
        OnTheme i \<Rightarrow>
          if key = ''Escape'' then (True, hideThemes s)
          else if key = ''ArrowUp'' then (True, if 0 < i then s\<lparr>tp_focus := OnTheme (i - 1)\<rparr> else s)
          else if key = ''ArrowDown'' then (True, if i + 1 < length (tp_buttons s) then s\<lparr>tp_focus := OnTheme (i + 1)\<rparr> else s)
          else if key = ''Home'' then (True, s\<lparr>tp_focus := OnTheme 0\<rparr>)
          else if key = ''End'' then (True, s\<lparr>tp_focus := OnTheme (length (tp_buttons s) - 1)\<rparr>)
          else (False, s)
      | _ \<Rightarrow> (False, s))"

datatype theme_event =
    DarkChanged bool | ThemeToggle | MenuClick menu_target | FocusOut "place option" | DocumentClick place
  | KeyDown bool string | ColorTimer string

fun theme_step :: "theme_env \<Rightarrow> theme_event \<Rightarrow> theme_page \<Rightarrow> js_error option \<times> theme_page" where
  "theme_step env (DarkChanged dark) s = query_onchange env dark s"
| "theme_step env ThemeToggle s = theme_toggle_click env s"
| "theme_step env (MenuClick target) s = theme_menu_click env target s"
| "theme_step env (FocusOut related) s = (None, theme_focusout related s)"
| "theme_step env (DocumentClick target) s = (None, theme_document_click target s)"
| "theme_step env (KeyDown modifier key) s = (None, snd (theme_keydown modifier key s))"
| "theme_step env (ColorTimer color) s = (None, color_timer color s)"

text \<open>The exceptions that handlers leave uncaught, and the page after a sequence of events.\<close>

fun theme_run :: "theme_env \<Rightarrow> theme_event list \<Rightarrow> theme_page \<Rightarrow> js_error list \<times> theme_page" where
  "theme_run env [] s = ([], s)"
| "theme_run env (ev # evs) s =
     (case theme_step env ev s of (err, s1) \<Rightarrow>
        case theme_run env evs s1 of (errs, s2) \<Rightarrow> (case err of None \<Rightarrow> errs | Some e \<Rightarrow> e # errs, s2))"

subsection \<open>Loading a page\<close>

record theme_markup =
  mk_html :: "string list"
  mk_buttons :: "string list"
  mk_light :: string
  mk_dark :: string

definition head_env :: "theme_markup \<Rightarrow> (string \<Rightarrow> js_error + nat option) \<Rightarrow> bool \<Rightarrow> theme_env" where
  "head_env mk sel dark =
     \<lparr>te_default_theme = (if dark then mk_dark mk else mk_light mk), te_default_dark_theme = Some (mk_dark mk),
      te_default_light_theme = mk_light mk, te_select = sel\<rparr>"

definition head_classes :: "theme_env \<Rightarrow> storage \<Rightarrow> string list \<Rightarrow> string list" where
  "head_classes env st classes =
     (let theme = (case try_get theme_key st of None \<Rightarrow> te_default_theme env | Some theme \<Rightarrow> theme)
      in class_add ''js'' (class_add theme (class_remove ''light'' classes)))"

definition themes :: "theme_markup \<Rightarrow> theme_env \<Rightarrow> storage \<Rightarrow> bool \<Rightarrow> string list option \<Rightarrow> js_error option \<times> theme_page" where
  "themes mk env st dark editors =
     (let s = \<lparr>tp_html = head_classes env st (mk_html mk),
               tp_sheets = \<lparr>ayuHighlight_disabled = False, tomorrowNight_disabled = False, highlight_disabled = False\<rparr>,
               tp_buttons = map (\<lambda>i. \<lparr>tb_id = i, tb_class = [theme_class]\<rparr>) (mk_buttons mk),
               tp_previousTheme = te_default_theme env, tp_storage = st, tp_dark = dark, tp_display = [], tp_expanded = False,
               tp_focus = Elsewhere, tp_color_timers = 0, tp_color = [], tp_editors = editors\<rparr>
      in set_theme env (get_theme env s) False s)"

text \<open>The menu and the root element of the published pages.\<close>

definition book_markup :: theme_markup where
  "book_markup =
     \<lparr>mk_html = [''light'', ''sidebar-visible''],
      mk_buttons = [''mdbook-theme-default_theme'', ''mdbook-theme-light'', ''mdbook-theme-rust'', ''mdbook-theme-coal'',
                    ''mdbook-theme-navy'', ''mdbook-theme-ayu''],
      mk_light = ''light'', mk_dark = ''navy''\<rparr>"

subsection \<open>The diagrams\<close>

definition darkThemes :: "string list" where "darkThemes = [''ayu'', ''navy'', ''coal'']"

definition lightThemes :: "string list" where "lightThemes = [''light'', ''rust'']"

record mermaid =
  mm_lastThemeWasLight :: bool
  mm_theme :: string
  mm_listeners :: "(string \<times> bool) list"

fun mermaid_listen :: "string list \<Rightarrow> (string \<times> bool) list \<Rightarrow> mermaid \<Rightarrow> js_error option \<times> mermaid" where
  "mermaid_listen ids [] m = (None, m)"
| "mermaid_listen ids ((theme, dark) # ts) m =
     (if theme \<in> set ids then mermaid_listen ids ts (m\<lparr>mm_listeners := mm_listeners m @ [(theme, dark)]\<rparr>)
      else (Some null_TypeError, m))"

definition mermaid_init :: "string list \<Rightarrow> string list \<Rightarrow> js_error option \<times> mermaid" where
  "mermaid_init ids classList =
     (let lastThemeWasLight = \<not> list_ex (\<lambda>c. c \<in> set darkThemes) classList
      in mermaid_listen ids (map (\<lambda>t. (t, True)) darkThemes @ map (\<lambda>t. (t, False)) lightThemes)
           \<lparr>mm_lastThemeWasLight = lastThemeWasLight, mm_theme = (if lastThemeWasLight then ''default'' else ''dark''), mm_listeners = []\<rparr>)"

definition mermaid_reloads :: "string \<Rightarrow> mermaid \<Rightarrow> bool" where
  "mermaid_reloads i m \<longleftrightarrow> list_ex (\<lambda>(j, dark). j = i \<and> (if dark then mm_lastThemeWasLight m else \<not> mm_lastThemeWasLight m)) (mm_listeners m)"

subsection \<open>Menus in good order\<close>

text \<open>A menu whose buttons are named by the prefix and distinct identifiers, among them the default entry and the two default
  themes; the root element carries no other theme than the light one.\<close>

definition theme_names :: "theme_markup \<Rightarrow> string list" where
  "theme_names mk = map (drop (length theme_prefix)) (mk_buttons mk)"

definition real_themes :: "theme_markup \<Rightarrow> string list" where
  "real_themes mk = filter (\<lambda>t. t \<noteq> default_entry) (theme_names mk)"

definition markup_ok :: "theme_markup \<Rightarrow> bool" where
  "markup_ok mk \<longleftrightarrow>
     list_all (prefix theme_prefix) (mk_buttons mk) \<and> distinct (theme_names mk) \<and> list_all (list_all ident_char) (theme_names mk) \<and>
     default_entry \<in> set (theme_names mk) \<and> mk_light mk \<in> set (real_themes mk) \<and> mk_dark mk \<in> set (real_themes mk) \<and>
     distinct (mk_html mk) \<and> ''js'' \<notin> set (theme_names mk) \<and> set (mk_html mk) \<inter> set (theme_names mk) \<subseteq> {''light''}"

definition saved_ok :: "theme_markup \<Rightarrow> storage \<Rightarrow> bool" where
  "saved_ok mk st \<longleftrightarrow> (case try_get theme_key st of None \<Rightarrow> True | Some theme \<Rightarrow> theme \<in> set (real_themes mk))"

lemma markup_buttons: "markup_ok mk \<Longrightarrow> mk_buttons mk = map ((@) theme_prefix) (theme_names mk)"
  by (auto simp: markup_ok_def theme_names_def list_all_iff prefix_def intro!: map_idI [symmetric])

lemma real_themes_names: "t \<in> set (real_themes mk) \<longleftrightarrow> t \<in> set (theme_names mk) \<and> t \<noteq> default_entry"
  by (simp add: real_themes_def)

lemma selected_not_theme [simp]: "selected_class \<noteq> theme_class" "theme_class \<noteq> selected_class"
  by (simp_all add: selected_class_def theme_class_def)

definition buttons_of :: "string list \<Rightarrow> string option \<Rightarrow> theme_button list" where
  "buttons_of names e =
     map (\<lambda>n. \<lparr>tb_id = theme_prefix @ n, tb_class = theme_class # (if e = Some n then [selected_class] else [])\<rparr>) names"

definition menu_entry :: "theme_page \<Rightarrow> string" where
  "menu_entry s = (case get_saved_theme s of None \<Rightarrow> default_entry | Some theme \<Rightarrow> theme)"

lemma buttons_ids [simp]: "map tb_id (buttons_of names e) = map ((@) theme_prefix) names" "length (buttons_of names e) = length names"
  by (simp_all add: buttons_of_def)

lemma buttons_deselected: "map (\<lambda>b. b\<lparr>tb_class := class_remove selected_class (tb_class b)\<rparr>) (buttons_of names e) = buttons_of names None"
  by (simp add: buttons_of_def class_remove_def)

lemma buttons_selected:
  assumes "distinct names" and "k < length names"
  shows "select_button k (buttons_of names None) = buttons_of names (Some (names ! k))"
  using assms by (intro nth_equalityI) (auto simp: select_button_def buttons_of_def class_add_def nth_list_update nth_eq_iff_index_eq)

lemma themeIds_of: "tp_buttons s = buttons_of names e \<Longrightarrow> themeIds s = map ((@) theme_prefix) names"
  by (simp add: themeIds_def buttons_of_def filter_map comp_def)

lemma query_listed:
  assumes "tp_buttons s = buttons_of names e" and "distinct names" and "list_all (list_all ident_char) names" and "k < length names"
  shows "query_button env (names ! k) s = Inr (Some k)"
proof -
  have ids: "map tb_id (tp_buttons s) = map ((@) theme_prefix) names" unfolding assms(1) by (rule buttons_ids)
  have "find_index (\<lambda>i. i = map ((@) theme_prefix) names ! k) (map ((@) theme_prefix) names) = Some k"
    using find_index_distinct [of "\<lambda>x. x" "map ((@) theme_prefix) names" k] assms(2,4) by (simp add: distinct_map inj_on_def del: nth_map)
  moreover have "list_all ident_char (names ! k)" using assms(3,4) by (auto simp: list_all_length)
  ultimately show ?thesis using assms(4) unfolding query_button_def ids by simp
qed

lemma saved_frame: "tp_storage s = tp_storage s' \<Longrightarrow> get_saved_theme s = get_saved_theme s'"
  by (simp add: get_saved_theme_def)

lemma menu_entry_frame: "tp_storage s = tp_storage s' \<Longrightarrow> menu_entry s = menu_entry s'"
  by (simp add: menu_entry_def get_saved_theme_def)

lemma fallback_frame: "tp_dark s = tp_dark s' \<Longrightarrow> fallback_theme env s = fallback_theme env s'"
  by (simp add: fallback_theme_def split: option.split)

lemma get_theme_frame:
  "tp_storage s = tp_storage s' \<Longrightarrow> tp_dark s = tp_dark s' \<Longrightarrow> tp_buttons s = tp_buttons s' \<Longrightarrow> get_theme env s = get_theme env s'"
  using saved_frame [of s s'] fallback_frame [of s s' env] by (simp add: get_theme_def themeIds_def split: option.split)

lemma get_theme_listed:
  assumes "markup_ok mk" and "saved_ok mk (tp_storage s)" and "tp_buttons s = buttons_of (theme_names mk) e"
  shows "get_theme env s = (case get_saved_theme s of None \<Rightarrow> fallback_theme env s | Some theme \<Rightarrow> theme)"
  using assms by (auto simp: get_theme_def themeIds_of [OF assms(3)] saved_ok_def get_saved_theme_def real_themes_names split: option.split)

lemma menu_entry_listed: "markup_ok mk \<Longrightarrow> saved_ok mk (tp_storage s) \<Longrightarrow> menu_entry s \<in> set (theme_names mk)"
  by (auto simp: menu_entry_def saved_ok_def get_saved_theme_def markup_ok_def real_themes_names split: option.split)

lemma updateThemeSelected_ok:
  assumes mk: "markup_ok mk" and saved: "saved_ok mk (tp_storage s)" and bs: "tp_buttons s = buttons_of (theme_names mk) e"
  shows "updateThemeSelected env s = (None, s\<lparr>tp_buttons := buttons_of (theme_names mk) (Some (menu_entry s))\<rparr>)"
proof -
  define s1 where "s1 = s\<lparr>tp_buttons := buttons_of (theme_names mk) None\<rparr>"
  have entry: "(case get_saved_theme s1 of None \<Rightarrow> default_entry | Some theme \<Rightarrow> theme) = menu_entry s"
    by (simp add: s1_def menu_entry_def get_saved_theme_def)
  obtain k where k: "k < length (theme_names mk)" "theme_names mk ! k = menu_entry s"
    using menu_entry_listed [OF mk saved] by (auto simp: in_set_conv_nth)
  have names: "distinct (theme_names mk)" "list_all (list_all ident_char) (theme_names mk)" using mk by (simp_all add: markup_ok_def)
  have "query_button env (menu_entry s) s1 = Inr (Some k)"
    using query_listed [of s1 "theme_names mk" None k env] names k by (simp add: s1_def)
  then show ?thesis
    unfolding updateThemeSelected_def Let_def bs buttons_deselected s1_def [symmetric] entry
    using buttons_selected [OF names(1) k(1)] k(2) by (simp add: s1_def)
qed

subsection \<open>The invariant\<close>

definition theme_inv :: "theme_markup \<Rightarrow> theme_env \<Rightarrow> theme_page \<Rightarrow> bool" where
  "theme_inv mk env s \<longleftrightarrow>
     saved_ok mk (tp_storage s) \<and> tp_buttons s = buttons_of (theme_names mk) (Some (menu_entry s)) \<and>
     distinct (tp_html s) \<and> set (tp_html s) \<inter> set (theme_names mk) = {tp_previousTheme s} \<and>
     tp_previousTheme s \<in> set (real_themes mk) \<and> tp_sheets s = fst (theme_sheets (tp_previousTheme s)) \<and>
     tp_expanded s = (tp_display s = ''block'') \<and>
     (case tp_storage s of Inl _ \<Rightarrow> True | Inr _ \<Rightarrow> tp_previousTheme s = get_theme env s)"

definition env_ok :: "theme_markup \<Rightarrow> theme_env \<Rightarrow> bool" where
  "env_ok mk env \<longleftrightarrow> te_default_dark_theme env = Some (mk_dark mk) \<and> te_default_light_theme env = mk_light mk"

lemma fallback_real: "markup_ok mk \<Longrightarrow> env_ok mk env \<Longrightarrow> fallback_theme env s \<in> set (real_themes mk)"
  by (simp add: fallback_theme_def env_ok_def markup_ok_def)

lemma get_theme_real:
  assumes "markup_ok mk" and "env_ok mk env" and "saved_ok mk (tp_storage s)" and "tp_buttons s = buttons_of (theme_names mk) e"
  shows "get_theme env s \<in> set (real_themes mk)"
  using assms(3) fallback_real [OF assms(1,2)]
  by (simp add: get_theme_listed [OF assms(1,3,4)] saved_ok_def get_saved_theme_def split: option.splits)

text \<open>What setting a theme establishes, from a page whose root element carries at most the previous theme or the theme itself.\<close>

lemma set_theme_inv:
  assumes mk: "markup_ok mk" and saved: "saved_ok mk (tp_storage s)" and bs: "tp_buttons s = buttons_of (theme_names mk) e"
    and html: "distinct (tp_html s)" "set (tp_html s) \<inter> set (theme_names mk) \<subseteq> {tp_previousTheme s, theme}"
    and theme: "theme \<in> set (real_themes mk)" and shown: "tp_expanded s = (tp_display s = ''block'')"
    and stored: "store \<or> (case tp_storage s of Inl _ \<Rightarrow> True | Inr _ \<Rightarrow> theme = get_theme env s)"
  shows "fst (set_theme env theme store s) = None" and "theme_inv mk env (snd (set_theme env theme store s))"
    and "tp_previousTheme (snd (set_theme env theme store s)) = theme"
    and "tp_storage (snd (set_theme env theme store s)) = (if store then try_set theme_key theme (tp_storage s) else tp_storage s)"
    and "tp_dark (snd (set_theme env theme store s)) = tp_dark s"
proof -
  define st where "st = (if store then try_set theme_key theme (tp_storage s) else tp_storage s)"
  define s3 where "s3 = s\<lparr>tp_sheets := fst (theme_sheets theme), tp_color_timers := tp_color_timers s + 1,
      tp_editors := map_option (map (\<lambda>_. snd (theme_sheets theme))) (tp_editors s), tp_storage := st,
      tp_html := class_add theme (class_remove (tp_previousTheme s) (tp_html s)), tp_previousTheme := theme\<rparr>"
  have st: "saved_ok mk st"
    using saved theme by (cases "tp_storage s") (simp_all add: st_def saved_ok_def)
  have "set_theme env theme store s = updateThemeSelected env s3"
    by (simp add: set_theme_def s3_def st_def Let_def case_prod_beta)
  also have "\<dots> = (None, s3\<lparr>tp_buttons := buttons_of (theme_names mk) (Some (menu_entry s3))\<rparr>)"
    by (rule updateThemeSelected_ok [OF mk]) (use st bs in \<open>simp_all add: s3_def\<close>)
  finally have result: "set_theme env theme store s = (None, s3\<lparr>tp_buttons := buttons_of (theme_names mk) (Some (menu_entry s3))\<rparr>)" .
  define s4 where "s4 = s3\<lparr>tp_buttons := buttons_of (theme_names mk) (Some (menu_entry s3))\<rparr>"
  have entry: "menu_entry s4 = menu_entry s3" by (simp add: menu_entry_def get_saved_theme_def s4_def)
  have names: "theme \<in> set (theme_names mk)" using theme by (simp add: real_themes_names)
  have get: "case tp_storage s4 of Inl _ \<Rightarrow> True | Inr _ \<Rightarrow> theme = get_theme env s4"
  proof (cases "tp_storage s")
    case (Inr m)
    have sv: "saved_ok mk (tp_storage s4)" using st by (simp add: s4_def s3_def)
    have g: "get_theme env s4 = (case get_saved_theme s4 of None \<Rightarrow> fallback_theme env s4 | Some theme \<Rightarrow> theme)"
      by (rule get_theme_listed [OF mk sv]) (simp add: s4_def)
    have "theme = get_theme env s4"
    proof (cases store)
      case True
      then show ?thesis using Inr by (simp add: g) (simp add: get_saved_theme_def s4_def s3_def st_def)
    next
      case False
      then have "theme = (case get_saved_theme s of None \<Rightarrow> fallback_theme env s | Some theme \<Rightarrow> theme)"
        using stored Inr get_theme_listed [OF mk saved bs] by simp
      moreover have "fallback_theme env s4 = fallback_theme env s" by (rule fallback_frame) (simp add: s4_def s3_def)
      moreover have "get_saved_theme s4 = get_saved_theme s" using False by (simp add: get_saved_theme_def s4_def s3_def st_def)
      ultimately show ?thesis by (simp only: g)
    qed
    then show ?thesis by (simp split: sum.split)
  qed (simp add: s4_def s3_def st_def)
  have f: "tp_storage s4 = st" "tp_buttons s4 = buttons_of (theme_names mk) (Some (menu_entry s3))"
    "tp_html s4 = class_add theme (class_remove (tp_previousTheme s) (tp_html s))" "tp_previousTheme s4 = theme"
    "tp_sheets s4 = fst (theme_sheets theme)" "tp_expanded s4 = tp_expanded s" "tp_display s4 = tp_display s"
    by (simp_all add: s4_def s3_def)
  have h: "set (class_add theme (class_remove (tp_previousTheme s) (tp_html s))) \<inter> set (theme_names mk) = {theme}"
    using html(2) names by auto
  have inv: "theme_inv mk env s4"
    unfolding theme_inv_def entry f using st html(1) h theme shown get unfolding f by simp
  show "fst (set_theme env theme store s) = None" "theme_inv mk env (snd (set_theme env theme store s))"
    "tp_previousTheme (snd (set_theme env theme store s)) = theme"
    "tp_storage (snd (set_theme env theme store s)) = (if store then try_set theme_key theme (tp_storage s) else tp_storage s)"
    "tp_dark (snd (set_theme env theme store s)) = tp_dark s"
    unfolding result using inv by (simp_all add: s4_def [symmetric]) (simp_all add: s4_def s3_def st_def)
qed

lemma inv_parts:
  assumes "theme_inv mk env s"
  shows "saved_ok mk (tp_storage s)" and "tp_buttons s = buttons_of (theme_names mk) (Some (menu_entry s))"
    and "distinct (tp_html s)" and "set (tp_html s) \<inter> set (theme_names mk) = {tp_previousTheme s}"
    and "tp_previousTheme s \<in> set (real_themes mk)" and "tp_expanded s = (tp_display s = ''block'')"
  using assms by (simp_all add: theme_inv_def)

text \<open>The handlers that leave the theme alone.\<close>

lemma theme_inv_frame:
  assumes "theme_inv mk env s" and "tp_storage s' = tp_storage s" and "tp_dark s' = tp_dark s" and "tp_buttons s' = tp_buttons s"
    and "tp_html s' = tp_html s" and "tp_previousTheme s' = tp_previousTheme s" and "tp_sheets s' = tp_sheets s"
    and "tp_expanded s' = (tp_display s' = ''block'')"
  shows "theme_inv mk env s'"
  using assms get_theme_frame [of s' s env] menu_entry_frame [of s' s] by (simp add: theme_inv_def split: sum.splits)

lemma display_only_inv:
  "theme_inv mk env s \<Longrightarrow> theme_inv mk env (s\<lparr>tp_focus := f\<rparr>)"
  "theme_inv mk env s \<Longrightarrow> theme_inv mk env (s\<lparr>tp_display := d, tp_expanded := (d = ''block''), tp_focus := f\<rparr>)"
  "theme_inv mk env s \<Longrightarrow> theme_inv mk env (s\<lparr>tp_color_timers := n, tp_color := c\<rparr>)"
  by (rule theme_inv_frame; simp add: inv_parts(6))+

lemma hideThemes_inv: "theme_inv mk env s \<Longrightarrow> theme_inv mk env (hideThemes s)"
  using display_only_inv(2) [where d = "''none''" and f = OnToggle] by (simp add: hideThemes_def)

lemma showThemes_inv:
  assumes mk: "markup_ok mk" "env_ok mk env" and inv: "theme_inv mk env s"
  shows "fst (showThemes env s) = None" and "theme_inv mk env (snd (showThemes env s))"
proof -
  define s1 where "s1 = s\<lparr>tp_display := ''block'', tp_expanded := True\<rparr>"
  have bs: "tp_buttons s1 = buttons_of (theme_names mk) (Some (menu_entry s))" and sv: "saved_ok mk (tp_storage s1)"
    using inv_parts(1,2) [OF inv] by (simp_all add: s1_def)
  obtain k where k: "k < length (theme_names mk)" "theme_names mk ! k = get_theme env s1"
    using get_theme_real [OF mk sv bs] unfolding real_themes_names by (auto simp: in_set_conv_nth)
  have "query_button env (get_theme env s1) s1 = Inr (Some k)"
    using query_listed [OF bs _ _ k(1)] mk(1) k(2) by (simp add: markup_ok_def)
  then have "showThemes env s = (None, s1\<lparr>tp_focus := OnTheme k\<rparr>)" by (simp add: showThemes_def s1_def [symmetric] Let_def)
  moreover have "theme_inv mk env (s1\<lparr>tp_focus := OnTheme k\<rparr>)"
    using display_only_inv(2) [OF inv, where d = "''block''" and f = "OnTheme k"] by (simp add: s1_def)
  ultimately show "fst (showThemes env s) = None" "theme_inv mk env (snd (showThemes env s))" by simp_all
qed

lemma theme_keydown_inv: "theme_inv mk env s \<Longrightarrow> theme_inv mk env (snd (theme_keydown modifier key s))"
  by (simp add: theme_keydown_def hideThemes_inv display_only_inv split: theme_focus.split)

lemma query_onchange_inv:
  assumes mk: "markup_ok mk" "env_ok mk env" and inv: "theme_inv mk env s"
  shows "fst (query_onchange env dark s) = None" and "theme_inv mk env (snd (query_onchange env dark s))"
proof -
  define s1 where "s1 = s\<lparr>tp_dark := dark\<rparr>"
  have p: "saved_ok mk (tp_storage s1)" "tp_buttons s1 = buttons_of (theme_names mk) (Some (menu_entry s))"
    "distinct (tp_html s1)" "set (tp_html s1) \<inter> set (theme_names mk) \<subseteq> {tp_previousTheme s1, get_theme env s1}"
    "tp_expanded s1 = (tp_display s1 = ''block'')"
    using inv_parts [OF inv] by (auto simp: s1_def)
  have get: "get_theme env s1 \<in> set (real_themes mk)" by (rule get_theme_real [OF mk p(1,2)])
  have "False \<or> (case tp_storage s1 of Inl _ \<Rightarrow> True | Inr _ \<Rightarrow> get_theme env s1 = get_theme env s1)" by (simp split: sum.split)
  from set_theme_inv(1,2) [OF mk(1) p(1,2,3,4) get p(5) this]
  show "fst (query_onchange env dark s) = None" "theme_inv mk env (snd (query_onchange env dark s))"
    by (simp_all add: query_onchange_def s1_def [symmetric] Let_def)
qed

text \<open>A click on the selected entry is ignored, because its class attribute names two classes. The entry that a handled click lands
  on is therefore never the selected one.\<close>

lemma clicked_button_Some:
  assumes "clicked_button target s = Some j" and "tp_buttons s = buttons_of names (Some e)"
  shows "j < length names" and "names ! j \<noteq> e" and "tb_id (tp_buttons s ! j) = theme_prefix @ names ! j"
proof -
  have "class_attr [theme_class, selected_class] \<noteq> theme_class" by (simp add: class_attr_def selected_class_def theme_class_def)
  moreover have "j < length names" "class_attr (tb_class (tp_buttons s ! j)) = theme_class"
    using assms by (auto simp: clicked_button_def split: menu_target.splits if_splits)
  ultimately show "j < length names" "names ! j \<noteq> e" "tb_id (tp_buttons s ! j) = theme_prefix @ names ! j"
    using assms(2) by (auto simp: buttons_of_def)
qed

lemma strip_prefix_simp [simp]: "strip_prefix (theme_prefix @ t) = t"
  by (simp add: strip_prefix_def)

lemma menu_entry_default: "menu_entry s \<noteq> default_entry \<Longrightarrow> \<exists>m theme. tp_storage s = Inr m \<and> m theme_key = Some theme"
  by (cases "tp_storage s") (auto simp: menu_entry_def get_saved_theme_def split: option.splits)

lemma theme_menu_click_inv:
  assumes mk: "markup_ok mk" "env_ok mk env" and inv: "theme_inv mk env s"
  shows "fst (theme_menu_click env target s) = None" and "theme_inv mk env (snd (theme_menu_click env target s))"
proof -
  note p = inv_parts [OF inv]
  have "fst (theme_menu_click env target s) = None \<and> theme_inv mk env (snd (theme_menu_click env target s))"
  proof (cases "clicked_button target s")
    case None
    then show ?thesis using inv by (simp add: theme_menu_click_def)
  next
    case (Some j)
    note c = clicked_button_Some [OF Some p(2)]
    define theme where "theme = theme_names mk ! j"
    have strip: "strip_prefix (tb_id (tp_buttons s ! j)) = theme" by (simp add: c(3) theme_def)
    show ?thesis
    proof (cases "theme = default_entry")
      case True
      then have "menu_entry s \<noteq> default_entry" using c(2) by (simp add: theme_def)
      then obtain m where m: "tp_storage s = Inr m" using menu_entry_default by blast
      define s1 where "s1 = s\<lparr>tp_storage := Inr (m(theme_key := None))\<rparr>"
      have del: "delete_saved_theme s = Inr s1" by (simp add: delete_saved_theme_def m s1_def)
      have q: "saved_ok mk (tp_storage s1)" "tp_buttons s1 = buttons_of (theme_names mk) (Some (menu_entry s))" "distinct (tp_html s1)"
        "set (tp_html s1) \<inter> set (theme_names mk) \<subseteq> {tp_previousTheme s1, get_theme env s1}" "tp_expanded s1 = (tp_display s1 = ''block'')"
        using p by (auto simp: s1_def saved_ok_def)
      have get: "get_theme env s1 \<in> set (real_themes mk)" by (rule get_theme_real [OF mk q(1,2)])
      have "False \<or> (case tp_storage s1 of Inl _ \<Rightarrow> True | Inr _ \<Rightarrow> get_theme env s1 = get_theme env s1)" by (simp split: sum.split)
      from set_theme_inv(1,2) [OF mk(1) q(1,2,3,4) get q(5) this] show ?thesis
        unfolding theme_menu_click_def Some option.case Let_def strip using True by (simp add: del)
    next
      case False
      have theme: "theme \<in> set (real_themes mk)" using c(1) False by (simp add: theme_def real_themes_names)
      have html: "set (tp_html s) \<inter> set (theme_names mk) \<subseteq> {tp_previousTheme s, theme}" using p(4) by simp
      from set_theme_inv(1,2) [OF mk(1) p(1,2,3) html theme p(6), of True] False show ?thesis
        unfolding theme_menu_click_def Some option.case Let_def strip by simp
    qed
  qed
  then show "fst (theme_menu_click env target s) = None" "theme_inv mk env (snd (theme_menu_click env target s))" by simp_all
qed

lemma theme_step_inv:
  assumes mk: "markup_ok mk" "env_ok mk env" and inv: "theme_inv mk env s"
  shows "fst (theme_step env ev s) = None \<and> theme_inv mk env (snd (theme_step env ev s))"
  by (cases ev) (use showThemes_inv [OF mk inv] query_onchange_inv [OF mk inv] theme_menu_click_inv [OF mk inv] inv in
      \<open>simp_all add: theme_toggle_click_def theme_focusout_def theme_document_click_def theme_keydown_inv hideThemes_inv color_timer_def display_only_inv\<close>)

lemma theme_run_inv:
  assumes mk: "markup_ok mk" "env_ok mk env" and inv: "theme_inv mk env s"
  shows "fst (theme_run env evs s) = [] \<and> theme_inv mk env (snd (theme_run env evs s))"
  using inv
proof (induction evs arbitrary: s)
  case (Cons ev evs)
  have "fst (theme_step env ev s) = None" "theme_inv mk env (snd (theme_step env ev s))" using theme_step_inv [OF mk Cons.prems] by simp_all
  with Cons.IH [of "snd (theme_step env ev s)"] show ?case by (simp add: case_prod_beta)
qed simp

lemma themes_inv:
  fixes sel dark
  assumes mk: "markup_ok mk" and saved: "saved_ok mk st"
  defines "env \<equiv> head_env mk sel dark"
  shows "fst (themes mk env st dark editors) = None" and "theme_inv mk env (snd (themes mk env st dark editors))"
    and "tp_previousTheme (snd (themes mk env st dark editors)) =
      (case try_get theme_key st of None \<Rightarrow> if dark then mk_dark mk else mk_light mk | Some theme \<Rightarrow> theme)"
    and "tp_storage (snd (themes mk env st dark editors)) = st"
proof -
  define s where "s = \<lparr>tp_html = head_classes env st (mk_html mk),
      tp_sheets = \<lparr>ayuHighlight_disabled = False, tomorrowNight_disabled = False, highlight_disabled = False\<rparr>,
      tp_buttons = map (\<lambda>i. \<lparr>tb_id = i, tb_class = [theme_class]\<rparr>) (mk_buttons mk),
      tp_previousTheme = te_default_theme env, tp_storage = st, tp_dark = dark, tp_display = [], tp_expanded = False,
      tp_focus = Elsewhere, tp_color_timers = 0, tp_color = [], tp_editors = editors\<rparr>"
  have env: "env_ok mk env" by (simp add: env_def env_ok_def head_env_def)
  have bs: "tp_buttons s = buttons_of (theme_names mk) None"
    by (simp add: s_def markup_buttons [OF mk] buttons_of_def comp_def)
  have sv: "saved_ok mk (tp_storage s)" using saved by (simp add: s_def)
  have get: "get_theme env s = (case try_get theme_key st of None \<Rightarrow> te_default_theme env | Some theme \<Rightarrow> theme)"
    unfolding get_theme_listed [OF mk sv bs]
    by (simp add: s_def get_saved_theme_def fallback_theme_def env_def head_env_def split: option.split)
  have real: "get_theme env s \<in> set (real_themes mk)" by (rule get_theme_real [OF mk env sv bs])
  have html: "distinct (tp_html s)" "set (tp_html s) \<inter> set (theme_names mk) \<subseteq> {tp_previousTheme s, get_theme env s}"
    using mk unfolding get by (auto simp: s_def head_classes_def markup_ok_def Let_def)
  have shown: "tp_expanded s = (tp_display s = ''block'')" by (simp add: s_def)
  have "False \<or> (case tp_storage s of Inl _ \<Rightarrow> True | Inr _ \<Rightarrow> get_theme env s = get_theme env s)" by (simp split: sum.split)
  note r = set_theme_inv [OF mk sv bs html real shown this]
  have run: "themes mk env st dark editors = set_theme env (get_theme env s) False s" by (simp add: themes_def s_def [symmetric] Let_def)
  show "fst (themes mk env st dark editors) = None" "theme_inv mk env (snd (themes mk env st dark editors))"
    "tp_storage (snd (themes mk env st dark editors)) = st"
    unfolding run using r by (simp_all add: s_def)
  have "te_default_theme env = (if dark then mk_dark mk else mk_light mk)" by (simp add: env_def head_env_def)
  then show "tp_previousTheme (snd (themes mk env st dark editors)) =
      (case try_get theme_key st of None \<Rightarrow> if dark then mk_dark mk else mk_light mk | Some theme \<Rightarrow> theme)"
    using r(3) unfolding run by (simp add: get split: option.split)
qed

subsection \<open>Views of a page\<close>

definition themes_shown :: "theme_markup \<Rightarrow> theme_page \<Rightarrow> string list" where
  "themes_shown mk s = filter (\<lambda>c. c \<in> set (theme_names mk)) (tp_html s)"

definition selected_ids :: "theme_page \<Rightarrow> string list" where
  "selected_ids s = map tb_id (filter (\<lambda>b. selected_class \<in> set (tb_class b)) (tp_buttons s))"

definition enabled_sheets :: "theme_page \<Rightarrow> nat" where
  "enabled_sheets s = length (filter Not [ayuHighlight_disabled (tp_sheets s), tomorrowNight_disabled (tp_sheets s), highlight_disabled (tp_sheets s)])"

lemma filter_singleton:
  assumes "distinct xs" and "set xs \<inter> A = {x}"
  shows "filter (\<lambda>y. y \<in> A) xs = [x]"
proof -
  define ys where "ys = filter (\<lambda>y. y \<in> A) xs"
  have ys: "set ys = {x}" "distinct ys" using assms by (auto simp: ys_def)
  then have "length ys = 1" using distinct_card [of ys] by simp
  then obtain y where "ys = [y]" by (auto simp: length_Suc_conv)
  then show ?thesis using ys(1) by (simp add: ys_def)
qed

lemma inv_themes_shown: "theme_inv mk env s \<Longrightarrow> themes_shown mk s = [tp_previousTheme s]"
  unfolding themes_shown_def by (rule filter_singleton) (simp_all add: theme_inv_def)

lemma inv_selected_ids:
  assumes "markup_ok mk" and "theme_inv mk env s"
  shows "selected_ids s = [theme_prefix @ menu_entry s]"
proof -
  note p = inv_parts [OF assms(2)]
  have "selected_ids s = map ((@) theme_prefix) (filter (\<lambda>n. n \<in> {menu_entry s}) (theme_names mk))"
    unfolding selected_ids_def p(2) by (simp add: buttons_of_def filter_map comp_def eq_commute)
  also have "filter (\<lambda>n. n \<in> {menu_entry s}) (theme_names mk) = [menu_entry s]"
    by (rule filter_singleton) (use assms(1) menu_entry_listed [OF assms(1) p(1)] in \<open>auto simp: markup_ok_def\<close>)
  finally show ?thesis by simp
qed

lemma inv_enabled_sheets: "theme_inv mk env s \<Longrightarrow> enabled_sheets s = 1"
  by (simp add: theme_inv_def enabled_sheets_def theme_sheets_def)

lemma update_storage [simp]: "tp_storage (snd (updateThemeSelected env s)) = tp_storage s"
  by (simp add: updateThemeSelected_def Let_def split: sum.split option.split)

lemma set_theme_storage: "tp_storage (snd (set_theme env theme store s)) = (if store then try_set theme_key theme (tp_storage s) else tp_storage s)"
  by (simp add: set_theme_def Let_def case_prod_beta)

lemma try_set_isl [simp]: "isl (try_set k v st) = isl st"
  by (cases st) simp_all

lemma theme_step_storage: "isl (tp_storage (snd (theme_step env ev s))) = isl (tp_storage s)"
proof (cases ev)
  case (MenuClick target)
  have "isl (tp_storage s1) = isl (tp_storage s)" if "delete_saved_theme s = Inr s1" for s1
    using that by (cases "tp_storage s") (auto simp: delete_saved_theme_def)
  then show ?thesis using MenuClick
    by (simp add: theme_menu_click_def Let_def set_theme_storage split: option.split sum.split)
qed (simp_all add: query_onchange_def theme_toggle_click_def showThemes_def hideThemes_def theme_focusout_def theme_document_click_def
    theme_keydown_def color_timer_def set_theme_storage Let_def split: sum.split option.split theme_focus.split)

lemma theme_run_storage: "isl (tp_storage (snd (theme_run env evs s))) = isl (tp_storage s)"
  by (induction evs arbitrary: s) (simp_all add: case_prod_beta theme_step_storage)

lemma mermaid_listen_all:
  "set (map fst ts) \<subseteq> set ids \<Longrightarrow> mermaid_listen ids ts m = (None, m\<lparr>mm_listeners := mm_listeners m @ ts\<rparr>)"
  by (induction ts arbitrary: m) auto

subsection \<open>Properties\<close>



text \<open>A theme chosen in the menu is the theme of the next page load, whatever the system prefers then; choosing the
  default entry makes the next load follow the system again.\<close>

theorem theme_survives_reload:
  fixes sel dark evs m editors sel' dark' editors'
  assumes mk: "markup_ok mk" and saved: "saved_ok mk (Inr m)"
  defines "env \<equiv> head_env mk sel dark"
  defines "s \<equiv> snd (theme_run env evs (snd (themes mk env (Inr m) dark editors)))"
  assumes click: "clicked_button target s = Some j"
  defines "chosen \<equiv> strip_prefix (tb_id (tp_buttons s ! j))"
  defines "s' \<equiv> snd (theme_step env (MenuClick target) s)"
  shows "themes_shown mk (snd (themes mk (head_env mk sel' dark') (tp_storage s') dark' editors')) =
           [if chosen = default_entry then if dark' then mk_dark mk else mk_light mk else chosen]"
proof -
  note load = themes_inv [OF mk saved, where sel = sel and dark = dark and editors = editors, folded env_def]
  have env: "env_ok mk env" by (simp add: env_def env_ok_def head_env_def)
  have inv: "theme_inv mk env s" using theme_run_inv [OF mk env load(2)] by (simp add: s_def)
  have inv': "theme_inv mk env s'" using theme_step_inv [OF mk env inv, of "MenuClick target"] by (simp only: s'_def)
  have "\<not> isl (tp_storage s)" using theme_run_storage load(4) by (simp add: s_def)
  then obtain n where n: "tp_storage s = Inr n" by (cases "tp_storage s") simp_all
  have stored: "try_get theme_key (tp_storage s') = (if chosen = default_entry then None else Some chosen)"
    by (simp add: s'_def theme_menu_click_def click chosen_def [symmetric] Let_def set_theme_storage delete_saved_theme_def n)
  show ?thesis
    using inv_themes_shown [OF themes_inv(2) [OF mk inv_parts(1) [OF inv']]] themes_inv(3) [OF mk inv_parts(1) [OF inv']]
    by (simp add: stored)
qed

theorem theme_survives_reload_witness:
  "themes_shown book_markup (snd (themes book_markup (head_env book_markup (\<lambda>_. Inr None) True)
     (tp_storage (snd (theme_step (head_env book_markup (\<lambda>_. Inr None) False) (MenuClick (OnButton 2))
       (snd (theme_run (head_env book_markup (\<lambda>_. Inr None) False) []
          (snd (themes book_markup (head_env book_markup (\<lambda>_. Inr None) False) (Inr (\<lambda>_. None)) False None))))))) True None)) = [''rust'']"
proof -
  have mk: "markup_ok book_markup" by code_simp
  have st: "saved_ok book_markup (Inr (\<lambda>_. None))" by (simp add: saved_ok_def)
  have click: "clicked_button (OnButton 2) (snd (theme_run (head_env book_markup (\<lambda>_. Inr None) False) []
          (snd (themes book_markup (head_env book_markup (\<lambda>_. Inr None) False) (Inr (\<lambda>_. None)) False None)))) = Some 2" by code_simp
  have chosen: "strip_prefix (tb_id (tp_buttons (snd (theme_run (head_env book_markup (\<lambda>_. Inr None) False) []
          (snd (themes book_markup (head_env book_markup (\<lambda>_. Inr None) False) (Inr (\<lambda>_. None)) False None)))) ! 2)) = ''rust''" by code_simp
  show ?thesis unfolding theme_survives_reload [OF mk st click] chosen by (simp add: default_entry_def)
qed

text \<open>A stored theme that the menu does not list (from an older version of the book, say) is not shown, but the script in the head
  adds its name to the root element, where it stays.\<close>

lemma update_html [simp]: "tp_html (snd (updateThemeSelected env s)) = tp_html s"
  by (simp add: updateThemeSelected_def Let_def split: sum.split option.split)

theorem unknown_theme_class_stays:
  assumes "m theme_key = Some t" and "t \<notin> {mk_light mk, mk_dark mk}"
  shows "t \<in> set (tp_html (snd (themes mk (head_env mk sel dark) (Inr m) dark editors)))"
  using assms by (simp add: themes_def set_theme_def head_classes_def head_env_def Let_def case_prod_beta)

text \<open>The script of the diagrams, on a page that has an element for each theme name: it returns, starts the diagrams dark exactly
  when a dark theme is shown, and a click on a theme reloads the page exactly when the brightness changes.\<close>

theorem diagrams_follow_listed_themes:
  fixes classes
  assumes "set (darkThemes @ lightThemes) \<subseteq> set ids"
  defines "dark \<equiv> \<exists>c \<in> set classes. c \<in> set darkThemes"
  shows "fst (mermaid_init ids classes) = None \<and> mm_theme (snd (mermaid_init ids classes)) = (if dark then ''dark'' else ''default'') \<and>
         mermaid_reloads i (snd (mermaid_init ids classes)) = (if dark then i \<in> set lightThemes else i \<in> set darkThemes)"
proof -
  have "set (map fst (map (\<lambda>t. (t, True)) darkThemes @ map (\<lambda>t. (t, False)) lightThemes)) \<subseteq> set ids" using assms(1) by auto
  from mermaid_listen_all [OF this] have "mermaid_init ids classes =
      (None, \<lparr>mm_lastThemeWasLight = \<not> dark, mm_theme = (if dark then ''dark'' else ''default''),
              mm_listeners = map (\<lambda>t. (t, True)) darkThemes @ map (\<lambda>t. (t, False)) lightThemes\<rparr>)"
    unfolding mermaid_init_def dark_def list_ex_iff Let_def by simp
  then show ?thesis by (auto simp: mermaid_reloads_def list_ex_iff)
qed



end
