(* ===== verification/Book_Sidebar.thy ===== *)
theory Book_Sidebar
  imports Page_Dom
begin

section \<open>Showing and hiding the sidebar (\<open>book.js\<close>)\<close>

text \<open>
  The sidebar of a page: the class of the root element that shows it, the attributes that describe it to assistive
  software, the checkbox behind the toggle button, its display style, its width, the drag of its edge and the swipes that show or hide it.
  A click on the toggle button runs its handler, flips the checkbox (the button is its label) and runs the change handler. Pixels and
  milliseconds are integers. The first part is the script in the head of the page.
\<close>

subsection \<open>State and page load\<close>

record book_sidebar =
  bs_visible :: bool
  bs_resizing :: bool
  bs_tabIndex :: "int list"
  bs_aria_expanded :: bool
  bs_aria_hidden :: bool
  bs_storage :: storage
  bs_checked :: bool
  bs_display :: string
  bs_target_width :: "int option"
  bs_listening :: bool
  bs_firstContact :: "(int \<times> int) option"

definition visible_value :: string where "visible_value = ''visible''"

definition hidden_value :: string where "hidden_value = ''hidden''"

definition no_display :: string where "no_display = ''none''"

definition head_sidebar :: "int \<Rightarrow> storage \<Rightarrow> string" where
  "head_sidebar clientWidth st =
     (if 1080 \<le> clientWidth
      then (case try_get sidebar_key st of None \<Rightarrow> visible_value | Some v \<Rightarrow> if v = [] then visible_value else v)
      else hidden_value)"

text \<open>The page is marked as showing the sidebar; the browser may have restored the checkbox.\<close>

definition sidebar_load :: "int \<Rightarrow> storage \<Rightarrow> bool \<Rightarrow> nat \<Rightarrow> book_sidebar" where
  "sidebar_load clientWidth st restored links =
     (let sidebar = head_sidebar clientWidth st;
          visible = (sidebar = visible_value);
          checked = (if visible then True else if 1080 \<le> clientWidth then restored else False)
      in \<lparr>bs_visible = visible, bs_resizing = False, bs_tabIndex = replicate links (if visible then 0 else -1),
          bs_aria_expanded = visible, bs_aria_hidden = (\<not> visible), bs_storage = st, bs_checked = checked,
          bs_display = (if \<not> visible then no_display else []), bs_target_width = None, bs_listening = False, bs_firstContact = None\<rparr>)"

subsection \<open>Showing and hiding\<close>

definition showSidebar :: "book_sidebar \<Rightarrow> book_sidebar" where
  "showSidebar s = s\<lparr>bs_visible := True, bs_tabIndex := map (\<lambda>_. 0) (bs_tabIndex s), bs_aria_expanded := True, bs_aria_hidden := False,
     bs_storage := try_set sidebar_key visible_value (bs_storage s)\<rparr>"

definition hideSidebar :: "book_sidebar \<Rightarrow> book_sidebar" where
  "hideSidebar s = s\<lparr>bs_visible := False, bs_tabIndex := map (\<lambda>_. -1) (bs_tabIndex s), bs_aria_expanded := False, bs_aria_hidden := True,
     bs_storage := try_set sidebar_key hidden_value (bs_storage s)\<rparr>"

definition sidebar_transitionend :: "book_sidebar \<Rightarrow> book_sidebar" where
  "sidebar_transitionend s = (if \<not> bs_checked s then s\<lparr>bs_display := no_display\<rparr> else s)"

definition sidebar_toggle_click :: "book_sidebar \<Rightarrow> book_sidebar" where
  "sidebar_toggle_click s = (if \<not> bs_checked s then s\<lparr>bs_display := []\<rparr> else s)"

definition sidebarToggle :: "book_sidebar \<Rightarrow> book_sidebar" where
  "sidebarToggle s =
     (if bs_checked s
      then showSidebar (case bs_target_width s of
                          Some current_width \<Rightarrow> if current_width < 150 then s\<lparr>bs_target_width := Some 150\<rparr> else s
                        | None \<Rightarrow> s)
      else hideSidebar s)"

definition sidebar_press :: "book_sidebar \<Rightarrow> book_sidebar" where
  "sidebar_press s = (let s1 = sidebar_toggle_click s in sidebarToggle (s1\<lparr>bs_checked := \<not> bs_checked s1\<rparr>))"

subsection \<open>Dragging the edge\<close>

definition initResize :: "book_sidebar \<Rightarrow> book_sidebar" where
  "initResize s = s\<lparr>bs_listening := True, bs_resizing := True\<rparr>"

definition resize :: "int \<Rightarrow> int \<Rightarrow> int \<Rightarrow> book_sidebar \<Rightarrow> book_sidebar" where
  "resize clientX offsetLeft innerWidth s =
     (let pos = clientX - offsetLeft
      in if pos < 20 then hideSidebar s
         else let s1 = (if \<not> bs_visible s then showSidebar s else s)
              in s1\<lparr>bs_target_width := Some (min pos (innerWidth - 100))\<rparr>)"

definition stopResize :: "book_sidebar \<Rightarrow> book_sidebar" where
  "stopResize s = s\<lparr>bs_resizing := False, bs_listening := False\<rparr>"

subsection \<open>Swipes\<close>

definition sidebar_touchstart :: "int \<Rightarrow> int \<Rightarrow> book_sidebar \<Rightarrow> book_sidebar" where
  "sidebar_touchstart x now s = s\<lparr>bs_firstContact := Some (x, now)\<rparr>"

definition sidebar_touchmove :: "int \<Rightarrow> int \<Rightarrow> int \<Rightarrow> book_sidebar \<Rightarrow> book_sidebar" where
  "sidebar_touchmove curX now clientWidth s =
     (case bs_firstContact s of
        None \<Rightarrow> s
      | Some (x, time) \<Rightarrow>
          let xDiff = curX - x; tDiff = now - time
          in if tDiff < 250 \<and> 150 \<le> \<bar>xDiff\<bar>
             then (if 0 \<le> xDiff \<and> (of_int x :: rat) < min (of_int clientWidth * (1 / 4)) 300 then showSidebar s
                   else if xDiff < 0 \<and> curX < 300 then hideSidebar s
                   else s)\<lparr>bs_firstContact := None\<rparr>
             else s)"

datatype sidebar_event =
    SidebarPress | TransitionEnd | EdgeDown | MouseMove int int int | MouseUp | TouchStart int int | TouchMove int int int

fun sidebar_step :: "sidebar_event \<Rightarrow> book_sidebar \<Rightarrow> book_sidebar" where
  "sidebar_step SidebarPress s = sidebar_press s"
| "sidebar_step TransitionEnd s = sidebar_transitionend s"
| "sidebar_step EdgeDown s = initResize s"
| "sidebar_step (MouseMove clientX offsetLeft innerWidth) s = (if bs_listening s then resize clientX offsetLeft innerWidth s else s)"
| "sidebar_step MouseUp s = (if bs_listening s then stopResize s else s)"
| "sidebar_step (TouchStart x now) s = sidebar_touchstart x now s"
| "sidebar_step (TouchMove x now clientWidth) s = sidebar_touchmove x now clientWidth s"

subsection \<open>Agreement of the attributes\<close>

definition sidebar_agrees :: "book_sidebar \<Rightarrow> bool" where
  "sidebar_agrees s \<longleftrightarrow> bs_aria_expanded s = bs_visible s \<and> bs_aria_hidden s = (\<not> bs_visible s) \<and>
     list_all (\<lambda>i. i = (if bs_visible s then 0 else -1)) (bs_tabIndex s) \<and> bs_resizing s = bs_listening s"

lemma show_hide_agrees:
  "bs_resizing s = bs_listening s \<Longrightarrow> sidebar_agrees (showSidebar s)" "bs_resizing s = bs_listening s \<Longrightarrow> sidebar_agrees (hideSidebar s)"
  by (simp_all add: sidebar_agrees_def showSidebar_def hideSidebar_def list_all_iff)

lemma agrees_listening: "sidebar_agrees s \<Longrightarrow> bs_resizing s = bs_listening s"
  by (simp add: sidebar_agrees_def)

lemma sidebarToggle_agrees: "bs_resizing s = bs_listening s \<Longrightarrow> sidebar_agrees (sidebarToggle s)"
  by (simp add: sidebarToggle_def show_hide_agrees split: option.split)

lemma sidebar_press_agrees: "sidebar_agrees s \<Longrightarrow> sidebar_agrees (sidebar_press s)"
  unfolding sidebar_press_def Let_def
  by (rule sidebarToggle_agrees) (simp add: sidebar_toggle_click_def agrees_listening)

lemma resize_agrees:
  assumes "sidebar_agrees s"
  shows "sidebar_agrees (resize clientX offsetLeft innerWidth s)"
proof -
  have w: "sidebar_agrees s1 \<Longrightarrow> sidebar_agrees (s1\<lparr>bs_target_width := w\<rparr>)" for s1 w
    by (simp add: sidebar_agrees_def)
  show ?thesis using assms agrees_listening [OF assms] by (simp add: resize_def Let_def show_hide_agrees w)
qed

lemma sidebar_touchmove_agrees:
  assumes "sidebar_agrees s"
  shows "sidebar_agrees (sidebar_touchmove x now w s)"
proof -
  have f: "sidebar_agrees s1 \<Longrightarrow> sidebar_agrees (s1\<lparr>bs_firstContact := c\<rparr>)" for s1 c
    by (simp add: sidebar_agrees_def)
  show ?thesis using assms agrees_listening [OF assms]
    by (simp add: sidebar_touchmove_def Let_def f show_hide_agrees split: option.split)
qed

lemma quiet_steps_agree:
  "sidebar_agrees s \<Longrightarrow> sidebar_agrees (sidebar_transitionend s)" "sidebar_agrees s \<Longrightarrow> sidebar_agrees (initResize s)"
  "sidebar_agrees s \<Longrightarrow> sidebar_agrees (stopResize s)" "sidebar_agrees s \<Longrightarrow> sidebar_agrees (sidebar_touchstart x now s)"
  by (simp_all add: sidebar_agrees_def sidebar_transitionend_def initResize_def stopResize_def sidebar_touchstart_def)

lemma sidebar_step_agrees: "sidebar_agrees s \<Longrightarrow> sidebar_agrees (sidebar_step ev s)"
  by (cases ev) (simp_all add: sidebar_press_agrees resize_agrees sidebar_touchmove_agrees quiet_steps_agree)

lemma sidebar_steps_agree: "sidebar_agrees s \<Longrightarrow> sidebar_agrees (fold sidebar_step evs s)"
  by (induction evs arbitrary: s) (simp_all add: sidebar_step_agrees)

lemma sidebar_load_agrees: "sidebar_agrees (sidebar_load w st restored n)"
  by (simp add: sidebar_load_def Let_def sidebar_agrees_def list_all_iff)

text \<open>With the toggle button alone, the checkbox agrees with what is shown.\<close>

definition button_event :: "sidebar_event \<Rightarrow> bool" where
  "button_event ev \<longleftrightarrow> ev = SidebarPress \<or> ev = TransitionEnd"

definition checkbox_agrees :: "book_sidebar \<Rightarrow> bool" where
  "checkbox_agrees s \<longleftrightarrow> bs_checked s = bs_visible s \<and> (\<not> bs_visible s \<or> bs_display s = [])"

lemma width_frame [simp]:
  "bs_visible (sidebarToggle s) = bs_checked s" "bs_checked (sidebarToggle s) = bs_checked s" "bs_display (sidebarToggle s) = bs_display s"
  by (simp_all add: sidebarToggle_def showSidebar_def hideSidebar_def split: option.split)

lemma press_frame [simp]:
  "bs_visible (sidebar_press s) = (\<not> bs_checked s)" "bs_checked (sidebar_press s) = (\<not> bs_checked s)"
  "bs_display (sidebar_press s) = (if bs_checked s then bs_display s else [])"
  by (simp_all add: sidebar_press_def Let_def sidebar_toggle_click_def)

lemma button_events_agree:
  "list_all button_event evs \<Longrightarrow> checkbox_agrees s \<Longrightarrow> checkbox_agrees (fold sidebar_step evs s)"
proof (induction evs arbitrary: s)
  case (Cons ev evs)
  have "ev = SidebarPress \<or> ev = TransitionEnd" using Cons.prems(1) by (simp add: button_event_def)
  then have "checkbox_agrees (sidebar_step ev s)"
    using Cons.prems(2) by (elim disjE) (simp_all add: checkbox_agrees_def sidebar_transitionend_def)
  with Cons.IH Cons.prems(1) show ?case by simp
qed simp

text \<open>Swipes change neither the checkbox nor the display style.\<close>

definition touch_event :: "sidebar_event \<Rightarrow> bool" where
  "touch_event ev \<longleftrightarrow> (case ev of TouchStart _ _ \<Rightarrow> True | TouchMove _ _ _ \<Rightarrow> True | _ \<Rightarrow> False)"

lemma touch_step: "touch_event ev \<Longrightarrow> bs_checked (sidebar_step ev s) = bs_checked s \<and> bs_display (sidebar_step ev s) = bs_display s"
  by (cases ev) (simp_all add: touch_event_def sidebar_touchstart_def sidebar_touchmove_def showSidebar_def hideSidebar_def Let_def split: option.split)

lemma touch_steps:
  "list_all touch_event evs \<Longrightarrow> bs_checked (fold sidebar_step evs s) = bs_checked s \<and> bs_display (fold sidebar_step evs s) = bs_display s"
  by (induction evs arbitrary: s) (simp_all add: touch_step)

subsection \<open>Properties\<close>

text \<open>The attributes that describe the sidebar agree with what is shown after any sequence of events, and the drag listeners are
  installed exactly while the page is marked as resizing.\<close>

theorem sidebar_attributes_agree:
  fixes evs clientWidth st restored links
  defines "s \<equiv> fold sidebar_step evs (sidebar_load clientWidth st restored links)"
  shows "bs_aria_expanded s = bs_visible s \<and> bs_aria_hidden s = (\<not> bs_visible s) \<and>
         list_all (\<lambda>i. i = (if bs_visible s then 0 else -1)) (bs_tabIndex s) \<and> bs_resizing s = bs_listening s"
  using sidebar_steps_agree [OF sidebar_load_agrees] unfolding s_def sidebar_agrees_def by blast

text \<open>What the toggle button shows or hides is shown or hidden again when the page is loaded in a wide window, whatever was dragged or
  swiped before, when the browser allows storage.\<close>

theorem sidebar_survives_reload:
  assumes "bs_storage s = Inr m" and "1080 \<le> clientWidth"
  shows "bs_visible (sidebar_load clientWidth (bs_storage (sidebar_step SidebarPress s)) restored links) = bs_visible (sidebar_step SidebarPress s) \<and>
         bs_visible (sidebar_step SidebarPress s) = (\<not> bs_checked s)"
proof -
  have "bs_storage (sidebar_press s) = Inr (m(sidebar_key \<mapsto> (if bs_checked s then hidden_value else visible_value)))"
    using assms(1) by (simp add: sidebar_press_def Let_def sidebar_toggle_click_def sidebarToggle_def showSidebar_def hideSidebar_def split: option.split)
  moreover have "visible_value \<noteq> []" "hidden_value \<noteq> []" "hidden_value \<noteq> visible_value" by (simp_all add: visible_value_def hidden_value_def)
  ultimately show ?thesis using assms(2) by (simp add: sidebar_load_def head_sidebar_def Let_def)
qed

theorem sidebar_survives_reload_witness:
  "bs_visible (sidebar_load 1200 (bs_storage (sidebar_step SidebarPress (sidebar_load 1200 (Inr (\<lambda>_. None)) False 3))) False 3) =
   bs_visible (sidebar_step SidebarPress (sidebar_load 1200 (Inr (\<lambda>_. None)) False 3))"
proof -
  have "bs_storage (sidebar_load 1200 (Inr (\<lambda>_. None)) False 3) = Inr (\<lambda>_. None)" by (simp add: sidebar_load_def Let_def)
  from sidebar_survives_reload [OF this, of 1200 False 3] show ?thesis by simp
qed

text \<open>With the toggle button alone, on a page whose checkbox the browser has not restored, the checkbox agrees with what is shown, and a
  sidebar that is shown is displayed.\<close>

theorem toggle_button_shows_sidebar:
  fixes clientWidth st links
  assumes "list_all button_event evs"
  defines "s \<equiv> fold sidebar_step evs (sidebar_load clientWidth st False links)"
  shows "bs_checked s = bs_visible s \<and> (\<not> bs_visible s \<or> bs_display s = [])"
proof -
  have "checkbox_agrees (sidebar_load clientWidth st False links)" by (simp add: sidebar_load_def Let_def checkbox_agrees_def)
  from button_events_agree [OF assms(1) this] show ?thesis by (simp add: s_def checkbox_agrees_def)
qed



text \<open>The drag keeps the width between 20 pixels and the window less 100 pixels, and showing the sidebar with the button widens it to 150.\<close>

theorem sidebar_width_bounds:
  assumes "bs_target_width (resize clientX offsetLeft innerWidth s) = Some w" and "20 \<le> clientX - offsetLeft"
  shows "w \<le> innerWidth - 100 \<and> (120 \<le> innerWidth \<longrightarrow> 20 \<le> w)"
  using assms by (auto simp: resize_def Let_def showSidebar_def split: if_splits)

theorem shown_sidebar_width:
  assumes "\<not> bs_checked s" and "bs_target_width (sidebar_press s) = Some w"
  shows "150 \<le> w"
  using assms by (auto simp: sidebar_press_def Let_def sidebar_toggle_click_def sidebarToggle_def showSidebar_def split: option.splits if_splits)

end
