(* ===== verification/Book_Menu.thy ===== *)
theory Book_Menu
  imports Searcher
begin

section \<open>Keys, help and the menu bar of a page (\<open>book.js\<close>)\<close>

text \<open>
  The keys that turn pages and show the help popup, together with the keys of the search, which listen to the same events: a
  key press first runs the listeners that the popup installed in the capture phase, which may stop it, then the handler of the search,
  then that of the chapter navigation, in the order of the scripts. Each press of the help key installs closures of its own, so
  listeners are counted. The second part is the menu bar, which slides out of view while the page scrolls down and comes back while
  it scrolls up; positions are exact rationals.
\<close>

subsection \<open>Chapter navigation and help\<close>

record chapter_page =
  cp_help_display :: string
  cp_escape_listeners :: nat
  cp_mouse_listeners :: nat
  cp_next :: "string option"
  cp_previous :: "string option"
  cp_rtl :: bool
  cp_visited :: "string list"

definition next_chapter :: "chapter_page \<Rightarrow> chapter_page" where
  "next_chapter s = (case cp_next s of None \<Rightarrow> s | Some u \<Rightarrow> s\<lparr>cp_visited := cp_visited s @ [u]\<rparr>)"

definition prev_chapter :: "chapter_page \<Rightarrow> chapter_page" where
  "prev_chapter s = (case cp_previous s of None \<Rightarrow> s | Some u \<Rightarrow> s\<lparr>cp_visited := cp_visited s @ [u]\<rparr>)"

definition flex :: string where "flex = ''flex''"

definition escape_name :: string where "escape_name = ''Escape''"

definition help_name :: string where "help_name = ''?''"

definition showHelp :: "chapter_page \<Rightarrow> chapter_page" where
  "showHelp s = s\<lparr>cp_help_display := flex, cp_escape_listeners := cp_escape_listeners s + 1, cp_mouse_listeners := cp_mouse_listeners s + 1\<rparr>"

definition hideHelp :: "chapter_page \<Rightarrow> chapter_page" where
  "hideHelp s = s\<lparr>cp_help_display := ''none''\<rparr>"

text \<open>All escape listeners run on one press, each removes itself, and the press goes no further.\<close>

definition escapeKeyHandlers :: "string \<Rightarrow> chapter_page \<Rightarrow> bool \<times> chapter_page" where
  "escapeKeyHandlers key s =
     (if key = escape_name \<and> 0 < cp_escape_listeners s then (True, hideHelp (s\<lparr>cp_escape_listeners := 0\<rparr>)) else (False, s))"

text \<open>The mouse listeners sit on the container; they are removed from the document, where they are not, and so they stay. The
  container can be clicked while it is displayed.\<close>

definition mouseHandlers :: "bool \<Rightarrow> nat \<Rightarrow> chapter_page \<Rightarrow> chapter_page" where
  "mouseHandlers in_popup button s =
     (if cp_help_display s = flex \<and> 0 < cp_mouse_listeners s \<and> \<not> in_popup \<and> button = 0 then hideHelp s else s)"

definition chapter_keydown :: "bool \<Rightarrow> bool \<Rightarrow> bool \<Rightarrow> string \<Rightarrow> chapter_page \<Rightarrow> chapter_page" where
  "chapter_keydown search_focus command shift key s =
     (if command then s
      else if search_focus then s
      else let s1 = (if key = help_name then showHelp s else s)
           in if shift then s1
              else if key = ''ArrowRight'' then (if cp_rtl s1 then prev_chapter s1 else next_chapter s1)
              else if key = ''ArrowLeft'' then (if cp_rtl s1 then next_chapter s1 else prev_chapter s1)
              else s1)"

subsection \<open>The keys of a page\<close>

text \<open>A key press: whether Alt, Ctrl or Meta is down, whether Shift is, the target, and the key.\<close>

record key_press =
  kp_command :: bool
  kp_shift :: bool
  kp_target_type :: string
  kp_target_nodeName :: string
  kp_key :: string

definition search_key :: "key_press \<Rightarrow> key_event" where
  "search_key k = \<lparr>ke_modifier = kp_command k \<or> kp_shift k, ke_target_type = kp_target_type k, ke_target_nodeName = kp_target_nodeName k, ke_key = kp_key k\<rparr>"

definition page_keydown :: "search_env \<Rightarrow> key_press \<Rightarrow> chapter_page \<times> searcher \<Rightarrow> chapter_page \<times> searcher" where
  "page_keydown env k = (\<lambda>(s, search).
     case escapeKeyHandlers (kp_key k) s of (stopped, s1) \<Rightarrow>
       if stopped then (s1, search)
       else let search1 = snd (globalKeyHandler env (search_key k) search)
            in (chapter_keydown (hasFocus search1) (kp_command k) (kp_shift k) (kp_key k) s1, search1))"

datatype page_event = PressKey key_press | MouseDown bool nat | SearchEvent search_event

fun page_step :: "search_env \<Rightarrow> page_event \<Rightarrow> chapter_page \<times> searcher \<Rightarrow> chapter_page \<times> searcher" where
  "page_step env (PressKey k) p = page_keydown env k p"
| "page_step env (MouseDown in_popup button) (s, search) = (mouseHandlers in_popup button s, search)"
| "page_step env (SearchEvent e) (s, search) = (s, search_step env e search)"

subsection \<open>The help popup can be closed\<close>

definition help_ok :: "chapter_page \<Rightarrow> bool" where
  "help_ok s \<longleftrightarrow> (cp_help_display s = flex \<longrightarrow> 0 < cp_escape_listeners s \<and> 0 < cp_mouse_listeners s)"

lemma not_flex [simp]: "''none'' \<noteq> flex" "flex \<noteq> ''none''"
  by (simp_all add: flex_def)

lemma hideHelp_ok [simp]: "help_ok (hideHelp s)"
  by (simp add: help_ok_def hideHelp_def)

lemma navigation_ok [simp]: "help_ok (next_chapter s) = help_ok s" "help_ok (prev_chapter s) = help_ok s"
  by (simp_all add: help_ok_def next_chapter_def prev_chapter_def split: option.split)

lemma showHelp_ok [simp]: "help_ok (showHelp s)"
  by (simp add: help_ok_def showHelp_def)

lemma chapter_keydown_ok: "help_ok s \<Longrightarrow> help_ok (chapter_keydown f c sh key s)"
  by (simp add: chapter_keydown_def Let_def)

lemma page_keydown_ok: "help_ok (fst p) \<Longrightarrow> help_ok (fst (page_keydown env k p))"
  by (cases p) (simp add: page_keydown_def escapeKeyHandlers_def Let_def chapter_keydown_ok)

lemma page_steps_ok: "help_ok (fst p) \<Longrightarrow> help_ok (fst (fold (page_step env) evs p))"
proof (induction evs arbitrary: p)
  case (Cons ev evs)
  have "help_ok (fst (page_step env ev p))"
    using Cons.prems by (cases ev; cases p) (simp_all add: page_keydown_ok mouseHandlers_def)
  with Cons.IH show ?case by simp
qed simp

lemma escape_pending:
  assumes "kp_key k = escape_name" and "0 < cp_escape_listeners s"
  shows "page_keydown env k (s, search) = (hideHelp (s\<lparr>cp_escape_listeners := 0\<rparr>), search)"
  using assms by (simp add: page_keydown_def escapeKeyHandlers_def)

subsection \<open>The menu bar\<close>

record menu_bar =
  mb_prevScrollTop :: rat
  mb_minMenuY :: rat
  mb_top :: rat
  mb_topCache :: rat
  mb_sticky :: bool
  mb_stickyCache :: bool
  mb_bordered :: bool

definition updateBorder :: "rat \<Rightarrow> menu_bar \<Rightarrow> menu_bar" where
  "updateBorder offsetTop s = s\<lparr>mb_bordered := (offsetTop \<noteq> 0)\<rparr>"

definition menu_load :: "rat \<Rightarrow> rat \<Rightarrow> rat \<Rightarrow> menu_bar" where
  "menu_load scrollTop clientHeight offsetTop =
     updateBorder offsetTop
       \<lparr>mb_prevScrollTop = scrollTop, mb_minMenuY = - clientHeight - 50, mb_top = scrollTop, mb_topCache = scrollTop,
        mb_sticky = False, mb_stickyCache = False, mb_bordered = False\<rparr>"

definition next_position :: "rat \<Rightarrow> menu_bar \<Rightarrow> bool option \<times> rat option" where
  "next_position scrollTop s =
     (let menuPosAbsoluteY = mb_topCache s - scrollTop
      in if mb_prevScrollTop s < scrollTop
         then (Some False, if 0 < menuPosAbsoluteY then Some (mb_prevScrollTop s) else None)
         else if 0 < menuPosAbsoluteY then (Some True, None)
         else if menuPosAbsoluteY < mb_minMenuY s then (None, Some (mb_prevScrollTop s + mb_minMenuY s))
         else (None, None))"

definition controllPosition :: "rat \<Rightarrow> menu_bar \<Rightarrow> menu_bar" where
  "controllPosition y s =
     (let scrollTop = max y 0;
          (nextSticky, nextTop) = next_position scrollTop s;
          s1 = (if nextSticky = Some True \<and> \<not> mb_stickyCache s then s\<lparr>mb_sticky := True, mb_stickyCache := True\<rparr>
                else if nextSticky = Some False \<and> mb_stickyCache s then s\<lparr>mb_sticky := False, mb_stickyCache := False\<rparr>
                else s);
          s2 = (case nextTop of None \<Rightarrow> s1 | Some t \<Rightarrow> s1\<lparr>mb_top := t, mb_topCache := t\<rparr>)
      in s2\<lparr>mb_prevScrollTop := scrollTop\<rparr>)"

definition menu_scroll :: "rat \<times> rat \<Rightarrow> menu_bar \<Rightarrow> menu_bar" where
  "menu_scroll = (\<lambda>(y, offsetTop) s. updateBorder offsetTop (controllPosition y s))"

text \<open>The caches hold what they cache.\<close>

definition menu_ok :: "menu_bar \<Rightarrow> bool" where
  "menu_ok s \<longleftrightarrow> mb_topCache s = mb_top s \<and> mb_stickyCache s = mb_sticky s \<and> mb_minMenuY s \<le> -50"

lemma menu_scroll_simps:
  assumes "menu_ok s"
  shows "menu_ok (menu_scroll (y, t) s)" and "mb_prevScrollTop (menu_scroll (y, t) s) = max y 0" and "mb_minMenuY (menu_scroll (y, t) s) = mb_minMenuY s"
    and "mb_top (menu_scroll (y, t) s) = (case snd (next_position (max y 0) s) of None \<Rightarrow> mb_top s | Some t \<Rightarrow> t)"
    and "mb_sticky (menu_scroll (y, t) s) = (case fst (next_position (max y 0) s) of None \<Rightarrow> mb_sticky s | Some b \<Rightarrow> b)"
  using assms by (auto simp: menu_ok_def menu_scroll_def updateBorder_def controllPosition_def Let_def split: prod.split option.split)

lemma menu_steps_ok: "menu_ok s \<Longrightarrow> menu_ok (fold menu_scroll evs s)"
  by (induction evs arbitrary: s) (auto simp: menu_scroll_simps(1))

lemma menu_load_ok: "0 \<le> clientHeight \<Longrightarrow> menu_ok (menu_load y clientHeight t)"
  by (simp add: menu_load_def menu_ok_def updateBorder_def)

text \<open>Scrolling up: the bar is at most its own height and 50 pixels above the window, and further scrolling up leaves it there until it sticks.\<close>

lemma scroll_up:
  assumes "menu_ok s" and "max y 0 \<le> mb_prevScrollTop s"
  shows "max y 0 + mb_minMenuY s \<le> mb_top (menu_scroll (y, t) s)"
    and "max y 0 < mb_top s \<Longrightarrow> mb_sticky (menu_scroll (y, t) s)"
    and "mb_prevScrollTop s + mb_minMenuY s \<le> mb_top s \<Longrightarrow> mb_top (menu_scroll (y, t) s) = mb_top s"
  using assms by (auto simp: menu_scroll_simps(4,5) next_position_def Let_def menu_ok_def)

lemma scroll_up_more:
  assumes "menu_ok s" and "mb_prevScrollTop s + mb_minMenuY s \<le> mb_top s"
    and "sorted_wrt (\<ge>) (mb_prevScrollTop s # map (\<lambda>(y, _). max y 0) evs)" and "evs \<noteq> []" and "max (fst (last evs)) 0 < mb_top s"
  shows "mb_sticky (fold menu_scroll evs s)"
  using assms
proof (induction evs arbitrary: s)
  case (Cons ev evs)
  obtain y t where ev: "ev = (y, t)" by fastforce
  define s1 where "s1 = menu_scroll (y, t) s"
  have up: "max y 0 \<le> mb_prevScrollTop s" using Cons.prems(3) by (simp add: ev)
  have p: "menu_ok s1" "mb_prevScrollTop s1 = max y 0" "mb_minMenuY s1 = mb_minMenuY s" "mb_top s1 = mb_top s"
    using menu_scroll_simps(1,2,3) [OF Cons.prems(1), of y t] scroll_up(3) [OF Cons.prems(1) up Cons.prems(2)] by (simp_all add: s1_def)
  show ?case
  proof (cases "evs = []")
    case True
    then show ?thesis using Cons.prems(5) scroll_up(2) [OF Cons.prems(1) up] by (simp add: ev)
  next
    case False
    have above: "mb_prevScrollTop s1 + mb_minMenuY s1 \<le> mb_top s1" using up Cons.prems(2) unfolding p by linarith
    have sorted: "sorted_wrt (\<ge>) (mb_prevScrollTop s1 # map (\<lambda>(y, _). max y 0) evs)" using Cons.prems(3) by (simp add: ev p)
    have "max (fst (last evs)) 0 < mb_top s1" using Cons.prems(5) False p(4) by simp
    from Cons.IH [OF p(1) above sorted False this] show ?thesis by (simp add: ev s1_def)
  qed
qed simp

text \<open>The bar is pinned exactly when it would lie below the upper edge, as long as no scroll event jumps up by more than its height and 50 pixels.\<close>

definition menu_placed :: "menu_bar \<Rightarrow> bool" where
  "menu_placed s \<longleftrightarrow> mb_sticky s = (mb_prevScrollTop s < mb_top s)"

fun small_jumps :: "rat \<Rightarrow> rat \<Rightarrow> (rat \<times> rat) list \<Rightarrow> bool" where
  "small_jumps h p [] = True"
| "small_jumps h p ((y, t) # evs) \<longleftrightarrow> p - max y 0 \<le> h \<and> small_jumps h (max y 0) evs"

lemma menu_scroll_placed:
  assumes "menu_ok s" and "menu_placed s" and "mb_prevScrollTop s - max y 0 \<le> - mb_minMenuY s"
  shows "menu_placed (menu_scroll (y, t) s)"
  using assms unfolding menu_placed_def menu_scroll_simps(2,4,5) [OF assms(1)]
  by (auto simp: next_position_def Let_def menu_ok_def)

lemma menu_steps_placed:
  assumes "menu_ok s" and "menu_placed s" and "small_jumps (- mb_minMenuY s) (mb_prevScrollTop s) evs"
  shows "menu_placed (fold menu_scroll evs s)"
  using assms
proof (induction evs arbitrary: s)
  case (Cons ev evs)
  obtain y t where ev: "ev = (y, t)" by fastforce
  note f = menu_scroll_simps(1,2,3) [OF Cons.prems(1), of y t]
  have "menu_placed (menu_scroll (y, t) s)" using Cons.prems by (intro menu_scroll_placed) (simp_all add: ev)
  with Cons.IH [of "menu_scroll (y, t) s"] f Cons.prems(3) show ?case by (simp add: ev)
qed simp

subsection \<open>Properties\<close>

definition sample_press :: "string \<Rightarrow> key_press" where
  "sample_press key = \<lparr>kp_command = False, kp_shift = False, kp_target_type = [], kp_target_nodeName = ''BODY'', kp_key = key\<rparr>"

definition sample_chapter :: chapter_page where
  "sample_chapter = \<lparr>cp_help_display = [], cp_escape_listeners = 0, cp_mouse_listeners = 0, cp_next = Some ''next.html'', cp_previous = None,
     cp_rtl = False, cp_visited = []\<rparr>"

text \<open>Whenever the help popup is displayed, one press of Escape closes it, with any focus and any modifier, and so does a click beside it.\<close>

theorem help_popup_closes:
  assumes "help_ok (fst p)" and "fold (page_step env) evs p = (s, search)" and "cp_help_display s = flex"
  shows "(\<forall>k. kp_key k = escape_name \<longrightarrow> cp_help_display (fst (page_keydown env k (s, search))) = ''none'') \<and>
         cp_help_display (fst (page_step env (MouseDown False 0) (s, search))) = ''none''"
proof -
  have "help_ok s" using page_steps_ok [OF assms(1), of env evs] assms(2) by simp
  then show ?thesis using assms(3) by (auto simp: help_ok_def escape_pending hideHelp_def mouseHandlers_def)
qed

text \<open>C37: closing the help popup with the mouse leaves its keyboard listener behind: the next press of Escape, whatever searches
  come before it, is swallowed and does not reach the search, which stays open.\<close>

theorem escape_swallowed_after_help:
  assumes opens: "kp_key h = help_name" "\<not> kp_command h" "\<not> hasFocus search"
    and esc: "kp_key e = escape_name"
  shows "\<exists>s'. fold (page_step env) (PressKey h # MouseDown False 0 # map SearchEvent searches @ [PressKey e]) (s, search) =
           (s', fold (search_step env) searches search)"
proof -
  have k: "help_name \<noteq> escape_name" "help_name \<noteq> ''ArrowRight''" "help_name \<noteq> ''ArrowLeft''" "help_name \<noteq> ''s''" "help_name \<noteq> ''/''"
    "help_name \<noteq> ''ArrowDown''" "help_name \<noteq> ''ArrowUp''" "help_name \<noteq> ''Enter''" "help_name \<noteq> ''Escape''"
    by (simp_all add: help_name_def escape_name_def)
  have quiet: "snd (globalKeyHandler env (search_key h) search) = search"
    using k opens by (simp add: globalKeyHandler_def search_key_def Let_def)
  have "page_keydown env h (s, search) = (showHelp s, search)"
    using k opens quiet by (simp add: page_keydown_def escapeKeyHandlers_def Let_def chapter_keydown_def)
  then have first: "fold (page_step env) [PressKey h, MouseDown False 0] (s, search) = (mouseHandlers False 0 (showHelp s), search)" by simp
  have run: "fold (page_step env) (map SearchEvent evs) (t, x) = (t, fold (search_step env) evs x)" for evs t x
    by (induction evs arbitrary: x) simp_all
  have "0 < cp_escape_listeners (mouseHandlers False 0 (showHelp s))" by (simp add: mouseHandlers_def showHelp_def hideHelp_def)
  from escape_pending [OF esc this] show ?thesis using first by (simp add: run)
qed

theorem escape_swallowed_after_help_witness:
  "let opened = fold (search_step sample_env) [IconClicked, BarFocused True] (fresh_page sample_address)
   in (\<exists>s'. fold (page_step sample_env) (PressKey (sample_press help_name) # MouseDown False 0 # map SearchEvent [IconClicked, BarFocused True]
         @ [PressKey (sample_press escape_name)]) (sample_chapter, fresh_page sample_address) = (s', opened)) \<and>
      \<not> sr_wrap_hidden opened \<and> sr_wrap_hidden (snd (globalKeyHandler sample_env (search_key (sample_press escape_name)) opened))"
proof -
  have a: "kp_key (sample_press help_name) = help_name" "\<not> kp_command (sample_press help_name)" "\<not> hasFocus (fresh_page sample_address)"
    "kp_key (sample_press escape_name) = escape_name"
    by (simp_all add: sample_press_def hasFocus_def fresh_page_def)
  have b: "\<not> sr_wrap_hidden (fold (search_step sample_env) [IconClicked, BarFocused True] (fresh_page sample_address))"
    "sr_wrap_hidden (snd (globalKeyHandler sample_env (search_key (sample_press escape_name))
       (fold (search_step sample_env) [IconClicked, BarFocused True] (fresh_page sample_address))))"
    by code_simp+
  show ?thesis unfolding Let_def by (intro conjI escape_swallowed_after_help [OF a] b)
qed

text \<open>C36: the menu bar comes back. Whatever was scrolled before, once the page has been scrolled up a first time and then, in any
  number of steps, up by more than the height of the bar and 50 pixels, the bar is pinned to the upper edge of the window.\<close>

theorem menu_bar_returns:
  fixes before y0 t0
  assumes height: "0 \<le> clientHeight"
  defines "s \<equiv> fold menu_scroll before (menu_load y0 clientHeight t0)"
  assumes up: "sorted_wrt (\<ge>) (map (\<lambda>(y, _). max y 0) (first # evs))" "max (fst first) 0 \<le> mb_prevScrollTop s"
    and enough: "evs \<noteq> []" "max (fst (last evs)) 0 + clientHeight + 50 < max (fst first) 0"
  shows "mb_sticky (fold menu_scroll (first # evs) s)"
proof -
  obtain y t where first: "first = (y, t)" by fastforce
  have ok: "menu_ok s" unfolding s_def by (rule menu_steps_ok [OF menu_load_ok [OF height]])
  have min0: "mb_minMenuY (fold menu_scroll es x) = mb_minMenuY x" if "menu_ok x" for es x
    using that by (induction es arbitrary: x) (auto simp: menu_scroll_simps(1,3))
  have min: "mb_minMenuY s = - clientHeight - 50"
    unfolding s_def min0 [OF menu_load_ok [OF height]] by (simp add: menu_load_def updateBorder_def)
  define s1 where "s1 = menu_scroll (y, t) s"
  have y: "max y 0 \<le> mb_prevScrollTop s" using up(2) by (simp add: first)
  have p: "menu_ok s1" "mb_prevScrollTop s1 = max y 0" "mb_minMenuY s1 = mb_minMenuY s"
    using menu_scroll_simps(1,2,3) [OF ok] by (simp_all add: s1_def)
  have above: "mb_prevScrollTop s1 + mb_minMenuY s1 \<le> mb_top s1" using scroll_up(1) [OF ok y] by (simp add: p) (simp add: s1_def)
  have sorted: "sorted_wrt (\<ge>) (mb_prevScrollTop s1 # map (\<lambda>(y, _). max y 0) evs)" using up(1) by (simp add: first p)
  have "max (fst (last evs)) 0 < mb_top s1" using above enough(2) unfolding p min first fst_conv by linarith
  from scroll_up_more [OF p(1) above sorted enough(1) this] show ?thesis by (simp add: first s1_def)
qed

theorem menu_bar_returns_witness:
  "mb_sticky (fold menu_scroll ((490, 0) # [(400, 0), (300, 0)]) (fold menu_scroll [(500, 0)] (menu_load 0 50 0)))"
proof -
  have "mb_prevScrollTop (fold menu_scroll [(500, 0)] (menu_load 0 50 0)) = 500" by code_simp
  then show ?thesis by (intro menu_bar_returns) simp_all
qed

text \<open>The bar is pinned exactly when its own place lies below the upper edge of the window, as long as no scroll event jumps up
  by more than its height and 50 pixels.\<close>

theorem menu_bar_placed:
  fixes t0
  assumes "0 \<le> clientHeight" and "small_jumps (clientHeight + 50) y0 evs"
  defines "s \<equiv> fold menu_scroll evs (menu_load y0 clientHeight t0)"
  shows "mb_sticky s = (mb_prevScrollTop s < mb_top s)"
proof -
  have "menu_placed (fold menu_scroll evs (menu_load y0 clientHeight t0))"
    by (rule menu_steps_placed [OF menu_load_ok [OF assms(1)]])
       (use assms(2) in \<open>simp_all add: menu_load_def updateBorder_def menu_placed_def add.commute\<close>)
  then show ?thesis by (simp add: s_def menu_placed_def)
qed

text \<open>A scroll event that jumps up by more than the height of the bar and 50 pixels (the Home key, or a page up) leaves
  the bar in the middle of the window: not pinned, and below the upper edge by the length of the jump less that distance, until the next scroll event.\<close>

theorem menu_bar_misplaced_after_jump:
  fixes t0 t1 t
  assumes height: "0 \<le> clientHeight" and y: "0 \<le> y" and jump: "y + clientHeight + 50 < y1" and down: "y0 < y1" "0 \<le> y0" "y0 + clientHeight + 50 < y"
  defines "s \<equiv> fold menu_scroll [(y1, t1), (y, t)] (menu_load y0 clientHeight t0)"
  shows "\<not> mb_sticky s \<and> mb_top s - mb_prevScrollTop s = (y1 - y) - (clientHeight + 50) \<and> 0 < mb_top s - mb_prevScrollTop s"
proof -
  define s0 where "s0 = menu_load y0 clientHeight t0"
  define s1 where "s1 = menu_scroll (y1, t1) s0"
  have s0: "menu_ok s0" "mb_prevScrollTop s0 = y0" "mb_minMenuY s0 = - clientHeight - 50" "mb_top s0 = y0" "mb_topCache s0 = y0" "\<not> mb_sticky s0"
    using menu_load_ok [OF height] by (simp_all add: s0_def menu_load_def updateBorder_def)
  have m: "max y1 0 = y1" "max y 0 = y" using y down by simp_all
  have s1: "menu_ok s1" "mb_prevScrollTop s1 = y1" "mb_minMenuY s1 = - clientHeight - 50" "mb_top s1 = y0" "\<not> mb_sticky s1"
    unfolding s1_def using menu_scroll_simps [OF s0(1), of y1 t1] s0 m down(1) by (simp_all add: next_position_def Let_def)
  have c1: "mb_topCache s1 = y0" using s1(1,4) by (simp add: menu_ok_def)
  have n: "next_position (max y 0) s1 = (None, Some (y1 - clientHeight - 50))"
    using s1 c1 jump down height m by (simp add: next_position_def Let_def)
  note r = menu_scroll_simps [OF s1(1), of y t, unfolded n]
  have "s = menu_scroll (y, t) s1" by (simp add: s_def s1_def s0_def)
  then show ?thesis using r s1(5) m jump by simp
qed

theorem menu_bar_misplaced_after_jump_witness:
  "\<not> mb_sticky (fold menu_scroll [(1000, 0), (300, 0)] (menu_load 0 50 0)) \<and>
   mb_top (fold menu_scroll [(1000, 0), (300, 0)] (menu_load 0 50 0)) - mb_prevScrollTop (fold menu_scroll [(1000, 0), (300, 0)] (menu_load 0 50 0)) = 600"
  using menu_bar_misplaced_after_jump [of 50 300 1000 0 0 0 0] by simp

end
