(* ===== verification/Book_Code.thy ===== *)
theory Book_Code
  imports Page_Dom
begin

section \<open>Code blocks of a page (\<open>book.js\<close>)\<close>

text \<open>
  Code blocks: which of them are highlighted, the buttons they get, hidden lines, the play button of a playground block, which
  depends on the crates the code declares, the runs of its code, and the tooltips of the copy buttons. The highlighter, the editor and
  the clipboard library are parameters: the highlighter is asked for a block, the editor holds a text. A request to the
  playground settles once, by its answer, its failure or the timer, whichever comes first.
\<close>

subsection \<open>Blocks and their text\<close>

definition editable_class :: string where "editable_class = ''editable''"

definition no_run_class :: string where "no_run_class = ''no_run''"

record run_params =
  rp_version :: string
  rp_optimize :: string
  rp_code :: string
  rp_edition :: string

record result_block =
  rb_label :: string
  rb_no_output :: bool

record playground =
  pg_classes :: "string list"
  pg_textContent :: string
  pg_innerText :: string
  pg_editor :: string
  pg_crates :: "string list option"
  pg_button_hidden_class :: bool
  pg_button_hidden :: bool
  pg_result :: "result_block option"
  pg_requests :: "run_params list"
  pg_pending :: "nat list"

definition playground_text :: "bool \<Rightarrow> bool \<Rightarrow> playground \<Rightarrow> string" where
  "playground_text ace hidden b =
     (if ace \<and> editable_class \<in> set (pg_classes b) then pg_editor b
      else if hidden then pg_textContent b
      else pg_innerText b)"

subsection \<open>Declared crates\<close>

definition word_char :: "char \<Rightarrow> bool" where
  "word_char c \<longleftrightarrow> (let n = (of_char c :: nat) in 97 \<le> n \<and> n \<le> 122 \<or> 65 \<le> n \<and> n \<le> 90 \<or> n = 95 \<or> 48 \<le> n \<and> n \<le> 57)"

definition extern_word :: string where "extern_word = ''extern''"

definition crate_word :: string where "crate_word = ''crate''"

definition semicolon :: char where "semicolon = CHR '';''"

text \<open>The expression \<open>extern\s+crate\s+([a-zA-Z_0-9]+)\s*;\<close> at the start of a text: what follows each repetition cannot be part of
  it, so the longest repetition is the only one that can match.\<close>

definition skip_word :: "string \<Rightarrow> string \<Rightarrow> string option" where
  "skip_word w t = (if prefix w t then Some (drop (length w) t) else None)"

definition skip_spaces :: "string \<Rightarrow> string option" where
  "skip_spaces t = (case t of [] \<Rightarrow> None | c # _ \<Rightarrow> if js_space c then Some (dropWhile js_space t) else None)"

definition match_name :: "string \<Rightarrow> (string \<times> string) option" where
  "match_name t =
     (let r = dropWhile js_space (dropWhile word_char t)
      in if takeWhile word_char t \<noteq> [] \<and> r \<noteq> [] \<and> hd r = semicolon then Some (takeWhile word_char t, tl r) else None)"

definition match_extern :: "string \<Rightarrow> (string \<times> string) option" where
  "match_extern t =
     Option.bind (skip_word extern_word t) (\<lambda>r1. Option.bind (skip_spaces r1) (\<lambda>r2.
     Option.bind (skip_word crate_word r2) (\<lambda>r3. Option.bind (skip_spaces r3) match_name)))"

lemma skip_word_iff: "skip_word w t = Some r \<longleftrightarrow> t = w @ r"
  by (auto simp: skip_word_def prefix_def)

lemma skip_spaces_iff:
  "skip_spaces t = Some r \<longleftrightarrow> (\<exists>a. t = a @ r \<and> a \<noteq> [] \<and> list_all js_space a \<and> (r = [] \<or> \<not> js_space (hd r)))"
proof
  assume s: "skip_spaces t = Some r"
  then have r: "r = dropWhile js_space t" "t \<noteq> []" "js_space (hd t)" by (auto simp: skip_spaces_def split: list.splits if_splits)
  have "t = takeWhile js_space t @ r" by (simp add: r(1))
  moreover have "takeWhile js_space t \<noteq> []" using r(2,3) by (cases t) auto
  moreover have "list_all js_space (takeWhile js_space t)" by (auto simp: list_all_iff dest: set_takeWhileD)
  moreover have "r = [] \<or> \<not> js_space (hd r)" unfolding r(1) using hd_dropWhile [of js_space t] by (metis dropWhile_eq_Nil_conv)
  ultimately show "\<exists>a. t = a @ r \<and> a \<noteq> [] \<and> list_all js_space a \<and> (r = [] \<or> \<not> js_space (hd r))" by blast
next
  assume "\<exists>a. t = a @ r \<and> a \<noteq> [] \<and> list_all js_space a \<and> (r = [] \<or> \<not> js_space (hd r))"
  then obtain a where a: "t = a @ r" "a \<noteq> []" "list_all js_space a" "r = [] \<or> \<not> js_space (hd r)" by blast
  have "dropWhile js_space r = r" using a(4) by (cases r) auto
  moreover have "dropWhile js_space (a @ r) = dropWhile js_space r" using a(3) by (simp add: dropWhile_append2 list_all_iff)
  ultimately show "skip_spaces t = Some r" using a by (cases a) (auto simp: skip_spaces_def)
qed

lemma semicolon_plain [simp]: "\<not> js_space semicolon" "\<not> word_char semicolon"
  by (simp_all add: semicolon_def js_space_def word_char_def)

lemma word_not_space: "word_char c \<Longrightarrow> \<not> js_space c"
  by (auto simp: word_char_def js_space_def Let_def)

lemma match_name_iff:
  "match_name t = Some (c, rest) \<longleftrightarrow> (\<exists>d. t = c @ d @ semicolon # rest \<and> c \<noteq> [] \<and> list_all word_char c \<and> list_all js_space d)"
proof
  assume m: "match_name t = Some (c, rest)"
  define u where "u = dropWhile word_char t"
  define r where "r = dropWhile js_space u"
  have c: "c = takeWhile word_char t" "c \<noteq> []" "r = semicolon # rest"
    using m by (cases r; simp add: match_name_def Let_def u_def [symmetric] r_def [symmetric] split: if_splits; blast)+
  have "u = takeWhile js_space u @ semicolon # rest" using takeWhile_dropWhile_id [of js_space u] c(3) unfolding r_def by metis
  moreover have "t = c @ u" by (simp add: c(1) u_def)
  moreover have "list_all word_char c" "list_all js_space (takeWhile js_space u)" by (auto simp: c(1) list_all_iff dest: set_takeWhileD)
  ultimately show "\<exists>d. t = c @ d @ semicolon # rest \<and> c \<noteq> [] \<and> list_all word_char c \<and> list_all js_space d" using c(2) by metis
next
  assume "\<exists>d. t = c @ d @ semicolon # rest \<and> c \<noteq> [] \<and> list_all word_char c \<and> list_all js_space d"
  then obtain d where d: "t = c @ d @ semicolon # rest" "c \<noteq> []" "list_all word_char c" "list_all js_space d" by blast
  have tail: "takeWhile word_char (d @ semicolon # rest) = []" "dropWhile word_char (d @ semicolon # rest) = d @ semicolon # rest"
    using d(4) word_not_space by (cases d; auto)+
  have "takeWhile word_char t = c" "dropWhile word_char t = d @ semicolon # rest"
    using d(3) tail unfolding d(1) by (simp_all add: list_all_iff takeWhile_append2 dropWhile_append2)
  moreover have "dropWhile js_space (d @ semicolon # rest) = semicolon # rest" using d(4) by (simp add: list_all_iff dropWhile_append2)
  ultimately show "match_name t = Some (c, rest)" using d(2) by (simp add: match_name_def Let_def)
qed

text \<open>A declaration, as a text.\<close>

definition crate_decl :: "string \<Rightarrow> string \<Rightarrow> bool" where
  "crate_decl c e \<longleftrightarrow> (\<exists>a b d. e = extern_word @ a @ crate_word @ b @ c @ d \<and> a \<noteq> [] \<and> list_all js_space a \<and> b \<noteq> [] \<and> list_all js_space b \<and>
     c \<noteq> [] \<and> list_all word_char c \<and> list_all js_space d)"

lemma crate_word_start: "crate_word \<noteq> []" "\<not> js_space (hd crate_word)" "\<not> js_space (hd (crate_word @ r))"
  by (simp_all add: crate_word_def js_space_def)

lemma match_extern_iff: "match_extern t = Some (c, rest) \<longleftrightarrow> (\<exists>e. t = e @ semicolon # rest \<and> crate_decl c e)"
proof
  assume "match_extern t = Some (c, rest)"
  then obtain r1 r2 r3 r4 where r: "skip_word extern_word t = Some r1" "skip_spaces r1 = Some r2" "skip_word crate_word r2 = Some r3"
    "skip_spaces r3 = Some r4" "match_name r4 = Some (c, rest)"
    unfolding match_extern_def bind_eq_Some_conv by blast
  obtain a where a: "r1 = a @ r2" "a \<noteq> []" "list_all js_space a" using r(2) unfolding skip_spaces_iff by blast
  obtain b where b: "r3 = b @ r4" "b \<noteq> []" "list_all js_space b" using r(4) unfolding skip_spaces_iff by blast
  obtain d where d: "r4 = c @ d @ semicolon # rest" "c \<noteq> []" "list_all word_char c" "list_all js_space d" using r(5) unfolding match_name_iff by blast
  have "t = (extern_word @ a @ crate_word @ b @ c @ d) @ semicolon # rest"
    using r(1,3) by (simp add: skip_word_iff a b d)
  moreover have "crate_decl c (extern_word @ a @ crate_word @ b @ c @ d)" unfolding crate_decl_def using a b d by blast
  ultimately show "\<exists>e. t = e @ semicolon # rest \<and> crate_decl c e" by blast
next
  assume "\<exists>e. t = e @ semicolon # rest \<and> crate_decl c e"
  then obtain a b d where t: "t = extern_word @ a @ crate_word @ b @ c @ d @ semicolon # rest" "a \<noteq> []" "list_all js_space a"
    "b \<noteq> []" "list_all js_space b" "c \<noteq> []" "list_all word_char c" "list_all js_space d" unfolding crate_decl_def by auto
  have "\<not> js_space (hd (c @ d @ semicolon # rest))" using t(6,7) word_not_space by (cases c) auto
  then have "skip_spaces (b @ c @ d @ semicolon # rest) = Some (c @ d @ semicolon # rest)" using t(4,5) unfolding skip_spaces_iff by blast
  moreover have "skip_spaces (a @ crate_word @ b @ c @ d @ semicolon # rest) = Some (crate_word @ b @ c @ d @ semicolon # rest)"
    using t(2,3) crate_word_start(3) unfolding skip_spaces_iff by blast
  moreover have "skip_word w (w @ r) = Some r" for w r by (simp add: skip_word_iff)
  moreover have "match_name (c @ d @ semicolon # rest) = Some (c, rest)" using t(6,7,8) unfolding match_name_iff by blast
  ultimately show "match_extern t = Some (c, rest)" unfolding match_extern_def t(1) by simp
qed

lemma match_extern_shorter: "match_extern t = Some (c, rest) \<Longrightarrow> length rest < length t"
  unfolding match_extern_iff by auto

function snippet_crates :: "string \<Rightarrow> string list" where
  "snippet_crates [] = []"
| "snippet_crates (x # xs) =
     (case match_extern (x # xs) of
        None \<Rightarrow> snippet_crates xs
      | Some (c, rest) \<Rightarrow> c # snippet_crates rest)"
  by pat_completeness auto
termination by (relation "measure length") (auto dest: match_extern_shorter)

definition update_play_button :: "bool \<Rightarrow> string list \<Rightarrow> playground \<Rightarrow> playground" where
  "update_play_button ace playground_crates b =
     (if no_run_class \<in> set (pg_classes b) then b\<lparr>pg_button_hidden_class := True\<rparr>
      else let all_available = list_all (\<lambda>elem. elem \<in> set playground_crates) (snippet_crates (playground_text ace True b))
           in if all_available then b\<lparr>pg_button_hidden_class := False, pg_button_hidden := False\<rparr>
              else b\<lparr>pg_button_hidden_class := True\<rparr>)"

text \<open>The crate list arrives; from then on an editable block updates its button on every change.\<close>

definition handle_crate_list_update :: "bool \<Rightarrow> string list \<Rightarrow> playground \<Rightarrow> playground" where
  "handle_crate_list_update ace playground_crates b =
     (let b1 = update_play_button ace playground_crates b
      in if ace \<and> editable_class \<in> set (pg_classes b1) then b1\<lparr>pg_crates := Some playground_crates\<rparr> else b1)"

definition editor_change :: "bool \<Rightarrow> string \<Rightarrow> playground \<Rightarrow> playground" where
  "editor_change ace v b =
     (let b1 = b\<lparr>pg_editor := v\<rparr>
      in case pg_crates b1 of None \<Rightarrow> b1 | Some playground_crates \<Rightarrow> update_play_button ace playground_crates b1)"

subsection \<open>Running code\<close>

definition edition_of :: "string list \<Rightarrow> string" where
  "edition_of classes = fold (\<lambda>className edition. if prefix ''edition'' className then drop 7 className else edition) classes ''2015''"

definition run_request :: "bool \<Rightarrow> playground \<Rightarrow> run_params" where
  "run_request ace b =
     (let code = playground_text ace True b
      in \<lparr>rp_version = (if sublist ''#![feature'' code then ''nightly'' else ''stable''), rp_optimize = ''0'', rp_code = code,
          rp_edition = edition_of (pg_classes b)\<rparr>)"

definition run_rust_code :: "bool \<Rightarrow> playground \<Rightarrow> playground" where
  "run_rust_code ace b =
     (let no_output = (case pg_result b of None \<Rightarrow> False | Some r \<Rightarrow> rb_no_output r)
      in b\<lparr>pg_result := Some \<lparr>rb_label = ''Running...'', rb_no_output = no_output\<rparr>,
            pg_requests := pg_requests b @ [run_request ace b], pg_pending := pg_pending b @ [length (pg_requests b)]\<rparr>)"

text \<open>How a request settles: with a result, with an answer that has none, or with an error (the network, or the timer of
  \<open>fetch_with_timeout\<close>).\<close>

datatype outcome = Result string | NoResult js_error | Failure js_error | Timeout

definition timeout_error :: js_error where "timeout_error = new_Error ''timeout''"

definition communication_error :: "js_error \<Rightarrow> result_block \<Rightarrow> result_block" where
  "communication_error e r = r\<lparr>rb_label := ''Playground Communication: '' @ e_message e\<rparr>"

definition show_outcome :: "outcome \<Rightarrow> result_block \<Rightarrow> result_block" where
  "show_outcome out r =
     (case out of
        Result v \<Rightarrow> if js_trim v = [] then r\<lparr>rb_label := ''No output'', rb_no_output := True\<rparr>
                     else r\<lparr>rb_label := v, rb_no_output := False\<rparr>
      | NoResult e \<Rightarrow> communication_error e r
      | Failure e \<Rightarrow> communication_error e r
      | Timeout \<Rightarrow> communication_error timeout_error r)"

definition run_settled :: "nat \<Rightarrow> outcome \<Rightarrow> playground \<Rightarrow> playground" where
  "run_settled i out b =
     (if i \<in> set (pg_pending b)
      then b\<lparr>pg_pending := removeAll i (pg_pending b), pg_result := map_option (show_outcome out) (pg_result b)\<rparr>
      else b)"

datatype playground_event = RunClicked | Settled nat outcome | Changed string | CrateList "string list"

fun playground_step :: "bool \<Rightarrow> playground_event \<Rightarrow> playground \<Rightarrow> playground" where
  "playground_step ace RunClicked b = run_rust_code ace b"
| "playground_step ace (Settled i out) b = run_settled i out b"
| "playground_step ace (Changed v) b = editor_change ace v b"
| "playground_step ace (CrateList crates) b = handle_crate_list_update ace crates b"

subsection \<open>Setting up the blocks\<close>

datatype snippet_button = EyeButton | ClipButton | PlayButton | ResetButton

record code_node =
  cn_in_header :: bool
  cn_in_playground :: bool
  cn_classes :: "string list"
  cn_boring :: nat
  cn_highlighted :: bool
  cn_buttons :: "snippet_button list option"

definition highlight_node :: "bool \<Rightarrow> code_node \<Rightarrow> code_node" where
  "highlight_node ace n =
     (if cn_in_header n then n
      else let n1 = (if ace \<and> editable_class \<in> set (cn_classes n) then n\<lparr>cn_classes := class_remove ''language-rust'' (cn_classes n)\<rparr>
                     else n\<lparr>cn_highlighted := True\<rparr>)
           in n1\<lparr>cn_classes := class_add ''hljs'' (cn_classes n1)\<rparr>)"

definition boring_buttons :: "code_node \<Rightarrow> code_node" where
  "boring_buttons n =
     (if ''hljs'' \<in> set (cn_classes n) \<and> cn_boring n \<noteq> 0
      then n\<lparr>cn_classes := class_add ''hide-boring'' (cn_classes n), cn_buttons := Some [EyeButton]\<rparr> else n)"

definition insert_button :: "snippet_button \<Rightarrow> code_node \<Rightarrow> code_node" where
  "insert_button k n = n\<lparr>cn_buttons := Some (k # (case cn_buttons n of None \<Rightarrow> [] | Some ks \<Rightarrow> ks))\<rparr>"

definition clip_buttons :: "bool \<Rightarrow> code_node \<Rightarrow> code_node" where
  "clip_buttons copyable n = (if copyable \<and> \<not> cn_in_playground n then insert_button ClipButton n else n)"

definition playground_buttons :: "bool \<Rightarrow> bool \<Rightarrow> code_node \<Rightarrow> code_node" where
  "playground_buttons ace copyable n =
     (if cn_in_playground n
      then let n1 = insert_button PlayButton n;
               n2 = (if copyable then insert_button ClipButton n1 else n1)
           in if ace \<and> editable_class \<in> set (cn_classes n2) then insert_button ResetButton n2 else n2
      else n)"

text \<open>A block inside \<open>pre\<close>, after the whole set-up.\<close>

definition setup_block :: "bool \<Rightarrow> bool \<Rightarrow> code_node \<Rightarrow> code_node" where
  "setup_block ace copyable n = playground_buttons ace copyable (clip_buttons copyable (boring_buttons (highlight_node ace n)))"

subsection \<open>Hidden lines\<close>

record eye_button =
  eb_title :: string
  eb_aria_label :: string
  eb_icon :: string
  eb_hide_boring :: bool

definition show_title :: string where "show_title = ''Show hidden lines''"

definition hide_title :: string where "hide_title = ''Hide lines''"

definition new_eye_button :: eye_button where
  "new_eye_button = \<lparr>eb_title = show_title, eb_aria_label = show_title, eb_icon = ''fa-eye'', eb_hide_boring = True\<rparr>"

text \<open>A click lands on the button or on its icon, an SVG element, which has no title: the attribute becomes the text of \<open>undefined\<close>.\<close>

definition eye_click :: "bool \<Rightarrow> eye_button \<Rightarrow> eye_button" where
  "eye_click on_icon b =
     (let label = (\<lambda>title. if on_icon then ''undefined'' else title)
      in if eb_title b = show_title
         then b\<lparr>eb_icon := ''fa-eye-slash'', eb_title := hide_title, eb_aria_label := label hide_title, eb_hide_boring := False\<rparr>
         else if eb_title b = hide_title
         then b\<lparr>eb_icon := ''fa-eye'', eb_title := show_title, eb_aria_label := label show_title, eb_hide_boring := True\<rparr>
         else b)"

subsection \<open>Copying\<close>

record clip_button =
  cb_tooltip :: string
  cb_className :: string

definition hideTooltip :: "clip_button \<Rightarrow> clip_button" where
  "hideTooltip b = b\<lparr>cb_tooltip := [], cb_className := ''clip-button''\<rparr>"

definition showTooltip :: "string \<Rightarrow> clip_button \<Rightarrow> clip_button" where
  "showTooltip msg b = b\<lparr>cb_tooltip := msg, cb_className := ''clip-button tooltipped''\<rparr>"

text \<open>A click asks for the text, which hides the tooltip, and the library then reports success or an error; moving the mouse away hides it.\<close>

definition clip_click :: "bool \<Rightarrow> playground \<Rightarrow> bool \<Rightarrow> clip_button \<Rightarrow> string \<times> clip_button" where
  "clip_click ace block success b =
     (playground_text ace False block, showTooltip (if success then ''Copied!'' else ''Clipboard error!'') (hideTooltip b))"

definition clip_mouseout :: "clip_button \<Rightarrow> clip_button" where
  "clip_mouseout b = hideTooltip b"

subsection \<open>The crates that are found\<close>

text \<open>The number of words of a text, by their last characters.\<close>

fun words :: "string \<Rightarrow> nat" where
  "words [] = 0"
| "words (x # xs) = (if \<not> js_space x \<and> (xs = [] \<or> js_space (hd xs)) then 1 else 0) + words xs"

lemma words_mono: "words v \<le> words (u @ v)"
  by (induction u) simp_all

lemma words_spaces: "list_all js_space a \<Longrightarrow> words (a @ v) = words v"
  by (induction a) simp_all

lemma words_word:
  assumes "w \<noteq> []" and "list_all (\<lambda>c. \<not> js_space c) w" and "v = [] \<or> js_space (hd v)"
  shows "words (w @ v) = Suc (words v)"
  using assms by (induction w rule: list_nonempty_induct) (auto simp: hd_append neq_Nil_conv)

lemma words_decl:
  assumes "crate_decl c e"
  shows "words e = 3" and "takeWhile (\<lambda>x. \<not> js_space x) e = extern_word" and "semicolon \<notin> set e"
proof -
  obtain a b d where e: "e = extern_word @ a @ crate_word @ b @ c @ d" "a \<noteq> []" "list_all js_space a" "b \<noteq> []" "list_all js_space b"
    "c \<noteq> []" "list_all word_char c" "list_all js_space d" using assms unfolding crate_decl_def by blast
  have w: "extern_word \<noteq> []" "list_all (\<lambda>c. \<not> js_space c) extern_word" "crate_word \<noteq> []" "list_all (\<lambda>c. \<not> js_space c) crate_word"
    "semicolon \<notin> set extern_word" "semicolon \<notin> set crate_word"
    by (simp_all add: extern_word_def crate_word_def js_space_def semicolon_def)
  have c: "list_all (\<lambda>c. \<not> js_space c) c" using e(7) word_not_space by (auto simp: list_all_iff)
  have hd: "js_space (hd (x @ r))" if "x \<noteq> []" "list_all js_space x" for x r using that by (cases x) auto
  have "words (c @ d) = Suc (words d)" by (rule words_word) (use e(6) c hd [of d "[]"] e(8) in auto)
  moreover have "words d = 0" using words_spaces [OF e(8), of "[]"] by simp
  moreover have "words (crate_word @ b @ c @ d) = Suc (words (b @ c @ d))" by (rule words_word) (use w hd [OF e(4,5)] in auto)
  moreover have "words (extern_word @ a @ crate_word @ b @ c @ d) = Suc (words (a @ crate_word @ b @ c @ d))"
    by (rule words_word) (use w hd [OF e(2,3)] in auto)
  ultimately show "words e = 3" by (simp add: e(1) words_spaces e(3,5))
  have "takeWhile (\<lambda>x. \<not> js_space x) (a @ r) = []" for r using hd [OF e(2,3), of r] e(2) by (cases a) auto
  then show "takeWhile (\<lambda>x. \<not> js_space x) e = extern_word" unfolding e(1) using w(2) by (simp add: takeWhile_append2 list_all_iff)
  have "semicolon \<notin> set x" if "list_all js_space x" for x using that by (auto simp: list_all_iff)
  moreover have "semicolon \<notin> set c" using e(7) by (auto simp: list_all_iff)
  ultimately show "semicolon \<notin> set e" using w e by simp
qed

lemma words_prepend:
  assumes "words (u @ v) = words v" and "u \<noteq> []" and "\<not> js_space (hd u)" and "v \<noteq> []" and "\<not> js_space (hd v)"
  shows "takeWhile (\<lambda>x. \<not> js_space x) (u @ v) = u @ takeWhile (\<lambda>x. \<not> js_space x) v"
  using assms
proof (induction u)
  case (Cons x us)
  show ?case
  proof (cases "us = []")
    case False
    have "words v \<le> words (us @ v)" by (rule words_mono)
    then have "\<not> js_space (hd us)" "words (us @ v) = words v" using Cons.prems False by (auto split: if_splits)
    with Cons False show ?thesis by simp
  qed (use Cons.prems in simp)
qed simp

text \<open>No declaration begins inside another one.\<close>

lemma decl_not_inside:
  assumes "crate_decl c' e'" and "crate_decl c e" and "e' = u @ e"
  shows "u = []"
proof (rule ccontr)
  assume u: "u \<noteq> []"
  have ext: "extern_word \<noteq> []" "\<not> js_space (hd extern_word)" by (simp_all add: extern_word_def js_space_def)
  have start: "x \<noteq> [] \<and> \<not> js_space (hd x)" if "crate_decl y x" for x y
    using that ext unfolding crate_decl_def by (auto simp: hd_append)
  have "\<not> js_space (hd u)" using start [OF assms(1)] u assms(3) by simp
  moreover have "words (u @ e) = words e" using words_decl(1) [OF assms(1)] words_decl(1) [OF assms(2)] assms(3) by simp
  ultimately have "takeWhile (\<lambda>x. \<not> js_space x) e' = u @ takeWhile (\<lambda>x. \<not> js_space x) e"
    using words_prepend [of u e] u start [OF assms(2)] assms(3) by simp
  then show False using u words_decl(2) [OF assms(1)] words_decl(2) [OF assms(2)] by simp
qed

lemma decl_disjoint:
  assumes e': "crate_decl c' e'" and e: "crate_decl c e" and eq: "e' @ semicolon # rest = pre @ e @ semicolon # post" and pre: "pre \<noteq> []"
  shows "\<exists>u. pre = e' @ semicolon # u \<and> rest = u @ e @ semicolon # post"
proof (cases "length pre \<le> length e'")
  case True
  have "semicolon \<notin> set pre" using True words_decl(3) [OF e'] eq by (auto simp: append_eq_append_conv2 append_eq_append_conv_if dest: in_set_takeD)
  then have "takeWhile (\<lambda>x. x \<noteq> semicolon) (pre @ e @ semicolon # post) = pre @ e"
    using words_decl(3) [OF e] by (subst append_assoc [symmetric], subst takeWhile_append2) auto
  moreover have "takeWhile (\<lambda>x. x \<noteq> semicolon) (e' @ semicolon # rest) = e'"
    using words_decl(3) [OF e'] by (subst takeWhile_append2) auto
  ultimately have "e' = pre @ e" using eq by simp
  then show ?thesis using decl_not_inside [OF e' e] pre by simp
next
  case False
  then obtain x u where "pre = e' @ x # u" "semicolon # rest = x # u @ e @ semicolon # post"
    using eq by (auto simp: append_eq_append_conv2 neq_Nil_conv Cons_eq_append_conv)
  then show ?thesis by simp
qed

lemma snippet_crates_sound: "c \<in> set (snippet_crates t) \<Longrightarrow> \<exists>pre e post. t = pre @ e @ semicolon # post \<and> crate_decl c e"
proof (induction t rule: snippet_crates.induct)
  case (2 x xs)
  show ?case
  proof (cases "match_extern (x # xs)")
    case None
    then obtain pre e post where "xs = pre @ e @ semicolon # post" "crate_decl c e" using 2 by auto
    then show ?thesis by (metis append_Cons)
  next
    case (Some m)
    obtain c' rest where m: "m = (c', rest)" by fastforce
    obtain e' where e': "x # xs = e' @ semicolon # rest" "crate_decl c' e'" using Some m match_extern_iff by blast
    show ?thesis
    proof (cases "c = c'")
      case True
      then show ?thesis using e' by (metis append_Nil)
    next
      case False
      then have "c \<in> set (snippet_crates rest)" using 2(3) Some m by simp
      then obtain pre e post where "rest = pre @ e @ semicolon # post" "crate_decl c e" using 2(2) [OF Some m [symmetric]] by blast
      moreover from this have "x # xs = (e' @ semicolon # pre) @ e @ semicolon # post" using e'(1) by simp
      ultimately show ?thesis by blast
    qed
  qed
qed simp

lemma snippet_crates_complete: "crate_decl c e \<Longrightarrow> t = pre @ e @ semicolon # post \<Longrightarrow> c \<in> set (snippet_crates t)"
proof (induction t arbitrary: pre rule: snippet_crates.induct)
  case (2 x xs)
  show ?case
  proof (cases "match_extern (x # xs)")
    case None
    then have "pre \<noteq> []" using 2(3,4) match_extern_iff [of "x # xs" c post] by auto
    then obtain pre' where "xs = pre' @ e @ semicolon # post" using 2(4) by (cases pre) auto
    then show ?thesis using 2(1) [OF None 2(3)] None by simp
  next
    case (Some m)
    obtain c' rest where m: "m = (c', rest)" by fastforce
    obtain e' where e': "x # xs = e' @ semicolon # rest" "crate_decl c' e'" using Some m match_extern_iff by blast
    show ?thesis
    proof (cases "pre = []")
      case True
      then have "match_extern (x # xs) = Some (c, post)" using 2(3,4) match_extern_iff by auto
      then show ?thesis by simp
    next
      case False
      obtain u where "rest = u @ e @ semicolon # post" using decl_disjoint [OF e'(2) 2(3) _ False] e'(1) 2(4) by metis
      then have "c \<in> set (snippet_crates rest)" using 2(2) [OF Some m [symmetric] 2(3)] by simp
      then show ?thesis using Some m by simp
    qed
  qed
qed simp

subsection \<open>Buttons and runs\<close>

lemma eye_titles [simp]: "show_title \<noteq> hide_title" "hide_title \<noteq> show_title"
  by (simp_all add: show_title_def hide_title_def)

text \<open>The buttons of a block, from the left: undo, copy, run, show hidden lines.\<close>

theorem block_buttons:
  assumes "cn_buttons n = None" and "cn_in_header n = False"
  shows "cn_buttons (setup_block ace copyable n) =
    (let ks = (if cn_in_playground n \<and> ace \<and> editable_class \<in> set (cn_classes n) then [ResetButton] else []) @
              (if copyable then [ClipButton] else []) @ (if cn_in_playground n then [PlayButton] else []) @
              (if cn_boring n \<noteq> 0 then [EyeButton] else [])
     in if ks = [] then None else Some ks)"
proof -
  have e: "editable_class \<noteq> ''language-rust''" "editable_class \<noteq> ''hljs''" "editable_class \<noteq> ''hide-boring''" by (simp_all add: editable_class_def)
  show ?thesis using assms e
    by (simp add: setup_block_def highlight_node_def boring_buttons_def clip_buttons_def playground_buttons_def insert_button_def Let_def)
qed

text \<open>Without clicks on the icon, the label of the button that shows hidden lines is its title, and it agrees with what is hidden.\<close>

theorem eye_button_agrees:
  "b = (eye_click False ^^ n) new_eye_button \<Longrightarrow>
     eb_aria_label b = eb_title b \<and> eb_title b = (if eb_hide_boring b then show_title else hide_title) \<and> eb_hide_boring b = even n"
  by (induction n arbitrary: b) (auto simp: new_eye_button_def eye_click_def Let_def)

theorem eye_label_undefined: "eb_aria_label (eye_click True new_eye_button) = ''undefined''"
  by (simp add: eye_click_def new_eye_button_def Let_def)

subsection \<open>Properties\<close>

definition sample_playground :: playground where
  "sample_playground = \<lparr>pg_classes = [''language-rust'', ''edition2021''], pg_textContent = ''extern crate  rand ; fn main() {}'', pg_innerText = ''fn main() {}'',
     pg_editor = [], pg_crates = None, pg_button_hidden_class = False, pg_button_hidden = True, pg_result = None, pg_requests = [], pg_pending = []\<rparr>"

text \<open>C35: once the list of available crates has arrived, the play button of a block is visible exactly when the block may run
  and every crate that its code declares anywhere, by \<open>extern crate\<close> with any white space, is on the list.\<close>

theorem play_button_visible_iff:
  fixes ace crates b
  defines "code \<equiv> playground_text ace True b"
  defines "b' \<equiv> playground_step ace (CrateList crates) b"
  shows "(\<not> pg_button_hidden_class b' \<and> \<not> pg_button_hidden b') =
         (no_run_class \<notin> set (pg_classes b) \<and>
          (\<forall>c pre e post. code = pre @ e @ semicolon # post \<longrightarrow> crate_decl c e \<longrightarrow> c \<in> set crates))"
proof -
  have "list_all (\<lambda>c. c \<in> set crates) (snippet_crates code) =
      (\<forall>c pre e post. code = pre @ e @ semicolon # post \<longrightarrow> crate_decl c e \<longrightarrow> c \<in> set crates)"
    unfolding list_all_iff using snippet_crates_sound [of _ code] snippet_crates_complete [of _ _ code] by metis
  moreover have "pg_button_hidden_class b' = pg_button_hidden_class (update_play_button ace crates b)"
    "pg_button_hidden b' = pg_button_hidden (update_play_button ace crates b)"
    by (simp_all add: b'_def handle_crate_list_update_def Let_def)
  ultimately show ?thesis by (simp add: update_play_button_def code_def [symmetric] Let_def)
qed

theorem play_button_visible_iff_witness:
  "crate_decl ''rand'' ''extern crate  rand '' \<and>
   \<not> (\<not> pg_button_hidden_class (playground_step False (CrateList [''serde'']) sample_playground) \<and>
      \<not> pg_button_hidden (playground_step False (CrateList [''serde'']) sample_playground))"
proof -
  have d: "crate_decl ''rand'' ''extern crate  rand ''"
    unfolding crate_decl_def by (intro exI [of _ "'' ''"] exI [of _ "''  ''"]) (simp add: extern_word_def crate_word_def js_space_def word_char_def)
  have t: "playground_text False True sample_playground = [] @ ''extern crate  rand '' @ semicolon # '' fn main() {}''"
    by (simp add: sample_playground_def playground_text_def editable_class_def semicolon_def)
  have "''rand'' \<notin> set [''serde'']" by simp
  then show ?thesis using d t play_button_visible_iff [where ace = False and crates = "[''serde'']" and b = sample_playground] by blast
qed

text \<open>The answers of two runs are not told apart: when the answer of the first run arrives after that of the second, the block shows the
  result of the first, for code that has been changed since.\<close>

theorem stale_run_shown:
  fixes ace code v2 and b :: playground
  assumes out: "js_trim v1 \<noteq> []"
  defines "k \<equiv> length (pg_requests b)"
  defines "b' \<equiv> fold (playground_step ace) [RunClicked, Changed code, RunClicked, Settled (k + 1) (Result v2), Settled k (Result v1)] b"
  shows "map_option rb_label (pg_result b') = Some v1 \<and> length (pg_requests b') = k + 2"
proof -
  define b1 where "b1 = run_rust_code ace b"
  define b2 where "b2 = editor_change ace code b1"
  define b3 where "b3 = run_rust_code ace b2"
  have b1: "length (pg_requests b1) = k + 1" "pg_pending b1 = pg_pending b @ [k]" by (simp_all add: b1_def run_rust_code_def Let_def k_def)
  have b2: "length (pg_requests b2) = k + 1" "pg_pending b2 = pg_pending b @ [k]"
    using b1 by (simp_all add: b2_def editor_change_def update_play_button_def Let_def split: option.split)
  have b3: "length (pg_requests b3) = k + 2" "pg_pending b3 = pg_pending b @ [k, k + 1]" "pg_result b3 \<noteq> None"
    using b2 by (simp_all add: b3_def run_rust_code_def Let_def)
  have "b' = run_settled k (Result v1) (run_settled (k + 1) (Result v2) b3)" by (simp add: b'_def b1_def b2_def b3_def)
  moreover obtain r where "pg_result b3 = Some r" using b3(3) by blast
  ultimately show ?thesis using b3(1,2) out by (simp add: run_settled_def show_outcome_def)
qed

theorem stale_run_shown_witness:
  "map_option rb_label (pg_result (fold (playground_step False)
     [RunClicked, Changed [], RunClicked, Settled (length (pg_requests sample_playground) + 1) (Result ''new''),
      Settled (length (pg_requests sample_playground)) (Result ''old'')] sample_playground)) = Some ''old''"
proof -
  have t: "js_trim ''old'' \<noteq> []" by code_simp
  show ?thesis using stale_run_shown [OF t] by blast
qed

end
