(* ===== verification/Spec2Isabelle.thy ===== *)
theory Spec2Isabelle
  imports Vlp Conformance Vlp_Secure Outcome Agent Panic Examples Landing_Page Terminal_Animation Searcher Sidebar_Scroll
    Book_Theme Book_Sidebar Book_Menu Book_Code
begin

text \<open>
  \<^bold>\<open>Varta: the Node client and the scripts of the site.\<close>

  Varta is a liveness protocol: a process (the agent) emits heartbeat frames of 32 bytes over a datagram socket, an
  observer decodes them and notices when they stop. This development covers the JavaScript and
  TypeScript of the repository: the client library for Node (\<open>clients/node/src\<close>), its example programs
  (\<open>clients/node/examples\<close>), the script of the landing page (\<open>script.js\<close>) and the scripts of the published book
  (\<open>_site/book\<close>).

  \<^bold>\<open>How the code is represented.\<close> Functions of the source are functions of the same name, classes and closures are
  records with their operations as functions from state to state, and exceptions are values: an operation that can throw
  returns \<^typ>\<open>js_error + 'a\<close>, or the exception beside the state it leaves. Machine integers are words of their width where
  the source truncates (the buffers, the CRC, \<open>>>> 0\<close>); a JavaScript number is \<^typ>\<open>jsnum\<close> where NaN and infinities
  matter, and a bigint is an \<^typ>\<open>int\<close>. Strings are lists of Latin-1 characters. What a program does
  to the outside is an explicit world that is passed along: sockets with what they put on the wire, the clock, entropy, process
  listeners, standard error. What the outside does to the program (callbacks, timers, signals, clicks) is a list of events in any order, and
  the invariants are proved over every such list. All definitions compute, and the witnesses evaluate them.

  \<^bold>\<open>The client library.\<close> The theories follow the files, each with its state, its operations and its invariant.
  \<^item> \<open>Varta_Prelude\<close>: numbers, \<open>ToUint32\<close>, exceptions, \<open>Buffer\<close>, strings and number parsing, with the laws on buffers and words.
  \<^item> \<open>Crc32c\<close>, \<open>Vlp\<close> (\<open>vlp.ts\<close>): table, checksum, \<open>encode\<close>, \<open>encodeInto\<close>, \<open>decode\<close>. The checksum equals the bit-serial one; decoding
    accepts exactly what encoding produces, reports the first failing check, and rejects every change within 32 consecutive bits.
  \<^item> \<open>Conformance\<close> (\<open>tools/vlp-test-vectors.json\<close>, \<open>tests/conformance.test.ts\<close>): the vectors that all clients of the repository share, for checksums and frames, evaluated on the model.
  \<^item> \<open>Node_Crypto\<close>, \<open>Vlp_Secure\<close> (\<open>vlp_secure.ts\<close>): HKDF and ChaCha20-Poly1305 of Node are parameters with their documented laws, the
    locale \<open>aead\<close> among them; key derivation, nonces and both sealed formats are the code's. Decoding
    accepts exactly what encoding produces, and the inputs of different derivations never coincide.
  \<^item> \<open>Errno\<close>, \<open>Outcome\<close> (\<open>errno.ts\<close>, \<open>outcome.ts\<close>): the error numbers of the running platform and the classification of send errors.
  \<^item> \<open>Node_Runtime\<close>: datagram sockets of Node (binding, asynchronous connecting, sending, closing), clocks, entropy.
  \<^item> \<open>Beat_Transport\<close>, \<open>Udp_Transport\<close>, \<open>Secure_Transport\<close>, \<open>Uds_Transport\<close> (\<open>transport.ts\<close>): the interface as the locale \<open>beat_transport\<close>, its
    extension \<open>transport_events\<close>, and the three transports that interpret them. Accepted datagrams are delivered once and in order, at most 64 wait for the connection, and
    no nonce is used twice under one key.
  \<^item> \<open>Client\<close> (\<open>client.ts\<close>): the agent over any transport. \<open>beat\<close> is total and keeps nonce, timestamp and counters in their bounds, also
    across forks, clock regressions and reconnects.
  \<^item> \<open>Agent\<close>: agent and transports together. What reaches the wire decodes, in order, to the frames reported as sent.
  \<^item> \<open>Panic\<close> (\<open>panic.ts\<close>): installers, emitters and listeners over the process object of Node. A terminating event sends exactly one
    critical frame and the process still ends; the theorems also show the situations in which no frame is sent.
  \<^item> \<open>Examples\<close> (\<open>examples/*.ts\<close>): the five programs, with end-to-end statements on two of them.

  \<^bold>\<open>The site.\<close>
  \<^item> \<open>Landing_Page\<close> (\<open>script.js\<close>): navigation bar, scroll reveal, counters, copy button, menu. The counters end at their true value, and the copy button
    has at most one reset pending.
  \<^item> \<open>Terminal_Animation\<close> (\<open>script.js\<close>): the simulated terminal; under every order of timers and visibility changes it shows a position of one fixed script.
  \<^item> \<open>Web_Text\<close>, \<open>Page_Url\<close>, \<open>Search_Teaser\<close>, \<open>Searcher\<close> (\<open>searcher.js\<close>): string functions, addresses and query parameters, the teasers, and the search page with
    its history. Links and addresses read back what was printed into them, with the exceptions that the theorems name; teasers are safe excerpts of the best window.
  \<^item> \<open>Page_Dom\<close>: class lists, storage and element lookup, shared by the scripts below, and the script in the head of a page that unwraps stored values.
  \<^item> \<open>Sidebar_Headers\<close>, \<open>Sidebar_Scroll\<close> (\<open>toc.js\<close>): the header list of a page, which mirrors order and depth of the headers, the open chapter, and the header that the
    sidebar marks while the page scrolls: at most one, the last one at the end of the page, and the clicked one after a click.
  \<^item> \<open>Book_Theme\<close> (\<open>book.js\<close>, \<open>mermaid-init.js\<close>): the theme menu, whose handlers keep classes, stylesheets, menu and storage in agreement, and the diagrams, which miss theme changes.
  \<^item> \<open>Book_Sidebar\<close> (\<open>book.js\<close>): showing, hiding, dragging and swiping the sidebar; attributes agree with what is shown, swipes and the toggle button do not.
  \<^item> \<open>Book_Menu\<close> (\<open>book.js\<close> with \<open>searcher.js\<close>): the keys of a page, the help popup and the menu bar, which comes back when the page scrolls up.
  \<^item> \<open>Book_Code\<close> (\<open>book.js\<close>): code blocks, their buttons, the scan for declared crates, which finds exactly the declarations, and the runs in the playground.

  \<^bold>\<open>Bounds.\<close> No definition uses fuel: recursion is structural or has a termination proof (\<open>pop_to\<close>, \<open>decodeURIComponent\<close>, \<open>radix_string\<close>, \<open>snippet_crates\<close>). Numbers of the page scripts
  are exact rationals; \<open>number_text\<close> prints at most 17 decimals, more than a literal of the page has.

  \<^bold>\<open>Not modelled.\<close>
  \<^item> The Rust crates, the Python, Go, Java and .NET clients, fuzz targets, charts, dashboards and shell scripts: other languages, outside the subject of this development.
  \<^item> \<open>clients/node/src/index.ts\<close> only re-exports; the other tests of the client drive real sockets and processes. The vectors of the sealed formats need the concrete ciphers,
    which are parameters here.
  \<^item> Vendored and generated scripts (Mermaid, Highlight.js, ClipboardJS, elasticlunr, mark.js, the search index) are third-party code; where a modelled script calls them, they
    are parameters.
  \<^item> Of \<open>book.js\<close>, the click on the title, which asks for a smooth scroll to the top; of \<open>toc.js\<close>, the chapter list that the generator writes into the script.
  \<^item> Of the browser, only what the scripts read and write: layout is input, styling is output that nothing reads.
\<close>

end
